(* ===== verification/Prelude.thy ===== *)
theory Prelude
  imports Main "HOL-Library.Word" "HOL-Library.Code_Target_Nat"
begin

text \<open>
  Shared vocabulary of the development: the outcome of a Rust function that can return, fail
  with an error value or panic; indexing, slicing, division and shifts with the panics Rust
  attaches to them; saturating arithmetic on \<open>usize\<close>; and the lemmas on lists, bytes and words
  that the component theories use.
\<close>

unbundle bit_operations_syntax

type_synonym u8 = "8 word"
type_synonym u16 = "16 word"
type_synonym bytes = "8 word list"

text \<open>
  \<open>Ok v\<close> and \<open>Err e\<close> are Rust's \<open>Result\<close>; \<open>Panic\<close> is a call that unwinds (an index or a
  slice out of range, a division by zero, a shift by the width or more). A function that can
  only panic, or only fail, has the same type: what it never does is then a theorem.
\<close>

datatype ('a, 'e) result = Ok 'a | Err 'e | Panic

fun rbind :: "('a, 'e) result \<Rightarrow> ('a \<Rightarrow> ('b, 'e) result) \<Rightarrow> ('b, 'e) result" where
  "rbind (Ok x) f = f x"
| "rbind (Err e) f = Err e"
| "rbind Panic f = Panic"

fun map_err :: "('e \<Rightarrow> 'f) \<Rightarrow> ('a, 'e) result \<Rightarrow> ('a, 'f) result" where
  "map_err g (Ok x) = Ok x"
| "map_err g (Err e) = Err (g e)"
| "map_err g Panic = Panic"

text \<open>The result of a call into third-party code: an error (\<open>Inl\<close>) or a value, never a panic.\<close>

fun lift_err :: "('f \<Rightarrow> 'e) \<Rightarrow> 'f + 'a \<Rightarrow> ('a, 'e) result" where
  "lift_err g (Inl e) = Err (g e)"
| "lift_err g (Inr x) = Ok x"

text \<open>
  An operation on shared state may change it although it fails: its value is an outcome together
  with the new state, and \<open>op_bind\<close> is the sequence of two operations with Rust's \<open>?\<close> between them.
\<close>

fun op_bind :: "('a, 'e) result \<times> 's \<Rightarrow> ('a \<Rightarrow> 's \<Rightarrow> ('b, 'e) result \<times> 's) \<Rightarrow> ('b, 'e) result \<times> 's" where
  "op_bind (Ok x, s) f = f x s"
| "op_bind (Err e, s) f = (Err e, s)"
| "op_bind (Panic, s) f = (Panic, s)"

fun is_ok :: "('a, 'e) result \<Rightarrow> bool" where
  "is_ok (Ok x) = True"
| "is_ok (Err e) = False"
| "is_ok Panic = False"

definition ensure :: "bool \<Rightarrow> 'e \<Rightarrow> (unit, 'e) result" where
  "ensure b e = (if b then Ok () else Err e)"

text \<open>Indexing and slicing of slices and strings, and the arithmetic that panics.\<close>

definition index_at :: "'a list \<Rightarrow> nat \<Rightarrow> ('a, 'e) result" where
  "index_at xs i = (if i < length xs then Ok (xs ! i) else Panic)"

definition slice :: "'a list \<Rightarrow> nat \<Rightarrow> nat \<Rightarrow> ('a list, 'e) result" where
  "slice xs a b = (if a \<le> b \<and> b \<le> length xs then Ok (take (b - a) (drop a xs)) else Panic)"

definition slice_get :: "'a list \<Rightarrow> nat \<Rightarrow> nat \<Rightarrow> 'a list option" where
  "slice_get xs a b = (if a \<le> b \<and> b \<le> length xs then Some (take (b - a) (drop a xs)) else None)"

definition get_at :: "'a list \<Rightarrow> nat \<Rightarrow> 'a option" where
  "get_at xs i = (if i < length xs then Some (xs ! i) else None)"

definition ok_or :: "'a option \<Rightarrow> 'e \<Rightarrow> ('a, 'e) result" where
  "ok_or x e = (case x of Some v \<Rightarrow> Ok v | None \<Rightarrow> Err e)"

definition rdiv :: "nat \<Rightarrow> nat \<Rightarrow> (nat, 'e) result" where
  "rdiv a b = (if b = 0 then Panic else Ok (a div b))"

definition rmod :: "nat \<Rightarrow> nat \<Rightarrow> (nat, 'e) result" where
  "rmod a b = (if b = 0 then Panic else Ok (a mod b))"

definition shr8 :: "u8 \<Rightarrow> nat \<Rightarrow> (u8, 'e) result" where
  "shr8 x s = (if s < 8 then Ok (drop_bit s x) else Panic)"

definition shl8 :: "u8 \<Rightarrow> nat \<Rightarrow> (u8, 'e) result" where
  "shl8 x s = (if s < 8 then Ok (push_bit s x) else Panic)"

text \<open>\<open>usize\<close> is a natural number below \<open>2 ^ 64\<close>; the operations that saturate say so.\<close>

definition usize_max :: nat where
  "usize_max = 18446744073709551615"

definition sat_add :: "nat \<Rightarrow> nat \<Rightarrow> nat" where
  "sat_add a b = min (a + b) usize_max"

definition sat_mul :: "nat \<Rightarrow> nat \<Rightarrow> nat" where
  "sat_mul a b = min (a * b) usize_max"

definition checked_add :: "nat \<Rightarrow> nat \<Rightarrow> nat option" where
  "checked_add a b = (if a + b \<le> usize_max then Some (a + b) else None)"

definition div_ceil :: "nat \<Rightarrow> nat \<Rightarrow> nat" where
  "div_ceil a b = a div b + (if a mod b > 0 then 1 else 0)"

text \<open>Big-endian bytes of a \<open>u16\<close> (\<open>to_be_bytes\<close>, \<open>from_be_bytes\<close>) and casts to \<open>u8\<close>.\<close>

definition be16 :: "nat \<Rightarrow> bytes" where
  "be16 n = [of_nat (n div 256), of_nat (n mod 256)]"

definition from_be16 :: "u8 \<Rightarrow> u8 \<Rightarrow> nat" where
  "from_be16 a b = unat a * 256 + unat b"

text \<open>\<open>u8::count_ones\<close>, bit by bit.\<close>

definition count_ones :: "u8 \<Rightarrow> nat" where
  "count_ones b = length (filter (bit b) [0..<8])"

text \<open>\<open>slice::chunks\<close>, and the XOR of two byte strings of the same length.\<close>

function chunks :: "nat \<Rightarrow> 'a list \<Rightarrow> 'a list list" where
  "chunks n xs = (if n = 0 \<or> xs = [] then [] else take n xs # chunks n (drop n xs))"
  by auto
termination by (relation "measure (\<lambda>(n, xs). length xs)") auto

declare chunks.simps [simp del]

definition xor_bytes :: "bytes \<Rightarrow> bytes \<Rightarrow> bytes" where
  "xor_bytes a b = map2 (XOR) a b"

lemma rbind_eq_Ok [simp]: "rbind m f = Ok y \<longleftrightarrow> (\<exists>x. m = Ok x \<and> f x = Ok y)"
  by (cases m) auto

lemma rbind_eq_Err: "rbind m f = Err e \<longleftrightarrow> m = Err e \<or> (\<exists>x. m = Ok x \<and> f x = Err e)"
  by (cases m) auto

lemma rbind_eq_Panic: "rbind m f = Panic \<longleftrightarrow> m = Panic \<or> (\<exists>x. m = Ok x \<and> f x = Panic)"
  by (cases m) auto

lemma op_bind_eq_Ok [simp]: "op_bind m f = (Ok y, t) \<longleftrightarrow> (\<exists>x s. m = (Ok x, s) \<and> f x s = (Ok y, t))"
  by (cases m; cases "fst m") auto

lemma op_bindE:
  assumes "op_bind m f = (r, t)"
  obtains (continues) x s where "m = (Ok x, s)" "f x s = (r, t)" | (stops) y where "m = (y, t)"
  using assms by (cases m; cases "fst m") auto

lemma op_bind_state: "snd (op_bind m f) = (case fst m of Ok x \<Rightarrow> snd (f x (snd m)) | _ \<Rightarrow> snd m)"
  by (cases m; cases "fst m") auto

lemma rbind_cong_Ok: "m = m' \<Longrightarrow> (\<And>x. m' = Ok x \<Longrightarrow> f x = g x) \<Longrightarrow> rbind m f = rbind m' g"
  by (cases m') auto

lemma rbind_assoc: "rbind (rbind m f) g = rbind m (\<lambda>x. rbind (f x) g)"
  by (cases m) auto

lemma rbind_cong [fundef_cong]:
  assumes "m = n" and "\<And>x. n = Ok x \<Longrightarrow> f x = g x"
  shows "rbind m f = rbind n g"
  using assms by (cases n) auto

lemma map_err_eq_Ok [simp]: "map_err g m = Ok y \<longleftrightarrow> m = Ok y"
  by (cases m) auto

lemma map_err_eq_Panic [simp]: "map_err g m = Panic \<longleftrightarrow> m = Panic"
  by (cases m) auto

lemma lift_err_eq_Ok [simp]: "lift_err g m = Ok y \<longleftrightarrow> m = Inr y"
  by (cases m) auto

lemma lift_err_not_Panic [simp]: "lift_err g m \<noteq> Panic"
  by (cases m) auto

lemma op_bind_eq_Err: "op_bind m f = (Err e, t) \<longleftrightarrow> m = (Err e, t) \<or> (\<exists>x s. m = (Ok x, s) \<and> f x s = (Err e, t))"
  by (cases m; cases "fst m") auto

lemma lift_err_eq_Err: "lift_err g m = Err e \<longleftrightarrow> (\<exists>x. m = Inl x \<and> e = g x)"
  by (cases m) auto

lemma is_ok_iff: "is_ok m \<longleftrightarrow> (\<exists>x. m = Ok x)"
  by (cases m) auto

lemma ensure_eq_Ok [simp]: "ensure b e = Ok u \<longleftrightarrow> b"
  by (auto simp: ensure_def)

lemma ensure_eq_Err [simp]: "ensure b e = Err e' \<longleftrightarrow> \<not> b \<and> e' = e"
  by (auto simp: ensure_def)

lemma ensure_not_Panic [simp]: "ensure b e \<noteq> Panic"
  by (auto simp: ensure_def)

lemma ensure_True [simp]: "ensure True e = Ok ()"
  by (simp add: ensure_def)

lemma ensure_False [simp]: "ensure False e = Err e"
  by (simp add: ensure_def)

lemma ok_or_simps [simp]:
  "ok_or (Some v) e = Ok v" "ok_or None e = Err e"
  "ok_or x e = Ok v \<longleftrightarrow> x = Some v" "ok_or x e \<noteq> Panic"
  by (auto simp: ok_or_def split: option.splits)

lemma get_at_simps [simp]:
  "get_at (x # xs) 0 = Some x" "get_at (x # xs) (Suc i) = get_at xs i"
  "get_at (x # xs) (numeral k) = get_at xs (pred_numeral k)"
  "get_at (xs @ ys) (length xs + n) = get_at ys n"
  "get_at (xs @ ys) (length xs) = get_at ys 0"
  "get_at (xs @ ys) (Suc (length xs)) = get_at ys 1"
  by (simp_all add: get_at_def numeral_eq_Suc nth_append)

lemma get_at_eq_Some: "get_at xs i = Some x \<longleftrightarrow> i < length xs \<and> x = xs ! i"
  by (auto simp: get_at_def)

lemma slice_get_eq_Some:
  "slice_get xs a b = Some ys \<longleftrightarrow> a \<le> b \<and> b \<le> length xs \<and> ys = take (b - a) (drop a xs)"
  by (auto simp: slice_get_def)

lemma index_at_eq_Ok [simp]: "index_at xs i = Ok x \<longleftrightarrow> i < length xs \<and> x = xs ! i"
  by (auto simp: index_at_def)

lemma index_at_less: "i < length xs \<Longrightarrow> index_at xs i = Ok (xs ! i)"
  by (simp add: index_at_def)

lemma index_at_Cons [simp]:
  "index_at (x # xs) 0 = Ok x" "index_at (x # xs) (Suc i) = index_at xs i"
  "index_at (x # xs) (numeral k) = index_at xs (pred_numeral k)"
  by (simp_all add: index_at_def numeral_eq_Suc)

lemma index_at_plus [simp]:
  "index_at (x # xs) (numeral k + n) = index_at xs (pred_numeral k + n)"
  "index_at (xs @ ys) (length xs + n) = index_at ys n"
  "index_at (xs @ ys) (length xs) = index_at ys 0"
  "index_at (xs @ ys) (Suc (length xs)) = index_at ys 1"
  by (simp_all add: index_at_def numeral_eq_Suc nth_append)

lemma slice_middle: "a = length pre \<Longrightarrow> b = length pre + length d \<Longrightarrow> slice (pre @ d @ post) a b = Ok d"
  by (simp add: slice_def)

lemma index_after: "i = length pre \<Longrightarrow> index_at (pre @ x # post) i = Ok x"
  by (simp add: index_at_def)

lemma slice_Ok: "a \<le> b \<Longrightarrow> b \<le> length xs \<Longrightarrow> slice xs a b = Ok (take (b - a) (drop a xs))"
  by (simp add: slice_def)

lemma slice_eq_Ok: "slice xs a b = Ok ys \<longleftrightarrow> a \<le> b \<and> b \<le> length xs \<and> ys = take (b - a) (drop a xs)"
  by (auto simp: slice_def)

lemma rdiv_pos: "b \<noteq> 0 \<Longrightarrow> rdiv a b = Ok (a div b)"
  by (simp add: rdiv_def)

lemma rmod_pos: "b \<noteq> 0 \<Longrightarrow> rmod a b = Ok (a mod b)"
  by (simp add: rmod_def)

lemma shr8_less: "s < 8 \<Longrightarrow> shr8 x s = Ok (drop_bit s x)"
  by (simp add: shr8_def)

lemma shl8_less: "s < 8 \<Longrightarrow> shl8 x s = Ok (push_bit s x)"
  by (simp add: shl8_def)

lemmas panic_free = index_at_less slice_Ok rdiv_pos rmod_pos shr8_less shl8_less

lemma div_ceil_bounds: "b > 0 \<Longrightarrow> i < a \<Longrightarrow> i div b < div_ceil a b"
proof -
  assume b: "b > 0" and i: "i < a"
  have "i div b \<le> (a - 1) div b" using i by (intro div_le_mono) simp
  moreover have "(a - 1) div b < div_ceil a b"
  proof (cases "a mod b = 0")
    case True
    then obtain q where q: "a = b * q" by auto
    with i have "q > 0" by (cases q) auto
    have "(b * q - 1) div b < q"
      using b \<open>q > 0\<close> by (simp add: div_less_iff_less_mult mult.commute)
    with True q b show ?thesis by (simp add: div_ceil_def)
  next
    case False
    have "(a - 1) div b \<le> a div b" by (rule div_le_mono) simp
    with False show ?thesis by (simp add: div_ceil_def)
  qed
  ultimately show ?thesis by simp
qed

lemma div_ceil_le: "b > 0 \<Longrightarrow> a \<le> b * div_ceil a b"
proof -
  assume b: "b > 0"
  show ?thesis
  proof (cases "a mod b = 0")
    case True
    then show ?thesis by (auto simp: div_ceil_def)
  next
    case False
    have "a = b * (a div b) + a mod b" by (rule mult_div_mod_eq [symmetric])
    moreover have "a mod b < b" using b by (rule mod_less_divisor)
    ultimately have "a \<le> b * (a div b) + b" by linarith
    with False show ?thesis by (simp add: div_ceil_def)
  qed
qed

lemma le_mask_bit:
  fixes v :: "'a::len word"
  assumes "v \<le> mask n" and "bit v k"
  shows "k < n"
proof -
  have "uint v \<le> uint (mask n :: 'a word)" using assms(1) by (simp add: word_le_def)
  also have "uint (mask n :: 'a word) \<le> mask n"
    by transfer (metis take_bit_of_mask min.commute take_bit_int_less_eq_mask)
  also have "\<dots> < (2 :: int) ^ n" by (simp add: mask_eq_exp_minus_1)
  finally have "take_bit n (uint v) = uint v" by (simp add: take_bit_int_eq_self)
  moreover have "bit (uint v) k"
    using assms(2) bit_imp_le_length [OF assms(2)] by (simp add: bit_uint_iff)
  ultimately show ?thesis by (metis bit_take_bit_iff)
qed

lemma from_be16_be16: "n < 65536 \<Longrightarrow> be16 n = [a, b] \<Longrightarrow> from_be16 a b = n"
  by (auto simp: be16_def from_be16_def unat_of_nat take_bit_nat_def)

lemma length_be16 [simp]: "length (be16 n) = 2"
  by (simp add: be16_def)

lemma chunks_Nil [simp]: "chunks n [] = []"
  by (subst chunks.simps) simp

lemma chunks_block: "0 < n \<Longrightarrow> length b = n \<Longrightarrow> chunks n (b @ xs) = b # chunks n xs"
  by (subst chunks.simps) auto

lemma chunks_concat:
  "0 < n \<Longrightarrow> \<forall>b \<in> set bs. length b = n \<Longrightarrow> chunks n (concat bs) = bs"
  by (induction bs) (simp_all add: chunks_block)

lemma concat_chunks: "0 < n \<Longrightarrow> concat (chunks n xs) = xs"
proof (induction n xs rule: chunks.induct)
  case (1 n xs)
  then show ?case by (subst chunks.simps) simp
qed

lemma multiple_length_le: "xs \<noteq> [] \<Longrightarrow> length xs mod n = 0 \<Longrightarrow> n \<le> length xs"
  by (rule ccontr) (simp add: not_le)

lemma chunks_length:
  "0 < n \<Longrightarrow> length xs mod n = 0 \<Longrightarrow> b \<in> set (chunks n xs) \<Longrightarrow> length b = n"
proof (induction n xs rule: chunks.induct)
  case (1 n xs)
  show ?case
  proof (cases "xs = []")
    case False
    then have n: "n \<le> length xs" using 1(3) by (rule multiple_length_le)
    then have "(length xs - n) mod n = 0" using 1(3) by (simp add: le_mod_geq)
    moreover have "b = take n xs \<or> b \<in> set (chunks n (drop n xs))"
      using 1(2,4) False by (subst (asm) chunks.simps) auto
    ultimately show ?thesis using 1(1) [OF _ 1(2)] 1(2) False n by auto
  qed (use 1(4) in simp)
qed

lemma chunks_lengths: "0 < n \<Longrightarrow> b \<in> set (chunks n xs) \<Longrightarrow> b \<noteq> [] \<and> length b \<le> n"
proof (induction n xs rule: chunks.induct)
  case (1 n xs)
  then show ?case by (cases "xs = []") (auto simp: chunks.simps [of n xs])
qed

lemma length_chunks: "0 < n \<Longrightarrow> length (chunks n xs) = div_ceil (length xs) n"
proof (induction n xs rule: chunks.induct)
  case (1 n xs)
  show ?case
  proof (cases "xs = []")
    case False
    have "length (chunks n xs) = Suc (div_ceil (length xs - n) n)" using 1 False by (simp add: chunks.simps [of n xs])
    also have "\<dots> = div_ceil (length xs) n"
    proof (cases "n \<le> length xs")
      case True
      then show ?thesis using 1(2) by (simp add: div_ceil_def le_div_geq le_mod_geq)
    next
      case short: False
      then show ?thesis using 1(2) False by (simp add: div_ceil_def)
    qed
    finally show ?thesis .
  qed (simp add: div_ceil_def)
qed

lemma chunks_append:
  assumes "0 < n" and "length xs mod n = 0"
  shows "chunks n (xs @ ys) = chunks n xs @ chunks n ys"
  using assms
proof (induction n xs rule: chunks.induct)
  case (1 n xs)
  show ?case
  proof (cases "xs = []")
    case False
    then have n: "n \<le> length xs" using 1(3) by (rule multiple_length_le)
    then have m: "length (drop n xs) mod n = 0" using 1(3) by (simp add: le_mod_geq)
    have "chunks n (xs @ ys) = take n xs # chunks n (drop n xs @ ys)"
      using False 1(2) n by (subst chunks.simps) simp
    moreover have "chunks n xs = take n xs # chunks n (drop n xs)"
      using False 1(2) by (subst chunks.simps) simp
    ultimately show ?thesis using 1(1) [OF _ 1(2) m] False 1(2) by simp
  qed simp
qed

lemma xor_bytes_length [simp]: "length (xor_bytes a b) = min (length a) (length b)"
  by (simp add: xor_bytes_def)

lemma xor_bytes_nth: "i < length a \<Longrightarrow> i < length b \<Longrightarrow> xor_bytes a b ! i = a ! i XOR b ! i"
  by (simp add: xor_bytes_def)

lemma xor_bytes_zero [simp]: "length b = n \<Longrightarrow> xor_bytes (replicate n 0) b = b"
  by (intro nth_equalityI) (simp_all add: xor_bytes_nth)

lemma xor_bytes_commute: "xor_bytes a b = xor_bytes b a"
  by (intro nth_equalityI) (auto simp: xor_bytes_nth xor.commute)

lemma xor_bytes_cancel: "length a = length b \<Longrightarrow> xor_bytes a (xor_bytes a b) = b"
  by (intro nth_equalityI) (simp_all add: xor_bytes_nth flip: xor.assoc)

lemma xor_byte_zero: "a XOR b = 0 \<longleftrightarrow> a = (b :: u8)"
proof
  assume "a XOR b = 0"
  then have "a XOR (a XOR b) = a" by simp
  then show "a = b" by (simp flip: xor.assoc)
qed simp

lemma u8_of_nat: "n \<le> 255 \<Longrightarrow> unat (of_nat n :: u8) = n"
  by (simp add: unat_of_nat take_bit_nat_def)

lemma result_OkE:
  assumes "case x of Ok r \<Rightarrow> P r | _ \<Rightarrow> False"
  obtains r where "x = Ok r" "P r"
  using assms by (cases x) auto

end
