(* ===== verification/IndexedStore.thy ===== *)
theory IndexedStore
  imports Prelude
begin

text \<open>
  The interface of a status list towards its clients: a fixed number of entries that are read and
  written by index. \<open>indexed_store\<close> states what a provider promises of one read and one write;
  the lemmas of the locale are what a client may conclude for a whole sequence of writes. Both
  status-list types of \<open>StatusList\<close> are interpretations.
\<close>

primrec apply_writes ::
    "('s \<Rightarrow> nat \<Rightarrow> 'v \<Rightarrow> ('s, 'e) result) \<Rightarrow> 's \<Rightarrow> (nat \<times> 'v) list \<Rightarrow> ('s, 'e) result" where
  "apply_writes put s [] = Ok s"
| "apply_writes put s (w # ws) = rbind (put s (fst w) (snd w)) (\<lambda>s'. apply_writes put s' ws)"

definition last_write :: "(nat \<times> 'v) list \<Rightarrow> nat \<Rightarrow> 'v option" where
  "last_write ws i = map_of (rev ws) i"

lemma last_write_Nil [simp]: "last_write [] i = None"
  by (simp add: last_write_def)

lemma last_write_Cons:
  "last_write (w # ws) i =
     (case last_write ws i of Some v \<Rightarrow> Some v | None \<Rightarrow> if i = fst w then Some (snd w) else None)"
  by (cases w) (auto simp: last_write_def map_add_def split: option.splits)

locale indexed_store =
  fixes inv :: "'s \<Rightarrow> bool"
    and len :: "'s \<Rightarrow> nat"
    and valid :: "'s \<Rightarrow> 'v \<Rightarrow> bool"
    and get :: "'s \<Rightarrow> nat \<Rightarrow> ('v, 'e) result"
    and put :: "'s \<Rightarrow> nat \<Rightarrow> 'v \<Rightarrow> ('s, 'e) result"
  assumes get_in_range: "inv s \<Longrightarrow> i < len s \<Longrightarrow> \<exists>v. get s i = Ok v \<and> valid s v"
    and get_out_of_range: "inv s \<Longrightarrow> \<not> i < len s \<Longrightarrow> \<exists>e. get s i = Err e"
    and put_accepts: "inv s \<Longrightarrow> i < len s \<Longrightarrow> valid s v \<Longrightarrow> \<exists>s'. put s i v = Ok s'"
    and put_rejects: "inv s \<Longrightarrow> \<not> (i < len s \<and> valid s v) \<Longrightarrow> \<exists>e. put s i v = Err e"
    and put_keeps: "inv s \<Longrightarrow> put s i v = Ok s' \<Longrightarrow> inv s' \<and> len s' = len s \<and> valid s' = valid s"
    and get_put: "inv s \<Longrightarrow> put s i v = Ok s' \<Longrightarrow> get s' j = (if j = i then Ok v else get s j)"
begin

lemma get_never_panics: "inv s \<Longrightarrow> get s i \<noteq> Panic"
  using get_in_range get_out_of_range by (metis result.distinct(3) result.distinct(5))

lemma put_never_panics: "inv s \<Longrightarrow> put s i v \<noteq> Panic"
  using put_accepts put_rejects by (metis result.distinct(3) result.distinct(5))

lemma writes_keep:
  "inv s \<Longrightarrow> apply_writes put s ws = Ok s' \<Longrightarrow> inv s' \<and> len s' = len s \<and> valid s' = valid s"
proof (induction ws arbitrary: s)
  case Nil
  then show ?case by simp
next
  case (Cons w ws)
  from Cons.prems obtain t where t: "put s (fst w) (snd w) = Ok t" "apply_writes put t ws = Ok s'"
    by auto
  with Cons.prems(1) have "inv t \<and> len t = len s \<and> valid t = valid s" by (blast dest: put_keeps)
  with Cons.IH [of t] t(2) show ?case by simp
qed

lemma writes_accepted:
  "inv s \<Longrightarrow> \<forall>w \<in> set ws. fst w < len s \<and> valid s (snd w)
     \<Longrightarrow> \<exists>s'. apply_writes put s ws = Ok s'"
proof (induction ws arbitrary: s)
  case Nil
  then show ?case by simp
next
  case (Cons w ws)
  then obtain t where t: "put s (fst w) (snd w) = Ok t" using put_accepts by fastforce
  with Cons.prems(1) have "inv t \<and> len t = len s \<and> valid t = valid s" by (blast dest: put_keeps)
  with Cons.IH [of t] Cons.prems(2) t show ?case by simp
qed

lemma get_after_writes:
  "inv s \<Longrightarrow> apply_writes put s ws = Ok s'
     \<Longrightarrow> get s' i = (case last_write ws i of Some v \<Rightarrow> Ok v | None \<Rightarrow> get s i)"
proof (induction ws arbitrary: s)
  case Nil
  then show ?case by simp
next
  case (Cons w ws)
  from Cons.prems obtain t where t: "put s (fst w) (snd w) = Ok t" "apply_writes put t ws = Ok s'"
    by auto
  with Cons.prems(1) have "inv t" by (blast dest: put_keeps)
  with Cons.IH t(2) have "get s' i = (case last_write ws i of Some v \<Rightarrow> Ok v | None \<Rightarrow> get t i)"
    by blast
  with get_put [OF Cons.prems(1) t(1)] show ?case
    by (auto simp: last_write_Cons split: option.splits)
qed

lemma writes_commute:
  assumes "inv s" and "i \<noteq> j"
    and "apply_writes put s [(i, v), (j, w)] = Ok a" and "apply_writes put s [(j, w), (i, v)] = Ok b"
  shows "get a k = get b k"
  using assms get_after_writes [OF assms(1,3)] get_after_writes [OF assms(1,4)]
  by (auto simp: last_write_Cons split: option.splits)

end

end
