(* ===== verification/StatusList.thy ===== *)
theory StatusList
  imports IndexedStore
begin

text \<open>
  The crate \<open>marty-status\<close> (\<open>marty-status/src/lib.rs\<close>): IETF Token Status Lists (entries of
  1, 2, 4 or 8 bits, least significant bit first, ZLIB) and W3C Bitstring Status Lists (one bit
  per entry, most significant bit first, GZIP and multibase). The compressors and the base64
  engine are third-party code: they are the fields of \<open>codec_env\<close>, an argument of the
  operations that call them.
\<close>

subsection \<open>Errors, lists and the external codecs\<close>

definition MAX_STATUS_LIST_ENTRIES :: nat where
  "MAX_STATUS_LIST_ENTRIES = 16777216"

definition W3C_MIN_STATUS_LIST_BITS :: nat where
  "W3C_MIN_STATUS_LIST_BITS = 131072"

datatype StatusListError =
    SizeLimit nat nat
  | InvalidBits
  | IndexOutOfRange nat nat
  | StatusOutOfRange u8 u8 u8
  | EncodedSizeLimit
  | InvalidBase64 string
  | InvalidMultibase
  | InvalidCompression string
  | DecodedLength nat nat
  | PrivacyFloor nat
  | InvalidSubject

record TokenStatusList =
  ts_bits :: u8
  ts_data :: bytes
  ts_size :: nat

record BitstringStatusList =
  bs_data :: bytes
  bs_size :: nat

text \<open>
  A decoder is a stream: the bytes it produces and, if it does not reach the end of its input
  cleanly, the error it then reports.
\<close>

record codec_env =
  zlib_encode :: "bytes \<Rightarrow> string + bytes"
  zlib_decode :: "bytes \<Rightarrow> bytes \<times> string option"
  gz_encode :: "bytes \<Rightarrow> string + bytes"
  gz_decode :: "bytes \<Rightarrow> bytes \<times> string option"
  b64url_encode :: "bytes \<Rightarrow> string"
  b64url_decode :: "string \<Rightarrow> string + bytes"

subsection \<open>Validation helpers\<close>

definition validate_size :: "nat \<Rightarrow> (unit, StatusListError) result" where
  "validate_size sz =
     ensure (\<not> sz > MAX_STATUS_LIST_ENTRIES) (SizeLimit sz MAX_STATUS_LIST_ENTRIES)"

definition validate_bits :: "u8 \<Rightarrow> (unit, StatusListError) result" where
  "validate_bits bits = ensure (bits = 1 \<or> bits = 2 \<or> bits = 4 \<or> bits = 8) InvalidBits"

definition token_byte_len :: "nat \<Rightarrow> u8 \<Rightarrow> (nat, StatusListError) result" where
  "token_byte_len sz bits =
     rbind (rdiv 8 (unat bits)) (\<lambda>entries.
       if entries = 0 then Panic else Ok (div_ceil sz entries))"

definition bitstring_byte_len :: "nat \<Rightarrow> nat" where
  "bitstring_byte_len sz = div_ceil sz 8"

definition validate_encoded_len :: "nat \<Rightarrow> nat \<Rightarrow> (unit, StatusListError) result" where
  "validate_encoded_len encoded_len expected_bytes =
     (let max_compressed = sat_add (sat_mul expected_bytes 2) 1024;
          max_encoded = sat_mul (div_ceil max_compressed 3) 4
      in ensure (\<not> encoded_len > max_encoded) EncodedSizeLimit)"

text \<open>
  \<open>reader.take(limit).read_to_end(..)\<close>: at most \<open>limit\<close> bytes are read, and an error the
  stream would report after them is never seen.
\<close>

definition read_take :: "nat \<Rightarrow> bytes \<times> string option \<Rightarrow> (bytes, StatusListError) result" where
  "read_take limit stream =
     (if limit \<le> length (fst stream) then Ok (take limit (fst stream))
      else case snd stream of None \<Rightarrow> Ok (fst stream) | Some e \<Rightarrow> Err (InvalidCompression e))"

definition read_exact_bounded ::
    "bytes \<times> string option \<Rightarrow> nat \<Rightarrow> (bytes, StatusListError) result" where
  "read_exact_bounded reader expected =
     rbind (read_take (sat_add expected 1) reader) (\<lambda>output.
     rbind (ensure (length output = expected) (DecodedLength (length output) expected)) (\<lambda>_.
     Ok output))"

subsection \<open>Token status lists\<close>

definition ts_new :: "nat \<Rightarrow> u8 \<Rightarrow> (TokenStatusList, StatusListError) result" where
  "ts_new sz bits =
     rbind (validate_size sz) (\<lambda>_.
     rbind (validate_bits bits) (\<lambda>_.
     rbind (token_byte_len sz bits) (\<lambda>n.
     Ok \<lparr>ts_bits = bits, ts_data = replicate n 0, ts_size = sz\<rparr>)))"

definition ts_from_bytes :: "bytes \<Rightarrow> nat \<Rightarrow> u8 \<Rightarrow> (TokenStatusList, StatusListError) result" where
  "ts_from_bytes data sz bits =
     rbind (validate_size sz) (\<lambda>_.
     rbind (validate_bits bits) (\<lambda>_.
     rbind (token_byte_len sz bits) (\<lambda>expected.
     rbind (ensure (length data = expected) (DecodedLength (length data) expected)) (\<lambda>_.
     Ok \<lparr>ts_bits = bits, ts_data = data, ts_size = sz\<rparr>))))"

definition ts_mask :: "TokenStatusList \<Rightarrow> u8" where
  "ts_mask l = ucast ((push_bit (unat (ts_bits l)) 1 :: u16) - 1)"

definition ts_validate_index :: "TokenStatusList \<Rightarrow> nat \<Rightarrow> (unit, StatusListError) result" where
  "ts_validate_index l index =
     ensure (\<not> index \<ge> ts_size l) (IndexOutOfRange index (ts_size l))"

definition ts_get :: "TokenStatusList \<Rightarrow> nat \<Rightarrow> (u8, StatusListError) result" where
  "ts_get l index =
     rbind (ts_validate_index l index) (\<lambda>_.
     rbind (rdiv 8 (unat (ts_bits l))) (\<lambda>entries_per_byte.
     rbind (rdiv index entries_per_byte) (\<lambda>byte_index.
     rbind (rmod index entries_per_byte) (\<lambda>r.
     let shift = r * unat (ts_bits l) in
     rbind (index_at (ts_data l) byte_index) (\<lambda>b.
     rbind (shr8 b shift) (\<lambda>v.
     Ok (v AND ts_mask l)))))))"

definition ts_set :: "TokenStatusList \<Rightarrow> nat \<Rightarrow> u8 \<Rightarrow> (TokenStatusList, StatusListError) result" where
  "ts_set l index status =
     rbind (ts_validate_index l index) (\<lambda>_.
     let mask = ts_mask l in
     rbind (ensure (\<not> status > mask) (StatusOutOfRange status (ts_bits l) mask)) (\<lambda>_.
     rbind (rdiv 8 (unat (ts_bits l))) (\<lambda>entries_per_byte.
     rbind (rdiv index entries_per_byte) (\<lambda>byte_index.
     rbind (rmod index entries_per_byte) (\<lambda>r.
     let shift = r * unat (ts_bits l) in
     rbind (index_at (ts_data l) byte_index) (\<lambda>b.
     rbind (shl8 mask shift) (\<lambda>m.
     rbind (shl8 status shift) (\<lambda>v.
     Ok (l\<lparr>ts_data := (ts_data l)[byte_index := (b AND NOT m) OR v]\<rparr>)))))))))"

definition ts_is_revoked :: "TokenStatusList \<Rightarrow> nat \<Rightarrow> (bool, StatusListError) result" where
  "ts_is_revoked l index = rbind (ts_get l index) (\<lambda>v. Ok (v \<noteq> 0))"

definition ts_revoke :: "TokenStatusList \<Rightarrow> nat \<Rightarrow> (TokenStatusList, StatusListError) result" where
  "ts_revoke l index = ts_set l index 1"

definition ts_reinstate :: "TokenStatusList \<Rightarrow> nat \<Rightarrow> (TokenStatusList, StatusListError) result" where
  "ts_reinstate l index = ts_set l index 0"

definition ts_compress :: "codec_env \<Rightarrow> TokenStatusList \<Rightarrow> (bytes, StatusListError) result" where
  "ts_compress env l = lift_err InvalidCompression (zlib_encode env (ts_data l))"

definition ts_to_base64url :: "codec_env \<Rightarrow> TokenStatusList \<Rightarrow> (string, StatusListError) result" where
  "ts_to_base64url env l = rbind (ts_compress env l) (\<lambda>c. Ok (b64url_encode env c))"

definition ts_from_compressed ::
    "codec_env \<Rightarrow> bytes \<Rightarrow> nat \<Rightarrow> u8 \<Rightarrow> (TokenStatusList, StatusListError) result" where
  "ts_from_compressed env data sz bits =
     rbind (validate_size sz) (\<lambda>_.
     rbind (validate_bits bits) (\<lambda>_.
     rbind (token_byte_len sz bits) (\<lambda>expected.
     rbind (read_exact_bounded (zlib_decode env data) expected) (\<lambda>decoded.
     ts_from_bytes decoded sz bits))))"

definition ts_from_base64url ::
    "codec_env \<Rightarrow> string \<Rightarrow> nat \<Rightarrow> u8 \<Rightarrow> (TokenStatusList, StatusListError) result" where
  "ts_from_base64url env encoded sz bits =
     rbind (validate_size sz) (\<lambda>_.
     rbind (validate_bits bits) (\<lambda>_.
     rbind (token_byte_len sz bits) (\<lambda>n.
     rbind (validate_encoded_len (length encoded) n) (\<lambda>_.
     rbind (lift_err InvalidBase64 (b64url_decode env encoded)) (\<lambda>compressed.
     ts_from_compressed env compressed sz bits)))))"

record TokenStatusListClaim =
  tc_bits :: u8
  tc_list :: string

definition ts_claim :: "codec_env \<Rightarrow> TokenStatusList \<Rightarrow> (TokenStatusListClaim, StatusListError) result" where
  "ts_claim env l =
     rbind (ts_to_base64url env l) (\<lambda>s. Ok \<lparr>tc_bits = ts_bits l, tc_list = s\<rparr>)"

subsection \<open>Bitstring status lists\<close>

definition bs_new :: "nat \<Rightarrow> (BitstringStatusList, StatusListError) result" where
  "bs_new sz =
     rbind (validate_size sz) (\<lambda>_.
     Ok \<lparr>bs_data = replicate (bitstring_byte_len sz) 0, bs_size = sz\<rparr>)"

definition bs_from_bytes :: "bytes \<Rightarrow> nat \<Rightarrow> (BitstringStatusList, StatusListError) result" where
  "bs_from_bytes data sz =
     rbind (validate_size sz) (\<lambda>_.
     let expected = bitstring_byte_len sz in
     rbind (ensure (length data = expected) (DecodedLength (length data) expected)) (\<lambda>_.
     Ok \<lparr>bs_data = data, bs_size = sz\<rparr>))"

definition bs_validate_index :: "BitstringStatusList \<Rightarrow> nat \<Rightarrow> (unit, StatusListError) result" where
  "bs_validate_index l index =
     ensure (\<not> index \<ge> bs_size l) (IndexOutOfRange index (bs_size l))"

definition bs_get :: "BitstringStatusList \<Rightarrow> nat \<Rightarrow> (bool, StatusListError) result" where
  "bs_get l index =
     rbind (bs_validate_index l index) (\<lambda>_.
     let byte_index = index div 8; shift = 7 - index mod 8 in
     rbind (index_at (bs_data l) byte_index) (\<lambda>b.
     rbind (shr8 b shift) (\<lambda>v.
     Ok (v AND 1 = 1))))"

definition bs_set :: "BitstringStatusList \<Rightarrow> nat \<Rightarrow> bool \<Rightarrow> (BitstringStatusList, StatusListError) result" where
  "bs_set l index revoked =
     rbind (bs_validate_index l index) (\<lambda>_.
     let byte_index = index div 8; shift = 7 - index mod 8 in
     rbind (index_at (bs_data l) byte_index) (\<lambda>b.
     rbind (shl8 1 shift) (\<lambda>m.
     Ok (l\<lparr>bs_data := (bs_data l)[byte_index := (if revoked then b OR m else b AND NOT m)]\<rparr>))))"

definition bs_is_revoked :: "BitstringStatusList \<Rightarrow> nat \<Rightarrow> (bool, StatusListError) result" where
  "bs_is_revoked l index = bs_get l index"

definition bs_revoke :: "BitstringStatusList \<Rightarrow> nat \<Rightarrow> (BitstringStatusList, StatusListError) result" where
  "bs_revoke l index = bs_set l index True"

definition bs_reinstate :: "BitstringStatusList \<Rightarrow> nat \<Rightarrow> (BitstringStatusList, StatusListError) result" where
  "bs_reinstate l index = bs_set l index False"

definition bs_count_revoked :: "BitstringStatusList \<Rightarrow> nat" where
  "bs_count_revoked l = sum_list (map count_ones (bs_data l))"

definition bs_compress :: "codec_env \<Rightarrow> BitstringStatusList \<Rightarrow> (bytes, StatusListError) result" where
  "bs_compress env l = lift_err InvalidCompression (gz_encode env (bs_data l))"

definition bs_to_base64url :: "codec_env \<Rightarrow> BitstringStatusList \<Rightarrow> (string, StatusListError) result" where
  "bs_to_base64url env l = rbind (bs_compress env l) (\<lambda>c. Ok (''u'' @ b64url_encode env c))"

definition bs_from_compressed ::
    "codec_env \<Rightarrow> bytes \<Rightarrow> nat \<Rightarrow> (BitstringStatusList, StatusListError) result" where
  "bs_from_compressed env data sz =
     rbind (validate_size sz) (\<lambda>_.
     let expected = bitstring_byte_len sz in
     rbind (read_exact_bounded (gz_decode env data) expected) (\<lambda>decoded.
     bs_from_bytes decoded sz))"

definition strip_multibase :: "string \<Rightarrow> (string, StatusListError) result" where
  "strip_multibase encoded =
     (case encoded of [] \<Rightarrow> Err InvalidMultibase
      | c # cs \<Rightarrow> if c = CHR ''u'' then Ok cs else Err InvalidMultibase)"

definition bs_from_base64url ::
    "codec_env \<Rightarrow> string \<Rightarrow> nat \<Rightarrow> (BitstringStatusList, StatusListError) result" where
  "bs_from_base64url env encoded sz =
     rbind (validate_size sz) (\<lambda>_.
     rbind (strip_multibase encoded) (\<lambda>payload.
     rbind (validate_encoded_len (length payload) (bitstring_byte_len sz)) (\<lambda>_.
     rbind (lift_err InvalidBase64 (b64url_decode env payload)) (\<lambda>compressed.
     bs_from_compressed env compressed sz))))"

definition bs_from_base64url_bounded ::
    "codec_env \<Rightarrow> string \<Rightarrow> (BitstringStatusList, StatusListError) result" where
  "bs_from_base64url_bounded env encoded =
     rbind (strip_multibase encoded) (\<lambda>payload.
     let maximum_bytes = bitstring_byte_len MAX_STATUS_LIST_ENTRIES in
     rbind (validate_encoded_len (length payload) maximum_bytes) (\<lambda>_.
     rbind (lift_err InvalidBase64 (b64url_decode env payload)) (\<lambda>compressed.
     rbind (read_take (sat_add maximum_bytes 1) (gz_decode env compressed)) (\<lambda>data.
     rbind (ensure (\<not> length data > maximum_bytes)
              (SizeLimit (sat_mul (length data) 8) MAX_STATUS_LIST_ENTRIES)) (\<lambda>_.
     let sz = sat_mul (length data) 8 in
     rbind (ensure (\<not> sz < W3C_MIN_STATUS_LIST_BITS)
              (PrivacyFloor W3C_MIN_STATUS_LIST_BITS)) (\<lambda>_.
     bs_from_bytes data sz))))))"

record BitstringStatusListCredentialSubject =
  cs_id :: string
  cs_type :: string
  cs_purpose :: string
  cs_encoded_list :: string

definition bs_credential_subject ::
    "codec_env \<Rightarrow> BitstringStatusList \<Rightarrow> string \<Rightarrow> string
       \<Rightarrow> (BitstringStatusListCredentialSubject, StatusListError) result" where
  "bs_credential_subject env l subject_id status_purpose =
     rbind (ensure (\<not> bs_size l < W3C_MIN_STATUS_LIST_BITS)
              (PrivacyFloor W3C_MIN_STATUS_LIST_BITS)) (\<lambda>_.
     rbind (ensure (\<not> (subject_id = [] \<or> status_purpose = [])) InvalidSubject) (\<lambda>_.
     rbind (bs_to_base64url env l) (\<lambda>s.
     Ok \<lparr>cs_id = subject_id, cs_type = ''BitstringStatusList'', cs_purpose = status_purpose,
         cs_encoded_list = s\<rparr>)))"

subsection \<open>Invariants and abstract views\<close>

text \<open>
  What every constructor establishes: a legal entry width, a bounded size and exactly the bytes
  the entries need. \<open>ts_entry\<close> and \<open>bs_entry\<close> are the entries as the formats define them.
\<close>

definition ts_inv :: "TokenStatusList \<Rightarrow> bool" where
  "ts_inv l \<longleftrightarrow> ts_bits l \<in> {1, 2, 4, 8} \<and> ts_size l \<le> MAX_STATUS_LIST_ENTRIES
     \<and> length (ts_data l) = div_ceil (ts_size l) (8 div unat (ts_bits l))"

definition bs_inv :: "BitstringStatusList \<Rightarrow> bool" where
  "bs_inv l \<longleftrightarrow> bs_size l \<le> MAX_STATUS_LIST_ENTRIES
     \<and> length (bs_data l) = div_ceil (bs_size l) 8"

definition stream_bit :: "bytes \<Rightarrow> nat \<Rightarrow> bool" where
  "stream_bit data p \<longleftrightarrow> bit (data ! (p div 8)) (p mod 8)"

definition ts_entry :: "TokenStatusList \<Rightarrow> nat \<Rightarrow> u8" where
  "ts_entry l i =
     (let b = unat (ts_bits l); e = 8 div b
      in drop_bit ((i mod e) * b) (ts_data l ! (i div e)) AND mask b)"

definition bs_entry :: "BitstringStatusList \<Rightarrow> nat \<Rightarrow> bool" where
  "bs_entry l i \<longleftrightarrow> bit (bs_data l ! (i div 8)) (7 - i mod 8)"

definition ts_abs :: "TokenStatusList \<Rightarrow> u8 list" where
  "ts_abs l = map (ts_entry l) [0..<ts_size l]"

definition bs_abs :: "BitstringStatusList \<Rightarrow> bool list" where
  "bs_abs l = map (bs_entry l) [0..<bs_size l]"

definition bs_padding_clear :: "BitstringStatusList \<Rightarrow> bool" where
  "bs_padding_clear l \<longleftrightarrow> (\<forall>i \<in> {bs_size l..<8 * length (bs_data l)}. \<not> bs_entry l i)"

text \<open>What the external codecs document: decoding inverts encoding, and output sizes are bounded.\<close>

definition flate_ok :: "(bytes \<Rightarrow> string + bytes) \<Rightarrow> (bytes \<Rightarrow> bytes \<times> string option) \<Rightarrow> bool" where
  "flate_ok enc dec \<longleftrightarrow>
     (\<forall>d. \<exists>c. enc d = Inr c \<and> dec c = (d, None) \<and> length c \<le> 2 * length d + 1024)"

definition b64_ok :: "codec_env \<Rightarrow> bool" where
  "b64_ok env \<longleftrightarrow>
     (\<forall>d. b64url_decode env (b64url_encode env d) = Inr d
        \<and> length (b64url_encode env d) = (4 * length d + 2) div 3)"

subsection \<open>Bytes, masks and slots\<close>

lemma ts_bits_cases:
  assumes "ts_inv l"
  obtains "ts_bits l = 1" | "ts_bits l = 2" | "ts_bits l = 4" | "ts_bits l = 8"
  using assms by (auto simp: ts_inv_def)

lemma ts_mask_eq: "ts_inv l \<Longrightarrow> ts_mask l = mask (unat (ts_bits l))"
  by (erule ts_bits_cases) (simp_all add: ts_mask_def mask_eq_exp_minus_1)

lemma ts_slots:
  assumes "ts_inv l"
  shows "unat (ts_bits l) * (8 div unat (ts_bits l)) = 8" and "0 < unat (ts_bits l)"
    and "0 < 8 div unat (ts_bits l)" and "unat (ts_bits l) \<le> 8"
  using assms by (cases rule: ts_bits_cases; simp)+

lemma slot_shift:
  assumes "b * e = (8::nat)"
  shows "(i mod e) * b + b \<le> 8"
proof -
  have e: "e > 0" using assms by (cases e) auto
  have "i mod e + 1 \<le> e" using e mod_less_divisor [of e i] by linarith
  then have "(i mod e + 1) * b \<le> e * b" by (rule mult_le_mono1)
  with assms show ?thesis by (simp add: algebra_simps)
qed

lemma slot_position:
  assumes "b * e = (8::nat)" and "k < b"
  shows "(i * b + k) div 8 = i div e" and "(i * b + k) mod 8 = (i mod e) * b + k"
proof -
  have "(q * e + r) * b + k = (b * e) * q + (r * b + k)" for q r by (simp add: algebra_simps)
  from this [of "i div e" "i mod e"] assms(1) have eq: "i * b + k = 8 * (i div e) + ((i mod e) * b + k)" by simp
  have lt: "(i mod e) * b + k < 8" using slot_shift [OF assms(1), of i] assms(2) by simp
  show "(i * b + k) div 8 = i div e" unfolding eq using lt by simp
  show "(i * b + k) mod 8 = (i mod e) * b + k" unfolding eq using lt by simp
qed

lemma slot_block_less: "(k::nat) < b \<Longrightarrow> y * b + k < x * b + b \<longleftrightarrow> y \<le> x"
proof
  assume k: "k < b" and "y * b + k < x * b + b"
  then have "y * b < (x + 1) * b" by simp
  then have "y < x + 1" using mult_less_cancel2 by blast
  then show "y \<le> x" by simp
next
  assume k: "k < b" and "y \<le> x"
  then have "y * b \<le> x * b" by simp
  with k show "y * b + k < x * b + b" by linarith
qed

lemma slot_block_le: "(k::nat) < b \<Longrightarrow> x * b \<le> y * b + k \<longleftrightarrow> x \<le> y"
proof
  assume k: "k < b" and "x * b \<le> y * b + k"
  then have "x * b < (y + 1) * b" by simp
  then have "x < y + 1" using mult_less_cancel2 by blast
  then show "x \<le> y" by simp
next
  assume "x \<le> y"
  then have "x * b \<le> y * b" by simp
  then show "x * b \<le> y * b + k" by linarith
qed

lemma ts_index_bounds:
  assumes "ts_inv l" and "i < ts_size l"
  shows "i div (8 div unat (ts_bits l)) < length (ts_data l)"
  using assms ts_slots [OF assms(1)] div_ceil_bounds by (simp add: ts_inv_def)

lemma bs_index_bounds: "bs_inv l \<Longrightarrow> i < bs_size l \<Longrightarrow> i div 8 < length (bs_data l)"
  by (simp add: bs_inv_def div_ceil_bounds)

lemma bit_put_slot:
  fixes b v :: u8
  assumes "s + n \<le> 8" and "v \<le> mask n"
  shows "bit ((b AND NOT (push_bit s (mask n))) OR push_bit s v) p
           \<longleftrightarrow> (if s \<le> p \<and> p < s + n then bit v (p - s) else bit b p)"
proof -
  have hi: "\<not> bit v k" if "n \<le> k" for k
    using le_mask_bit [OF assms(2)] that by (meson not_le)
  show ?thesis
  proof (cases "p < 8")
    case True
    have "\<not> bit v (p - s)" if "\<not> p < s + n" using hi that by simp
    with True show ?thesis using assms(1) by (auto simp: bit_simps)
  next
    case False
    then have "\<not> bit w p" for w :: u8 by (auto dest: bit_imp_le_length)
    with False assms(1) show ?thesis by simp
  qed
qed

lemma bit_ts_entry:
  assumes "ts_inv l"
  shows "bit (ts_entry l i) k \<longleftrightarrow>
           k < unat (ts_bits l) \<and> stream_bit (ts_data l) (i * unat (ts_bits l) + k)"
proof (cases "k < unat (ts_bits l)")
  case True
  note slots = ts_slots(1) [OF assms]
  have "(i mod (8 div unat (ts_bits l))) * unat (ts_bits l) + k < 8"
    using slot_shift [OF slots, of i] True by simp
  with True show ?thesis
    by (auto simp: ts_entry_def Let_def stream_bit_def slot_position [OF slots True] bit_simps)
next
  case False
  then show ?thesis by (auto simp: ts_entry_def Let_def bit_simps)
qed

subsection \<open>Reading and writing one token entry\<close>

lemma ts_get_eq:
  assumes "ts_inv l"
  shows "ts_get l i = (if i < ts_size l then Ok (ts_entry l i) else Err (IndexOutOfRange i (ts_size l)))"
proof (cases "i < ts_size l")
  case True
  note s = ts_slots [OF assms]
  have "(i mod (8 div unat (ts_bits l))) * unat (ts_bits l) < 8"
    using slot_shift [OF s(1), of i] s(2) by linarith
  with True s ts_index_bounds [OF assms True] show ?thesis
    by (simp add: ts_get_def ts_validate_index_def panic_free ts_entry_def Let_def ts_mask_eq [OF assms])
next
  case False
  then show ?thesis by (simp add: ts_get_def ts_validate_index_def)
qed

definition ts_put :: "TokenStatusList \<Rightarrow> nat \<Rightarrow> u8 \<Rightarrow> TokenStatusList" where
  "ts_put l i v =
     (let b = unat (ts_bits l); e = 8 div b; s = (i mod e) * b
      in l\<lparr>ts_data := (ts_data l)[i div e :=
             (ts_data l ! (i div e) AND NOT (push_bit s (mask b))) OR push_bit s v]\<rparr>)"

lemma ts_set_eq:
  assumes "ts_inv l"
  shows "ts_set l i v =
           (if \<not> i < ts_size l then Err (IndexOutOfRange i (ts_size l))
            else if \<not> v \<le> mask (unat (ts_bits l))
            then Err (StatusOutOfRange v (ts_bits l) (mask (unat (ts_bits l))))
            else Ok (ts_put l i v))"
proof (cases "i < ts_size l \<and> v \<le> mask (unat (ts_bits l))")
  case True
  then have i: "i < ts_size l" by simp
  note s = ts_slots [OF assms]
  have "(i mod (8 div unat (ts_bits l))) * unat (ts_bits l) < 8"
    using slot_shift [OF s(1), of i] s(2) by linarith
  with True s ts_index_bounds [OF assms i] show ?thesis
    by (simp add: ts_set_def ts_validate_index_def panic_free ts_put_def Let_def
        ts_mask_eq [OF assms] not_less)
next
  case False
  then show ?thesis
    by (auto simp: ts_set_def ts_validate_index_def Let_def ts_mask_eq [OF assms] ensure_def)
qed

lemma ts_put_inv:
  "ts_inv l \<Longrightarrow> ts_inv (ts_put l i v) \<and> ts_size (ts_put l i v) = ts_size l
     \<and> ts_bits (ts_put l i v) = ts_bits l"
  by (simp add: ts_inv_def ts_put_def Let_def)

lemma stream_bit_ts_put:
  assumes "ts_inv l" and "i < ts_size l" and "v \<le> mask (unat (ts_bits l))" and "k < unat (ts_bits l)"
  shows "stream_bit (ts_data (ts_put l i v)) (j * unat (ts_bits l) + k) \<longleftrightarrow>
           (if j = i then bit v k else stream_bit (ts_data l) (j * unat (ts_bits l) + k))"
proof -
  let ?b = "unat (ts_bits l)" and ?e = "8 div unat (ts_bits l)"
  note slots = ts_slots [OF assms(1)]
  note pos = slot_position [OF slots(1) assms(4)]
  note upd = bit_put_slot [OF slot_shift [OF slots(1), of i] assms(3)]
  have same: "(i mod ?e) * ?b \<le> (j mod ?e) * ?b + k \<and> (j mod ?e) * ?b + k < (i mod ?e) * ?b + ?b
                \<longleftrightarrow> i mod ?e = j mod ?e"
  proof -
    have "(j mod ?e) * ?b + k < (i mod ?e) * ?b + ?b \<longleftrightarrow> j mod ?e \<le> i mod ?e"
      using assms(4) slot_block_less by blast
    moreover have "(i mod ?e) * ?b \<le> (j mod ?e) * ?b + k \<longleftrightarrow> i mod ?e \<le> j mod ?e"
      using assms(4) slot_block_le by blast
    ultimately show ?thesis by auto
  qed
  have eq: "j div ?e = i div ?e \<and> j mod ?e = i mod ?e \<longleftrightarrow> j = i"
    by (metis div_mult_mod_eq)
  show ?thesis
  proof (cases "j div ?e = i div ?e")
    case True
    have "stream_bit (ts_data (ts_put l i v)) (j * ?b + k) \<longleftrightarrow>
            (if i mod ?e = j mod ?e then bit v ((j mod ?e) * ?b + k - (i mod ?e) * ?b)
             else bit (ts_data l ! (i div ?e)) ((j mod ?e) * ?b + k))"
      using ts_index_bounds [OF assms(1,2)] True
      by (simp only: stream_bit_def pos) (simp add: ts_put_def Let_def upd same)
    with True eq show ?thesis by (auto simp: stream_bit_def pos)
  next
    case False
    then have "j \<noteq> i" by auto
    with False show ?thesis by (simp add: stream_bit_def pos ts_put_def Let_def)
  qed
qed

lemma ts_entry_put:
  assumes "ts_inv l" and "i < ts_size l" and "v \<le> mask (unat (ts_bits l))"
  shows "ts_entry (ts_put l i v) j = (if j = i then v else ts_entry l j)"
proof (rule bit_eqI)
  fix k
  have inv: "ts_inv (ts_put l i v)" "ts_bits (ts_put l i v) = ts_bits l"
    using ts_put_inv [OF assms(1)] by auto
  show "bit (ts_entry (ts_put l i v) j) k = bit (if j = i then v else ts_entry l j) k"
    using stream_bit_ts_put [OF assms, of k j] le_mask_bit [OF assms(3), of k]
    by (auto simp: bit_ts_entry [OF inv(1)] bit_ts_entry [OF assms(1)] inv(2))
qed

lemma ts_entry_le_mask: "ts_entry l i \<le> mask (unat (ts_bits l))"
  by (simp add: ts_entry_def Let_def word_and_le1)

interpretation token_store: indexed_store ts_inv ts_size "\<lambda>l v. v \<le> mask (unat (ts_bits l))" ts_get ts_set
proof
  fix l :: TokenStatusList and l' i j v
  assume inv: "ts_inv l"
  show "i < ts_size l \<Longrightarrow> \<exists>v. ts_get l i = Ok v \<and> v \<le> mask (unat (ts_bits l))"
    by (simp add: ts_get_eq [OF inv] ts_entry_le_mask)
  show "\<not> i < ts_size l \<Longrightarrow> \<exists>e. ts_get l i = Err e"
    by (simp add: ts_get_eq [OF inv])
  show "i < ts_size l \<Longrightarrow> v \<le> mask (unat (ts_bits l)) \<Longrightarrow> \<exists>s'. ts_set l i v = Ok s'"
    by (simp add: ts_set_eq [OF inv])
  show "\<not> (i < ts_size l \<and> v \<le> mask (unat (ts_bits l))) \<Longrightarrow> \<exists>e. ts_set l i v = Err e"
    by (auto simp: ts_set_eq [OF inv])
  assume "ts_set l i v = Ok l'"
  then have put: "l' = ts_put l i v" "i < ts_size l" "v \<le> mask (unat (ts_bits l))"
    by (auto simp: ts_set_eq [OF inv] split: if_splits)
  show "ts_inv l' \<and> ts_size l' = ts_size l \<and>
          (\<lambda>v. v \<le> mask (unat (ts_bits l'))) = (\<lambda>v. v \<le> mask (unat (ts_bits l)))"
    using ts_put_inv [OF inv] put(1) by simp
  show "ts_get l' j = (if j = i then Ok v else ts_get l j)"
    using ts_put_inv [OF inv, of i v] put
    by (auto simp: ts_get_eq [OF inv] ts_get_eq ts_entry_put [OF inv put(2,3)])
qed

subsection \<open>Reading and writing one bitstring entry\<close>

lemma bs_get_eq:
  assumes "bs_inv l"
  shows "bs_get l i = (if i < bs_size l then Ok (bs_entry l i) else Err (IndexOutOfRange i (bs_size l)))"
  using bs_index_bounds [OF assms, of i]
  by (auto simp: bs_get_def bs_validate_index_def Let_def panic_free bs_entry_def
      bit_iff_and_drop_bit_eq_1)

definition bs_put :: "BitstringStatusList \<Rightarrow> nat \<Rightarrow> bool \<Rightarrow> BitstringStatusList" where
  "bs_put l i v =
     l\<lparr>bs_data := (bs_data l)[i div 8 :=
         (if v then bs_data l ! (i div 8) OR push_bit (7 - i mod 8) 1
          else bs_data l ! (i div 8) AND NOT (push_bit (7 - i mod 8) 1))]\<rparr>"

lemma bs_set_eq:
  assumes "bs_inv l"
  shows "bs_set l i v =
           (if i < bs_size l then Ok (bs_put l i v) else Err (IndexOutOfRange i (bs_size l)))"
  using bs_index_bounds [OF assms, of i]
  by (auto simp: bs_set_def bs_validate_index_def Let_def panic_free bs_put_def)

lemma bs_put_inv:
  "bs_inv l \<Longrightarrow> bs_inv (bs_put l i v) \<and> bs_size (bs_put l i v) = bs_size l
     \<and> length (bs_data (bs_put l i v)) = length (bs_data l)"
  by (simp add: bs_inv_def bs_put_def)

lemma bs_entry_put:
  assumes "bs_inv l" and "i < bs_size l"
  shows "bs_entry (bs_put l i v) j = (if j = i then v else bs_entry l j)"
proof (cases "j div 8 = i div 8")
  case True
  then have "j = i \<longleftrightarrow> 7 - j mod 8 = 7 - i mod 8"
    using mod_less_divisor [of 8 i] mod_less_divisor [of 8 j] div_mult_mod_eq [of i 8]
      div_mult_mod_eq [of j 8] by linarith
  with True bs_index_bounds [OF assms] show ?thesis
    by (auto simp: bs_entry_def bs_put_def bit_simps)
next
  case False
  then show ?thesis by (auto simp: bs_entry_def bs_put_def)
qed

interpretation bit_store: indexed_store bs_inv bs_size "\<lambda>l v. True" bs_get bs_set
proof
  fix l :: BitstringStatusList and l' i j v
  assume inv: "bs_inv l"
  show "i < bs_size l \<Longrightarrow> \<exists>v. bs_get l i = Ok v \<and> True"
    by (simp add: bs_get_eq [OF inv])
  show "\<not> i < bs_size l \<Longrightarrow> \<exists>e. bs_get l i = Err e"
    by (simp add: bs_get_eq [OF inv])
  show "i < bs_size l \<Longrightarrow> True \<Longrightarrow> \<exists>s'. bs_set l i v = Ok s'"
    by (simp add: bs_set_eq [OF inv])
  show "\<not> (i < bs_size l \<and> True) \<Longrightarrow> \<exists>e. bs_set l i v = Err e"
    by (simp add: bs_set_eq [OF inv])
  assume "bs_set l i v = Ok l'"
  then have put: "l' = bs_put l i v" "i < bs_size l"
    by (auto simp: bs_set_eq [OF inv] split: if_splits)
  show "bs_inv l' \<and> bs_size l' = bs_size l \<and> (\<lambda>v. True) = (\<lambda>v. True)"
    using bs_put_inv [OF inv] put(1) by simp
  show "bs_get l' j = (if j = i then Ok v else bs_get l j)"
    using bs_put_inv [OF inv, of i v] put
    by (auto simp: bs_get_eq [OF inv] bs_get_eq bs_entry_put [OF inv put(2)])
qed

subsection \<open>Constructors, counting and the wire format\<close>

lemma token_byte_len_eq:
  "bits \<in> {1, 2, 4, 8} \<Longrightarrow> token_byte_len n bits = Ok (div_ceil n (8 div unat bits))"
  by (auto simp: token_byte_len_def rdiv_def)

lemma validate_bits_Ok [simp]: "validate_bits bits = Ok u \<longleftrightarrow> bits \<in> {1, 2, 4, 8}"
  by (auto simp: validate_bits_def)

lemma validate_size_Ok [simp]: "validate_size n = Ok u \<longleftrightarrow> n \<le> MAX_STATUS_LIST_ENTRIES"
  by (auto simp: validate_size_def not_less)

lemma ts_from_bytes_Ok:
  "ts_from_bytes d n b = Ok l \<longleftrightarrow> l = \<lparr>ts_bits = b, ts_data = d, ts_size = n\<rparr> \<and> ts_inv l"
  by (auto simp: ts_from_bytes_def ts_inv_def token_byte_len_eq)

lemma bs_from_bytes_Ok:
  "bs_from_bytes d n = Ok l \<longleftrightarrow> l = \<lparr>bs_data = d, bs_size = n\<rparr> \<and> bs_inv l"
  by (auto simp: bs_from_bytes_def bs_inv_def bitstring_byte_len_def Let_def)

lemma ts_new_Ok:
  "ts_new n b = Ok l \<Longrightarrow> ts_inv l \<and> ts_size l = n \<and> ts_bits l = b \<and> (\<forall>i < n. ts_get l i = Ok 0)"
proof -
  assume "ts_new n b = Ok l"
  then have l: "l = \<lparr>ts_bits = b, ts_data = replicate (div_ceil n (8 div unat b)) 0, ts_size = n\<rparr>"
    and inv: "ts_inv l"
    by (auto simp: ts_new_def ts_inv_def token_byte_len_eq)
  have "ts_entry l i = 0" if "i < n" for i
    using ts_index_bounds [OF inv, of i] that by (simp add: l ts_entry_def Let_def)
  moreover have "ts_size l = n" "ts_bits l = b" by (simp_all add: l)
  ultimately show ?thesis using inv by (simp add: ts_get_eq)
qed

lemma bs_new_Ok:
  "bs_new n = Ok l \<Longrightarrow> bs_inv l \<and> bs_size l = n \<and> bs_padding_clear l \<and> (\<forall>i < n. bs_get l i = Ok False)"
proof -
  assume "bs_new n = Ok l"
  then have l: "l = \<lparr>bs_data = replicate (div_ceil n 8) 0, bs_size = n\<rparr>" and inv: "bs_inv l"
    by (auto simp: bs_new_def bs_inv_def bitstring_byte_len_def)
  have n: "bs_size l = n" by (simp add: l)
  have "\<not> bs_entry l i" if "i < 8 * length (bs_data l)" for i
    using that by (auto simp: l bs_entry_def)
  moreover have "i < 8 * length (bs_data l)" if "i < n" for i
    using bs_index_bounds [OF inv, of i] that n by auto
  ultimately show ?thesis using inv n by (simp add: bs_get_eq bs_padding_clear_def)
qed

lemma length_filter_sum: "length (filter P xs) = (\<Sum>x\<leftarrow>xs. of_bool (P x))"
  by (induction xs) auto

lemma count_ones_msb: "length (filter (\<lambda>k. bit b (7 - k)) [0..<8]) = count_ones b"
proof -
  have "[0..<8] = [0, 1, 2, 3, 4, 5, 6, 7 :: nat]" by code_simp
  then show ?thesis by (simp add: count_ones_def length_filter_sum)
qed

lemma count_entries:
  "sum_list (map count_ones d) =
     length (filter (\<lambda>i. bit (d ! (i div 8)) (7 - i mod 8)) [0..<8 * length d])"
proof (induction d rule: rev_induct)
  case Nil
  then show ?case by simp
next
  case (snoc b d)
  let ?n = "length d"
  have split: "[0..<8 * length (d @ [b])] = [0..<8 * ?n] @ map (\<lambda>k. k + 8 * ?n) [0..<8]"
    using upt_add_eq_append [of 0 "8 * ?n" 8] map_add_upt [of "8 * ?n" 8] by (simp add: add.commute)
  have low: "filter (\<lambda>i. bit ((d @ [b]) ! (i div 8)) (7 - i mod 8)) [0..<8 * ?n]
               = filter (\<lambda>i. bit (d ! (i div 8)) (7 - i mod 8)) [0..<8 * ?n]"
    by (rule filter_cong) (auto simp: nth_append less_mult_imp_div_less mult.commute)
  have high: "filter ((\<lambda>i. bit ((d @ [b]) ! (i div 8)) (7 - i mod 8)) \<circ> (\<lambda>k. k + 8 * ?n)) [0..<8]
               = filter (\<lambda>k. bit b (7 - k)) [0..<8]"
    by (rule filter_cong) auto
  show ?case
    unfolding split filter_append filter_map low high
    using snoc.IH count_ones_msb [of b] by simp
qed

lemma bs_count_revoked_eq:
  assumes "bs_inv l" and "bs_padding_clear l"
  shows "bs_count_revoked l = length (filter (bs_entry l) [0..<bs_size l])"
proof -
  have le: "bs_size l \<le> 8 * length (bs_data l)"
    using assms(1) div_ceil_le [of 8 "bs_size l"] by (simp add: bs_inv_def)
  have "bs_count_revoked l = length (filter (bs_entry l) [0..<8 * length (bs_data l)])"
    unfolding bs_count_revoked_def count_entries by (simp add: bs_entry_def [abs_def])
  also have "[0..<8 * length (bs_data l)] = [0..<bs_size l] @ [bs_size l..<8 * length (bs_data l)]"
    using le by (metis le_add_diff_inverse upt_add_eq_append zero_le)
  finally show ?thesis using assms(2) by (simp add: bs_padding_clear_def)
qed

lemma writes_ts_bits: "ts_inv l \<Longrightarrow> apply_writes ts_set l ws = Ok l' \<Longrightarrow> ts_bits l' = ts_bits l"
proof (induction ws arbitrary: l)
  case Nil
  then show ?case by simp
next
  case (Cons w ws)
  then obtain t where t: "ts_set l (fst w) (snd w) = Ok t" "apply_writes ts_set t ws = Ok l'" by auto
  then have "ts_inv t" "ts_bits t = ts_bits l"
    using ts_put_inv [OF Cons.prems(1)] by (auto simp: ts_set_eq [OF Cons.prems(1)] split: if_splits)
  with Cons.IH t(2) show ?case by simp
qed

lemma bs_put_padding_clear:
  "bs_inv l \<Longrightarrow> i < bs_size l \<Longrightarrow> bs_padding_clear l \<Longrightarrow> bs_padding_clear (bs_put l i v)"
  using bs_put_inv [of l i v] by (auto simp: bs_padding_clear_def bs_entry_put)

lemma writes_padding_clear:
  "bs_inv l \<Longrightarrow> bs_padding_clear l \<Longrightarrow> apply_writes bs_set l ws = Ok l' \<Longrightarrow> bs_padding_clear l'"
proof (induction ws arbitrary: l)
  case Nil
  then show ?case by simp
next
  case (Cons w ws)
  then obtain t where t: "bs_set l (fst w) (snd w) = Ok t" "apply_writes bs_set t ws = Ok l'" by auto
  then have "bs_inv t" "bs_padding_clear t"
    using bs_put_inv [OF Cons.prems(1)] bs_put_padding_clear [OF Cons.prems(1) _ Cons.prems(2)]
    by (auto simp: bs_set_eq [OF Cons.prems(1)] split: if_splits)
  with Cons.IH t(2) show ?case by blast
qed

lemma bs_from_bytes_not_Panic [simp]: "bs_from_bytes d n \<noteq> Panic"
  by (simp add: bs_from_bytes_def validate_size_def Let_def rbind_eq_Panic)

lemma strip_multibase_not_Panic [simp]: "strip_multibase s \<noteq> Panic"
  by (simp add: strip_multibase_def split: list.splits)

lemma validate_encoded_len_not_Panic [simp]: "validate_encoded_len n m \<noteq> Panic"
  by (simp add: validate_encoded_len_def Let_def)

lemma max_bitstring_bytes: "bitstring_byte_len MAX_STATUS_LIST_ENTRIES = 2097152"
  by (simp add: bitstring_byte_len_def div_ceil_def MAX_STATUS_LIST_ENTRIES_def)

lemma read_take_le: "read_take limit st = Ok out \<Longrightarrow> length out \<le> limit"
  by (auto simp: read_take_def split: if_splits option.splits)

lemma read_take_not_Panic [simp]: "read_take limit st \<noteq> Panic"
  by (simp add: read_take_def split: option.splits)

lemma read_take_all: "length d < limit \<Longrightarrow> read_take limit (d, None) = Ok d"
  by (simp add: read_take_def)

lemma read_exact_bounded_Ok: "read_exact_bounded st n = Ok out \<Longrightarrow> length out = n"
  by (auto simp: read_exact_bounded_def)

lemma read_exact_bounded_not_Panic [simp]: "read_exact_bounded st n \<noteq> Panic"
  by (simp add: read_exact_bounded_def rbind_eq_Panic)

lemma read_exact_bounded_all:
  "length d \<le> MAX_STATUS_LIST_ENTRIES \<Longrightarrow> read_exact_bounded (d, None) (length d) = Ok d"
  by (simp add: read_exact_bounded_def read_take_all sat_add_def usize_max_def MAX_STATUS_LIST_ENTRIES_def)

lemma validate_encoded_len_b64:
  assumes "c \<le> 2 * n + 1024" and "n \<le> MAX_STATUS_LIST_ENTRIES"
  shows "validate_encoded_len ((4 * c + 2) div 3) n = Ok ()"
proof -
  have "2 * n + 1024 \<le> 3 * div_ceil (2 * n + 1024) 3" by (rule div_ceil_le) simp
  with assms(1) have "(4 * c + 2) div 3 \<le> 4 * div_ceil (2 * n + 1024) 3" by linarith
  moreover have "div_ceil (2 * n + 1024) 3 * 4 \<le> usize_max"
  proof -
    have "div_ceil (2 * n + 1024) 3 \<le> (2 * n + 1024) div 3 + 1" by (simp add: div_ceil_def)
    moreover have "(2 * n + 1024) div 3 \<le> 2 * n + 1024" by (rule div_le_dividend)
    ultimately show ?thesis using assms(2)
      unfolding usize_max_def MAX_STATUS_LIST_ENTRIES_def by linarith
  qed
  moreover have "2 * n + 1024 \<le> usize_max"
    using assms(2) by (simp add: usize_max_def MAX_STATUS_LIST_ENTRIES_def)
  ultimately show ?thesis
    by (simp add: validate_encoded_len_def Let_def sat_add_def sat_mul_def mult.commute min_def)
qed

lemma div_ceil_le_self: "b > 0 \<Longrightarrow> div_ceil n b \<le> n"
proof -
  assume b: "b > 0"
  show ?thesis
  proof (cases "n mod b = 0")
    case True
    then show ?thesis by (simp add: div_ceil_def)
  next
    case False
    then have n: "n \<noteq> 0" by (metis mod_0)
    have "b \<noteq> 1" using False by (metis mod_by_1 One_nat_def)
    with b n have "n div b < n" by (intro div_less_dividend) auto
    with False show ?thesis by (simp add: div_ceil_def)
  qed
qed

lemma ts_data_bound: "ts_inv l \<Longrightarrow> length (ts_data l) \<le> MAX_STATUS_LIST_ENTRIES"
  using ts_slots(3) [of l] div_ceil_le_self [of "8 div unat (ts_bits l)" "ts_size l"]
  by (simp add: ts_inv_def)

lemma bs_data_bound: "bs_inv l \<Longrightarrow> length (bs_data l) \<le> MAX_STATUS_LIST_ENTRIES"
  using div_ceil_le_self [of 8 "bs_size l"] by (simp add: bs_inv_def)

lemma ts_roundtrip:
  assumes "flate_ok (zlib_encode env) (zlib_decode env)" and "b64_ok env" and inv: "ts_inv l"
  obtains s where "ts_to_base64url env l = Ok s"
    and "ts_from_base64url env s (ts_size l) (ts_bits l) = Ok l"
proof -
  from assms(1) obtain c where c: "zlib_encode env (ts_data l) = Inr c"
    "zlib_decode env c = (ts_data l, None)" "length c \<le> 2 * length (ts_data l) + 1024"
    unfolding flate_ok_def by blast
  have len: "token_byte_len (ts_size l) (ts_bits l) = Ok (length (ts_data l))"
    using inv by (simp add: ts_inv_def token_byte_len_eq)
  have v: "validate_encoded_len ((4 * length c + 2) div 3) (length (ts_data l)) = Ok ()"
    using c(3) ts_data_bound [OF inv] by (rule validate_encoded_len_b64)
  have "ts_from_bytes (ts_data l) (ts_size l) (ts_bits l) = Ok l"
    using inv by (simp add: ts_from_bytes_Ok)
  moreover have "ts_size l \<le> MAX_STATUS_LIST_ENTRIES" "ts_bits l \<in> {1, 2, 4, 8}"
    using inv by (simp_all add: ts_inv_def)
  ultimately have "ts_from_base64url env (b64url_encode env c) (ts_size l) (ts_bits l) = Ok l"
    using len v c(2) assms(2)
    by (simp add: ts_from_base64url_def ts_from_compressed_def b64_ok_def
        read_exact_bounded_all [OF ts_data_bound [OF inv]])
  with c(1) that show thesis by (simp add: ts_to_base64url_def ts_compress_def)
qed

lemma bs_encode:
  assumes "flate_ok (gz_encode env) (gz_decode env)" and "b64_ok env"
  obtains c where "bs_to_base64url env l = Ok (CHR ''u'' # b64url_encode env c)"
    and "b64url_decode env (b64url_encode env c) = Inr c" and "gz_decode env c = (bs_data l, None)"
    and "length (b64url_encode env c) = (4 * length c + 2) div 3"
    and "length c \<le> 2 * length (bs_data l) + 1024"
proof -
  from assms(1) obtain c where c: "gz_encode env (bs_data l) = Inr c"
    "gz_decode env c = (bs_data l, None)" "length c \<le> 2 * length (bs_data l) + 1024"
    unfolding flate_ok_def by blast
  with assms(2) that show thesis by (simp add: b64_ok_def bs_to_base64url_def bs_compress_def)
qed

lemma bs_roundtrip:
  assumes "flate_ok (gz_encode env) (gz_decode env)" and "b64_ok env" and inv: "bs_inv l"
  obtains s where "bs_to_base64url env l = Ok s" and "bs_from_base64url env s (bs_size l) = Ok l"
proof -
  from bs_encode [OF assms(1,2), of l] obtain c where
    c: "bs_to_base64url env l = Ok (CHR ''u'' # b64url_encode env c)"
    "b64url_decode env (b64url_encode env c) = Inr c" "gz_decode env c = (bs_data l, None)"
    "length (b64url_encode env c) = (4 * length c + 2) div 3"
    "length c \<le> 2 * length (bs_data l) + 1024" by blast
  have v: "validate_encoded_len (length (b64url_encode env c)) (length (bs_data l)) = Ok ()"
    unfolding c(4) using c(5) bs_data_bound [OF inv] by (rule validate_encoded_len_b64)
  have "bs_from_bytes (bs_data l) (bs_size l) = Ok l" using inv by (simp add: bs_from_bytes_Ok)
  moreover have "bitstring_byte_len (bs_size l) = length (bs_data l)" "bs_size l \<le> MAX_STATUS_LIST_ENTRIES"
    using inv by (simp_all add: bs_inv_def bitstring_byte_len_def)
  ultimately have "bs_from_base64url env (CHR ''u'' # b64url_encode env c) (bs_size l) = Ok l"
    using v c(2,3)
    by (simp add: bs_from_base64url_def bs_from_compressed_def strip_multibase_def Let_def
        read_exact_bounded_all [OF bs_data_bound [OF inv]])
  with c(1) that show thesis by blast
qed

lemma bs_bounded_roundtrip:
  assumes "flate_ok (gz_encode env) (gz_decode env)" and "b64_ok env" and inv: "bs_inv l"
    and "W3C_MIN_STATUS_LIST_BITS \<le> bs_size l" and dvd: "8 dvd bs_size l"
  obtains s where "bs_to_base64url env l = Ok s" and "bs_from_base64url_bounded env s = Ok l"
proof -
  from bs_encode [OF assms(1,2), of l] obtain c where
    c: "bs_to_base64url env l = Ok (CHR ''u'' # b64url_encode env c)"
    "b64url_decode env (b64url_encode env c) = Inr c" "gz_decode env c = (bs_data l, None)"
    "length (b64url_encode env c) = (4 * length c + 2) div 3"
    "length c \<le> 2 * length (bs_data l) + 1024" by blast
  have n: "bs_size l = 8 * length (bs_data l)" "length (bs_data l) \<le> 2097152"
    using inv dvd by (auto simp: bs_inv_def div_ceil_def MAX_STATUS_LIST_ENTRIES_def)
  have m: "bitstring_byte_len MAX_STATUS_LIST_ENTRIES = 2097152"
    by (simp add: bitstring_byte_len_def div_ceil_def MAX_STATUS_LIST_ENTRIES_def)
  have v: "validate_encoded_len ((4 * length c + 2) div 3) 2097152 = Ok ()"
    by (rule validate_encoded_len_b64) (use c(5) n(2) in \<open>auto simp: MAX_STATUS_LIST_ENTRIES_def\<close>)
  have "bs_from_bytes (bs_data l) (8 * length (bs_data l)) = Ok l"
    using inv n(1) by (simp add: bs_from_bytes_Ok)
  with v c n m assms(4) have "bs_from_base64url_bounded env (CHR ''u'' # b64url_encode env c) = Ok l"
    by (simp add: bs_from_base64url_bounded_def strip_multibase_def Let_def read_take_all sat_add_def
        sat_mul_def usize_max_def mult.commute)
  with c(1) that show thesis by blast
qed

text \<open>
  Without clear padding the count is not the number of revoked entries: the constructors that
  take bytes accept any value in the unused bits of the last byte, and those bits are counted.
\<close>

lemma count_revoked_counts_padding:
  "bs_from_bytes [0xFF] 1 = Ok \<lparr>bs_data = [0xFF], bs_size = 1\<rparr>
   \<and> bs_count_revoked \<lparr>bs_data = [0xFF], bs_size = 1\<rparr> = 8"
  by (simp add: bs_from_bytes_Ok bs_inv_def div_ceil_def MAX_STATUS_LIST_ENTRIES_def) code_simp

subsection \<open>An instance of the codecs\<close>

text \<open>
  Stored (uncompressed) streams and a text code with the length of unpadded base64 meet what is
  required of the codecs; the witnesses below evaluate the model with them.
\<close>

definition stored_env :: codec_env where
  "stored_env =
     \<lparr>zlib_encode = Inr, zlib_decode = (\<lambda>c. (c, None)), gz_encode = Inr, gz_decode = (\<lambda>c. (c, None)),
      b64url_encode = (\<lambda>d. map (\<lambda>w. char_of (unat w)) d @ replicate ((length d + 2) div 3) CHR ''-''),
      b64url_decode = (\<lambda>s. Inr (map (\<lambda>c. of_nat (of_char c)) (take (3 * length s div 4) s)))\<rparr>"

lemma stored_env_ok:
  "flate_ok (zlib_encode stored_env) (zlib_decode stored_env)"
  "flate_ok (gz_encode stored_env) (gz_decode stored_env)"
  "b64_ok stored_env"
proof -
  have len: "n + (n + 2) div 3 = (4 * n + 2) div 3" "3 * (n + (n + 2) div 3) div 4 = n" for n :: nat
    by presburger+
  have byte: "unat w mod 256 = unat w" for w :: u8
    using unsigned_less [of w, where ?'a = nat] by simp
  show "flate_ok (zlib_encode stored_env) (zlib_decode stored_env)"
    "flate_ok (gz_encode stored_env) (gz_decode stored_env)" "b64_ok stored_env"
    by (simp_all add: flate_ok_def b64_ok_def stored_env_def len byte comp_def del: add_2_eq_Suc add_2_eq_Suc')
qed

lemma sample_bits:
  "bs_new 15 = Ok \<lparr>bs_data = [0, 0], bs_size = 15\<rparr>"
  "apply_writes bs_set \<lparr>bs_data = [0, 0], bs_size = 15\<rparr> [(0, True), (1, True), (14, True), (0, False)]
     = Ok \<lparr>bs_data = [0x40, 0x02], bs_size = 15\<rparr>"
  by (simp_all add: bs_new_def validate_size_def MAX_STATUS_LIST_ENTRIES_def bitstring_byte_len_def
      div_ceil_def numeral_2_eq_2 bs_set_def bs_validate_index_def index_at_def shl8_def)

lemma sample_tokens:
  "ts_inv \<lparr>ts_bits = 2, ts_data = [0x00, 0x08], ts_size = 8\<rparr>"
  "ts_get \<lparr>ts_bits = 2, ts_data = [0x00, 0x08], ts_size = 8\<rparr> 5 = Ok 2"
  "ts_abs \<lparr>ts_bits = 2, ts_data = [0x00, 0x08], ts_size = 8\<rparr> = [0, 0, 0, 0, 0, 2, 0, 0]"
  by (simp add: ts_inv_def MAX_STATUS_LIST_ENTRIES_def div_ceil_def, code_simp, code_simp)

lemma sample_writes:
  "ts_new 8 2 = Ok \<lparr>ts_bits = 2, ts_data = [0, 0], ts_size = 8\<rparr>"
  "apply_writes ts_set \<lparr>ts_bits = 2, ts_data = [0, 0], ts_size = 8\<rparr> [(5, 1), (0, 3), (5, 2), (0, 0)]
     = Ok \<lparr>ts_bits = 2, ts_data = [0x00, 0x08], ts_size = 8\<rparr>"
proof -
  have "replicate 2 0 = [0, 0 :: u8]" by (simp add: numeral_2_eq_2)
  then show "ts_new 8 2 = Ok \<lparr>ts_bits = 2, ts_data = [0, 0], ts_size = 8\<rparr>"
    by (simp add: ts_new_def validate_size_def MAX_STATUS_LIST_ENTRIES_def token_byte_len_eq div_ceil_def)
qed code_simp

subsection \<open>Properties\<close>

text \<open>
  C30: Token status lists survive the wire. Whatever sequence of accepted writes is applied to a
  fresh list of \<open>n\<close> entries of \<open>b\<close> bits, encoding the result and decoding it with the same
  parameters returns the very list, and every entry then reads as its last written status (0 if
  it was never written). The compressor and base64 hypotheses are their documented round trip and
  output size.
\<close>

theorem token_writes_survive_encoding:
  assumes "flate_ok (zlib_encode env) (zlib_decode env)" and "b64_ok env"
    and "ts_new n b = Ok fresh" and "apply_writes ts_set fresh ws = Ok l"
  shows "\<exists>s l'. ts_to_base64url env l = Ok s \<and> ts_from_base64url env s n b = Ok l' \<and> l' = l
           \<and> (\<forall>i < n. ts_get l' i = Ok (case last_write ws i of Some v \<Rightarrow> v | None \<Rightarrow> 0))"
proof -
  have fresh: "ts_inv fresh" "ts_size fresh = n" "ts_bits fresh = b" "\<forall>i < n. ts_get fresh i = Ok 0"
    using ts_new_Ok [OF assms(3)] by auto
  have l: "ts_inv l" "ts_size l = n"
    using token_store.writes_keep [OF fresh(1) assms(4)] fresh(2) by auto
  have "ts_bits l = b" using writes_ts_bits [OF fresh(1) assms(4)] fresh(3) by simp
  with ts_roundtrip [OF assms(1,2) l(1)] l(2) obtain s where
    "ts_to_base64url env l = Ok s" "ts_from_base64url env s n b = Ok l" by metis
  moreover have "ts_get l i = Ok (case last_write ws i of Some v \<Rightarrow> v | None \<Rightarrow> 0)" if "i < n" for i
    using token_store.get_after_writes [OF fresh(1) assms(4), of i] fresh(4) that
    by (simp split: option.splits)
  ultimately show ?thesis by blast
qed

theorem token_writes_survive_encoding_witness:
  "\<exists>s l'. ts_to_base64url stored_env \<lparr>ts_bits = 2, ts_data = [0x00, 0x08], ts_size = 8\<rparr> = Ok s
     \<and> ts_from_base64url stored_env s 8 2 = Ok l' \<and> ts_get l' 5 = Ok 2 \<and> ts_get l' 0 = Ok 0"
  using token_writes_survive_encoding [OF stored_env_ok(1,3),
      of 8 2 "\<lparr>ts_bits = 2, ts_data = [0, 0], ts_size = 8\<rparr>" "[(5, 1), (0, 3), (5, 2), (0, 0)]"
         "\<lparr>ts_bits = 2, ts_data = [0x00, 0x08], ts_size = 8\<rparr>", OF sample_writes]
  by (elim exE conjE) (rule exI, rule exI, intro conjI, assumption, assumption, simp_all add: last_write_def)

text \<open>
  C31: A write to a token status list refines the update of one element of the abstract list of
  statuses: an accepted write changes exactly the addressed entry and keeps the representation
  invariant; a rejected write is an index outside the list or a status that does not fit the
  entry width, reported as such; and the call never panics.
\<close>

theorem token_set_refines_update:
  assumes "ts_inv l"
  shows "case ts_set l i v of
           Ok l' \<Rightarrow> i < length (ts_abs l) \<and> ts_inv l' \<and> ts_abs l' = (ts_abs l)[i := v]
         | Err e \<Rightarrow> (\<not> i < length (ts_abs l) \<and> e = IndexOutOfRange i (ts_size l))
             \<or> (\<not> unat v < 2 ^ unat (ts_bits l) \<and> e = StatusOutOfRange v (ts_bits l) (ts_mask l))
         | Panic \<Rightarrow> False"
proof (cases "i < ts_size l \<and> v \<le> mask (unat (ts_bits l))")
  case True
  then have "ts_set l i v = Ok (ts_put l i v)" by (simp add: ts_set_eq [OF assms])
  moreover have "ts_abs (ts_put l i v) = (ts_abs l)[i := v]"
    using ts_put_inv [OF assms, of i v] True
    by (intro nth_equalityI) (auto simp: ts_abs_def ts_entry_put [OF assms] nth_list_update)
  ultimately show ?thesis using True ts_put_inv [OF assms, of i v] by (simp add: ts_abs_def)
next
  case False
  have "unat v \<ge> 2 ^ unat (ts_bits l)" if "\<not> v \<le> mask (unat (ts_bits l))"
    using assms that
    by (cases rule: ts_bits_cases [consumes 1])
      (use unsigned_less [of v, where ?'a = nat] in \<open>auto simp: not_le mask_eq_exp_minus_1 word_less_nat_alt\<close>)
  with False show ?thesis
    by (auto simp: ts_set_eq [OF assms] ts_abs_def ts_mask_eq [OF assms] split: if_splits)
qed

theorem token_set_refines_update_witness:
  "ts_set \<lparr>ts_bits = 2, ts_data = [0x00, 0x08], ts_size = 8\<rparr> 8 1 = Err (IndexOutOfRange 8 8)
   \<and> ts_abs \<lparr>ts_bits = 2, ts_data = [0x00, 0x08], ts_size = 8\<rparr> = [0, 0, 0, 0, 0, 2, 0, 0]"
proof -
  have "ts_set \<lparr>ts_bits = 2, ts_data = [0x00, 0x08], ts_size = 8\<rparr> 8 1 = Err (IndexOutOfRange 8 8)"
    using token_set_refines_update [OF sample_tokens(1), of 8 1] by (simp add: sample_tokens(3) split: result.splits)
  then show ?thesis by (simp add: sample_tokens(3))
qed

text \<open>
  Token entries are packed least significant bit first, as the IETF format requires: bit \<open>k\<close>
  of entry \<open>i\<close> is bit \<open>i * bits + k\<close> of the byte string read as one little-endian bit stream.
\<close>

theorem token_layout_lsb_first:
  assumes "ts_inv l" and "ts_get l i = Ok v"
  shows "bit v k \<longleftrightarrow>
           k < unat (ts_bits l)
           \<and> bit (ts_data l ! ((i * unat (ts_bits l) + k) div 8)) ((i * unat (ts_bits l) + k) mod 8)"
  using assms bit_ts_entry [OF assms(1)]
  by (auto simp: ts_get_eq stream_bit_def split: if_splits)

theorem token_layout_lsb_first_witness:
  "bit (0x2 :: u8) 1 \<longleftrightarrow> 1 < unat (2 :: u8)
     \<and> bit ([0x00, 0x08] ! ((5 * unat (2 :: u8) + 1) div 8) :: u8) ((5 * unat (2 :: u8) + 1) mod 8)"
  using token_layout_lsb_first [of "\<lparr>ts_bits = 2, ts_data = [0x00, 0x08], ts_size = 8\<rparr>" 5 2 1, OF sample_tokens(1,2)]
  by (simp only: TokenStatusList.select_convs)

text \<open>
  C32: Bitstring entries are packed most significant bit first, and survive the wire: any accepted
  writes to a fresh bitstring list leave a list whose entry \<open>i\<close> is bit \<open>7 - i mod 8\<close> of byte
  \<open>i div 8\<close> and reads as the last value written, and encoding then decoding returns that list.
\<close>

theorem bitstring_writes_survive_encoding:
  assumes "flate_ok (gz_encode env) (gz_decode env)" and "b64_ok env"
    and "bs_new n = Ok fresh" and "apply_writes bs_set fresh ws = Ok l"
  shows "\<exists>s l'. bs_to_base64url env l = Ok s \<and> bs_from_base64url env s n = Ok l' \<and> l' = l
           \<and> (\<forall>i < n. bs_get l' i = Ok (bit (bs_data l' ! (i div 8)) (7 - i mod 8))
                \<and> bs_get l' i = Ok (case last_write ws i of Some v \<Rightarrow> v | None \<Rightarrow> False))"
proof -
  have fresh: "bs_inv fresh" "bs_size fresh = n" "\<forall>i < n. bs_get fresh i = Ok False"
    using bs_new_Ok [OF assms(3)] by auto
  have l: "bs_inv l" "bs_size l = n"
    using bit_store.writes_keep [OF fresh(1) assms(4)] fresh(2) by auto
  with bs_roundtrip [OF assms(1,2) l(1)] obtain s where
    "bs_to_base64url env l = Ok s" "bs_from_base64url env s n = Ok l" by metis
  moreover have "bs_get l i = Ok (case last_write ws i of Some v \<Rightarrow> v | None \<Rightarrow> False)" if "i < n" for i
    using bit_store.get_after_writes [OF fresh(1) assms(4), of i] fresh(3) that
    by (simp split: option.splits)
  moreover have "bs_get l i = Ok (bit (bs_data l ! (i div 8)) (7 - i mod 8))" if "i < n" for i
    using that l by (simp add: bs_get_eq bs_entry_def)
  ultimately show ?thesis by blast
qed

theorem bitstring_writes_survive_encoding_witness:
  "\<exists>s l'. bs_to_base64url stored_env \<lparr>bs_data = [0x40, 0x02], bs_size = 15\<rparr> = Ok s
     \<and> bs_from_base64url stored_env s 15 = Ok l' \<and> bs_get l' 14 = Ok True \<and> bs_get l' 0 = Ok False"
  using bitstring_writes_survive_encoding [OF stored_env_ok(2,3),
      of 15 "\<lparr>bs_data = [0, 0], bs_size = 15\<rparr>" "[(0, True), (1, True), (14, True), (0, False)]"
         "\<lparr>bs_data = [0x40, 0x02], bs_size = 15\<rparr>", OF sample_bits]
  by (elim exE conjE) (rule exI, rule exI, intro conjI, assumption, assumption,
      simp_all add: last_write_def)

text \<open>
  C33: The decoder that has no advertised size is bounded and enforces the privacy floor: whatever
  the encoded text and the decompressor do, it never panics, and a list it accepts is well formed,
  of whole bytes, with between 131072 and 16777216 entries.
\<close>

theorem bounded_decoder_safe:
  "bs_from_base64url_bounded env encoded \<noteq> Panic
   \<and> (bs_from_base64url_bounded env encoded = Ok l \<longrightarrow>
        bs_inv l \<and> bs_size l = 8 * length (bs_data l)
        \<and> W3C_MIN_STATUS_LIST_BITS \<le> bs_size l \<and> bs_size l \<le> MAX_STATUS_LIST_ENTRIES)"
proof -
  have "bs_from_base64url_bounded env encoded \<noteq> Panic"
    by (simp add: bs_from_base64url_bounded_def Let_def rbind_eq_Panic)
  moreover have "bs_inv l \<and> bs_size l = 8 * length (bs_data l)
        \<and> W3C_MIN_STATUS_LIST_BITS \<le> bs_size l \<and> bs_size l \<le> MAX_STATUS_LIST_ENTRIES"
    if ok: "bs_from_base64url_bounded env encoded = Ok l"
  proof -
    from ok obtain d where d: "length d \<le> bitstring_byte_len MAX_STATUS_LIST_ENTRIES"
      "W3C_MIN_STATUS_LIST_BITS \<le> sat_mul (length d) 8" "bs_from_bytes d (sat_mul (length d) 8) = Ok l"
      by (auto simp: bs_from_base64url_bounded_def Let_def not_less)
    have "sat_mul (length d) 8 = 8 * length d"
      using d(1) max_bitstring_bytes by (simp add: sat_mul_def usize_max_def)
    with d show ?thesis by (auto simp: bs_from_bytes_Ok bs_inv_def)
  qed
  ultimately show ?thesis by blast
qed

theorem bounded_decoder_safe_witness:
  "bs_from_base64url_bounded (stored_env\<lparr>gz_decode := \<lambda>_. (replicate 16384 0, None)\<rparr>) ''uAA''
     = Ok \<lparr>bs_data = replicate 16384 0, bs_size = 131072\<rparr>
   \<and> bs_inv \<lparr>bs_data = replicate 16384 0, bs_size = 131072\<rparr>"
proof -
  have "bs_from_base64url_bounded (stored_env\<lparr>gz_decode := \<lambda>_. (replicate 16384 0, None)\<rparr>) ''uAA''
     = Ok \<lparr>bs_data = replicate 16384 0, bs_size = 131072\<rparr>"
    by (simp add: bs_from_base64url_bounded_def strip_multibase_def bitstring_byte_len_def stored_env_def Let_def
        validate_encoded_len_def read_take_def sat_add_def sat_mul_def usize_max_def div_ceil_def
        W3C_MIN_STATUS_LIST_BITS_def MAX_STATUS_LIST_ENTRIES_def bs_from_bytes_Ok bs_inv_def)
  then show ?thesis using bounded_decoder_safe by blast
qed

text \<open>
  The revocation count of a bitstring list built by the API is exact: it is the number of
  entries whose last write revoked them. (The count adds up the set bits of all bytes, so this
  rests on the unused bits of the last byte staying clear, which every write preserves.)
\<close>

theorem count_revoked_exact:
  assumes "bs_new n = Ok fresh" and "apply_writes bs_set fresh ws = Ok l"
  shows "bs_count_revoked l = card {i. i < n \<and> last_write ws i = Some True}"
proof -
  have fresh: "bs_inv fresh" "bs_size fresh = n" "bs_padding_clear fresh" "\<forall>i < n. bs_get fresh i = Ok False"
    using bs_new_Ok [OF assms(1)] by auto
  have l: "bs_inv l" "bs_size l = n"
    using bit_store.writes_keep [OF fresh(1) assms(2)] fresh(2) by auto
  have "bs_entry l i \<longleftrightarrow> last_write ws i = Some True" if "i < n" for i
    using bit_store.get_after_writes [OF fresh(1) assms(2), of i] fresh(4) that l
    by (auto simp: bs_get_eq split: option.splits)
  then have "{i. i < n \<and> last_write ws i = Some True} = set (filter (bs_entry l) [0..<n])" by auto
  moreover have "bs_count_revoked l = length (filter (bs_entry l) [0..<n])"
    using bs_count_revoked_eq [OF l(1) writes_padding_clear [OF fresh(1,3) assms(2)]] l(2) by simp
  moreover have "card (set (filter (bs_entry l) [0..<n])) = length (filter (bs_entry l) [0..<n])"
    by (rule distinct_card) simp
  ultimately show ?thesis by (simp only:)
qed

theorem count_revoked_exact_witness:
  "bs_count_revoked \<lparr>bs_data = [0x40, 0x02], bs_size = 15\<rparr>
     = card {i. i < 15 \<and> last_write [(0, True), (1, True), (14, True), (0, False)] i = Some True}"
  by (rule count_revoked_exact [OF sample_bits])

end
