(* ===== verification/Apdu.thy ===== *)
theory Apdu
  imports Prelude
begin

text \<open>
  APDU primitives of \<open>marty-verification/src/chip_io/mod.rs\<close>: the ISO/IEC 7816-4 command codec in
  short and extended form, response parsing and status words, READ BINARY planning, data group
  file identifiers and the replaying mock chip. Error messages are constructors of \<open>ApduError\<close>.
\<close>

datatype ApduError =
    CommandTooShort | CommandLengthOverflow | InconsistentShort | MissingExtendedLength
  | ExtendedLengthOverflow | InconsistentExtended | CommandDataTooLarge | LeTooLarge
  | ShortDataExtendedLe | ResponseTooShort | ResponseDataTooLarge | ReadRangeOverflow
  | ReadRangeCapacity | UnsupportedDataGroup u8 | NoMoreResponses

definition MAX_APDU_DATA_BYTES :: nat where
  "MAX_APDU_DATA_BYTES = 65535"

record ApduCommand =
  cla :: u8
  ins :: u8
  p1 :: u8
  p2 :: u8
  cmd_data :: bytes
  le :: "nat option"

record ApduResponse =
  resp_data :: bytes
  sw1 :: u8
  sw2 :: u8

subsection \<open>Commands\<close>

definition command_from_bytes :: "bytes \<Rightarrow> (ApduCommand, ApduError) result" where
  "command_from_bytes raw =
     rbind (ensure (\<not> length raw < 4) CommandTooShort) (\<lambda>_.
     rbind (index_at raw 0) (\<lambda>c. rbind (index_at raw 1) (\<lambda>i.
     rbind (index_at raw 2) (\<lambda>a. rbind (index_at raw 3) (\<lambda>b.
     let command = (\<lambda>d e. \<lparr>cla = c, ins = i, p1 = a, p2 = b, cmd_data = d, le = e\<rparr>) in
     if length raw = 4 then Ok (command [] None)
     else rbind (index_at raw 4) (\<lambda>first.
       if length raw = 5 then Ok (command [] (Some (unat first)))
       else if first \<noteq> 0 then
         (case checked_add 5 (unat first) of
            None \<Rightarrow> Err CommandLengthOverflow
          | Some data_end \<Rightarrow>
              rbind (ensure (\<not> (length raw \<noteq> data_end \<and> length raw \<noteq> data_end + 1)) InconsistentShort) (\<lambda>_.
              rbind (slice raw 5 data_end) (\<lambda>d.
              if length raw = data_end + 1
              then rbind (index_at raw data_end) (\<lambda>e. Ok (command d (Some (unat e))))
              else Ok (command d None))))
       else if length raw = 7 then
         rbind (index_at raw 5) (\<lambda>x. rbind (index_at raw 6) (\<lambda>y. Ok (command [] (Some (from_be16 x y)))))
       else
         rbind (ensure (\<not> length raw < 7) MissingExtendedLength) (\<lambda>_.
         rbind (index_at raw 5) (\<lambda>x. rbind (index_at raw 6) (\<lambda>y.
         case checked_add 7 (from_be16 x y) of
           None \<Rightarrow> Err ExtendedLengthOverflow
         | Some data_end \<Rightarrow>
             rbind (ensure (\<not> (length raw \<noteq> data_end \<and> length raw \<noteq> data_end + 2)) InconsistentExtended) (\<lambda>_.
             rbind (slice raw 7 data_end) (\<lambda>d.
             if length raw = data_end + 2
             then rbind (index_at raw data_end) (\<lambda>u. rbind (index_at raw (data_end + 1)) (\<lambda>v.
                    Ok (command d (Some (from_be16 u v)))))
             else Ok (command d None))))))))))))"

definition encode_apdu_command ::
    "u8 \<Rightarrow> u8 \<Rightarrow> u8 \<Rightarrow> u8 \<Rightarrow> bytes option \<Rightarrow> nat option \<Rightarrow> (bytes, ApduError) result" where
  "encode_apdu_command c i a b data le_opt =
     (let data_len = (case data of None \<Rightarrow> 0 | Some d \<Rightarrow> length d) in
      rbind (ensure (\<not> data_len > MAX_APDU_DATA_BYTES) CommandDataTooLarge) (\<lambda>_.
      rbind (ensure (\<not> (case le_opt of None \<Rightarrow> False | Some v \<Rightarrow> v > 65535)) LeTooLarge) (\<lambda>_.
      let header = [c, i, a, b] in
      case data of
        None \<Rightarrow>
          (case le_opt of
             None \<Rightarrow> Ok header
           | Some expected \<Rightarrow>
               if expected \<le> 255 then Ok (header @ [of_nat expected])
               else Ok (header @ [0] @ be16 expected))
      | Some d \<Rightarrow>
          if length d \<le> 255 then
            (case le_opt of
               None \<Rightarrow> Ok (header @ [of_nat (length d)] @ d)
             | Some expected \<Rightarrow>
                 rbind (ensure (\<not> expected > 255) ShortDataExtendedLe) (\<lambda>_.
                 Ok (header @ [of_nat (length d)] @ d @ [of_nat expected])))
          else
            (case le_opt of
               None \<Rightarrow> Ok (header @ [0] @ be16 (length d) @ d)
             | Some expected \<Rightarrow> Ok (header @ [0] @ be16 (length d) @ d @ be16 expected)))))"

definition command_to_bytes :: "ApduCommand \<Rightarrow> (bytes, ApduError) result" where
  "command_to_bytes cmd =
     encode_apdu_command (cla cmd) (ins cmd) (p1 cmd) (p2 cmd)
       (if cmd_data cmd \<noteq> [] then Some (cmd_data cmd) else None) (le cmd)"

subsection \<open>Responses\<close>

definition response_from_bytes :: "bytes \<Rightarrow> (ApduResponse, ApduError) result" where
  "response_from_bytes raw =
     rbind (ensure (\<not> length raw < 2) ResponseTooShort) (\<lambda>_.
     rbind (ensure (\<not> length raw > MAX_APDU_DATA_BYTES + 2) ResponseDataTooLarge) (\<lambda>_.
     let data = take (length raw - 2) raw; sw = drop (length raw - 2) raw in
     rbind (index_at sw 0) (\<lambda>a. rbind (index_at sw 1) (\<lambda>b.
     Ok \<lparr>resp_data = data, sw1 = a, sw2 = b\<rparr>))))"

definition status_word :: "ApduResponse \<Rightarrow> u16" where
  "status_word r = push_bit 8 (ucast (sw1 r)) OR ucast (sw2 r)"

definition is_success :: "ApduResponse \<Rightarrow> bool" where
  "is_success r \<longleftrightarrow> status_word r = 0x9000"

definition is_warning :: "ApduResponse \<Rightarrow> bool" where
  "is_warning r \<longleftrightarrow> sw1 r = 0x62 \<or> sw1 r = 0x63"

definition is_error :: "ApduResponse \<Rightarrow> bool" where
  "is_error r \<longleftrightarrow> sw1 r \<ge> 0x64"

definition status_table :: "(u16 \<times> string) list" where
  "status_table =
     [(0x9000, ''Success''), (0x6100, ''Response bytes available''),
      (0x6281, ''Part of returned data corrupted''), (0x6282, ''End of file reached''),
      (0x6283, ''Selected file invalidated''), (0x6284, ''File control information not formatted''),
      (0x6300, ''Authentication failed''), (0x6381, ''File filled up by last write''),
      (0x6400, ''Execution error''), (0x6581, ''Memory failure''), (0x6700, ''Wrong length''),
      (0x6800, ''Functions in CLA not supported''), (0x6900, ''Command not allowed''),
      (0x6A00, ''Wrong parameters P1-P2''), (0x6A80, ''Incorrect parameters in data field''),
      (0x6A81, ''Function not supported''), (0x6A82, ''File not found''), (0x6A83, ''Record not found''),
      (0x6A84, ''Not enough memory space''), (0x6A86, ''Incorrect parameters P1-P2''),
      (0x6A88, ''Referenced data not found''), (0x6B00, ''Wrong parameters P1-P2''),
      (0x6C00, ''Wrong Le field''), (0x6D00, ''Instruction code not supported''),
      (0x6E00, ''Class not supported''), (0x6F00, ''No precise diagnosis'')]"

definition masked_status_table :: "(u16 \<times> string) list" where
  "masked_status_table =
     [(0x6100, ''Response bytes available''), (0x6200, ''Warning: state unchanged''),
      (0x6300, ''Warning: state changed''), (0x6C00, ''Wrong Le field'')]"

text \<open>\<open>{:04X}\<close>: four upper-case hexadecimal digits.\<close>

definition hex4 :: "u16 \<Rightarrow> string" where
  "hex4 w = map (\<lambda>k. ''0123456789ABCDEF'' ! (unat w div 16 ^ k mod 16)) [3, 2, 1, 0]"

definition status_description :: "ApduResponse \<Rightarrow> string" where
  "status_description r =
     (case map_of status_table (status_word r) of
        Some description \<Rightarrow> description
      | None \<Rightarrow>
          (case map_of masked_status_table (status_word r AND 0xFF00) of
             None \<Rightarrow> ''Unknown status: 0x'' @ hex4 (status_word r)
           | Some description \<Rightarrow> description @ '' (0x'' @ hex4 (status_word r) @ '')''))"

subsection \<open>Reading files\<close>

function read_binary_loop :: "nat \<Rightarrow> nat \<Rightarrow> nat \<Rightarrow> ApduCommand list \<Rightarrow> ApduCommand list" where
  "read_binary_loop len offset bytes_read commands =
     (if bytes_read < len then
        (let chunk = min (len - bytes_read) 255; current = offset + bytes_read in
         read_binary_loop len offset (bytes_read + chunk)
           (commands @ [\<lparr>cla = 0, ins = 0xB0, p1 = of_nat (current div 256), p2 = of_nat current,
                         cmd_data = [], le = Some chunk\<rparr>]))
      else commands)"
  by auto
termination by (relation "measure (\<lambda>(len, _, bytes_read, _). len - bytes_read)") auto

declare read_binary_loop.simps [simp del]

definition build_read_binary_commands :: "nat \<Rightarrow> nat \<Rightarrow> (ApduCommand list, ApduError) result" where
  "build_read_binary_commands len offset =
     (case checked_add offset len of
        None \<Rightarrow> Err ReadRangeOverflow
      | Some stop \<Rightarrow>
          rbind (ensure (\<not> stop > 65536) ReadRangeCapacity) (\<lambda>_. Ok (read_binary_loop len offset 0 [])))"

definition passport_data_group_file_id :: "u8 \<Rightarrow> (u16, ApduError) result" where
  "passport_data_group_file_id dg =
     (if 1 \<le> dg \<and> dg \<le> 4 then Ok (0x0100 + ucast dg)
      else if dg = 14 then Ok 0x010E
      else if dg = 15 then Ok 0x010F
      else Err (UnsupportedDataGroup dg))"

record MockPassportChip =
  responses :: "ApduResponse list"
  cursor :: nat

definition mock_chip :: "ApduResponse list \<Rightarrow> MockPassportChip" where
  "mock_chip rs = \<lparr>responses = rs, cursor = 0\<rparr>"

definition mock_transceive ::
    "MockPassportChip \<Rightarrow> ApduCommand \<Rightarrow> (ApduResponse \<times> MockPassportChip, ApduError) result" where
  "mock_transceive chip cmd =
     rbind (ensure (\<not> cursor chip \<ge> length (responses chip)) NoMoreResponses) (\<lambda>_.
     rbind (index_at (responses chip) (cursor chip)) (\<lambda>resp.
     Ok (resp, chip\<lparr>cursor := cursor chip + 1\<rparr>)))"

subsection \<open>The command codec\<close>

lemma byte_of_nat_zero: "n \<le> 255 \<Longrightarrow> (of_nat n :: u8) = 0 \<longleftrightarrow> n = 0"
proof
  assume "n \<le> 255" and "(of_nat n :: u8) = 0"
  then show "n = 0" using u8_of_nat [of n] by simp
qed simp

lemma checked_add_small: "a + b \<le> 100000 \<Longrightarrow> checked_add a b = Some (a + b)"
  by (simp add: checked_add_def usize_max_def)

lemma be16_value: "n \<le> 65535 \<Longrightarrow> from_be16 (of_nat (n div 256)) (of_nat (n mod 256)) = n"
  using from_be16_be16 [of n] by (simp add: be16_def)

lemma command_from_short:
  assumes "d \<noteq> []" and "length d \<le> 255" and "\<forall>n. e = Some n \<longrightarrow> n \<le> 255"
  shows "command_from_bytes ([c, i, a, b] @ [of_nat (length d)] @ d @ (case e of None \<Rightarrow> [] | Some n \<Rightarrow> [of_nat n]))
     = Ok \<lparr>cla = c, ins = i, p1 = a, p2 = b, cmd_data = d, le = e\<rparr>"
proof -
  have d: "slice (c # i # a # b # of_nat (length d) # d @ post) 5 (5 + length d) = Ok d"
    "slice (c # i # a # b # of_nat (length d) # d) 5 (5 + length d) = Ok d"
    "index_at (c # i # a # b # of_nat (length d) # d @ x # post) (5 + length d) = Ok x" for x post
    by (simp_all add: slice_def del: index_at_eq_Ok)
  have "(of_nat (length d) :: u8) \<noteq> 0" using assms(1,2) by (simp add: byte_of_nat_zero)
  with assms show ?thesis
    by (cases e)
      (simp_all add: command_from_bytes_def Let_def d u8_of_nat checked_add_small del: index_at_eq_Ok rbind_eq_Ok)
qed

lemma command_from_extended:
  assumes "d \<noteq> []" and "length d \<le> 65535" and "\<forall>n. e = Some n \<longrightarrow> n \<le> 65535"
  shows "command_from_bytes ([c, i, a, b] @ [0] @ be16 (length d) @ d @ (case e of None \<Rightarrow> [] | Some n \<Rightarrow> be16 n))
     = Ok \<lparr>cla = c, ins = i, p1 = a, p2 = b, cmd_data = d, le = e\<rparr>"
proof -
  let ?h = "of_nat (length d div 256) :: u8" and ?l = "of_nat (length d mod 256) :: u8"
  have d: "slice (c # i # a # b # 0 # ?h # ?l # d @ post) 7 (7 + length d) = Ok d"
    "slice (c # i # a # b # 0 # ?h # ?l # d) 7 (7 + length d) = Ok d"
    "index_at (c # i # a # b # 0 # ?h # ?l # d @ x # post) (7 + length d) = Ok x"
    "index_at (c # i # a # b # 0 # ?h # ?l # d @ [x, y]) (8 + length d) = Ok y" for x y post
    by (simp_all add: slice_def del: index_at_eq_Ok)
  from assms show ?thesis
    by (cases e)
      (simp_all add: command_from_bytes_def Let_def be16_def be16_value d checked_add_small del: index_at_eq_Ok rbind_eq_Ok)
qed

lemma command_from_no_data:
  assumes "\<forall>n. e = Some n \<longrightarrow> n \<le> 65535"
  shows "command_from_bytes ([c, i, a, b] @ (case e of None \<Rightarrow> [] | Some n \<Rightarrow> if n \<le> 255 then [of_nat n] else [0] @ be16 n))
     = Ok \<lparr>cla = c, ins = i, p1 = a, p2 = b, cmd_data = [], le = e\<rparr>"
  using assms
  by (cases e) (simp_all add: command_from_bytes_def Let_def be16_def be16_value u8_of_nat)
lemma encode_apdu_command_Ok:
  "encode_apdu_command c i a b data e = Ok raw \<longleftrightarrow>
     (case data of None \<Rightarrow> 0 | Some d \<Rightarrow> length d) \<le> 65535 \<and> (case e of None \<Rightarrow> 0 | Some n \<Rightarrow> n) \<le> 65535
     \<and> (\<forall>d n. data = Some d \<and> e = Some n \<and> length d \<le> 255 \<longrightarrow> n \<le> 255)
     \<and> raw = [c, i, a, b]
        @ (case data of
             None \<Rightarrow> (case e of None \<Rightarrow> [] | Some n \<Rightarrow> if n \<le> 255 then [of_nat n] else [0] @ be16 n)
           | Some d \<Rightarrow>
               if length d \<le> 255
               then [of_nat (length d)] @ d @ (case e of None \<Rightarrow> [] | Some n \<Rightarrow> [of_nat n])
               else [0] @ be16 (length d) @ d @ (case e of None \<Rightarrow> [] | Some n \<Rightarrow> be16 n))"
proof (cases data)
  case None
  then show ?thesis
    by (cases e) (auto simp: encode_apdu_command_def MAX_APDU_DATA_BYTES_def not_less Let_def)
next
  case (Some d)
  then show ?thesis
    by (cases e; cases "length d \<le> 255")
      (auto simp: encode_apdu_command_def MAX_APDU_DATA_BYTES_def not_less Let_def)
qed

lemma command_roundtrip: "command_to_bytes cmd = Ok raw \<Longrightarrow> command_from_bytes raw = Ok cmd"
proof -
  assume raw: "command_to_bytes cmd = Ok raw"
  then have le: "\<forall>n. le cmd = Some n \<longrightarrow> n \<le> 65535"
    by (auto simp: command_to_bytes_def encode_apdu_command_Ok split: option.splits)
  show ?thesis
  proof (cases "cmd_data cmd = []")
    case True
    with raw le show ?thesis
      using command_from_no_data [of "le cmd" "cla cmd" "ins cmd" "p1 cmd" "p2 cmd"]
      by (simp add: command_to_bytes_def encode_apdu_command_Ok)
  next
    case False
    with raw le show ?thesis
      using command_from_short [of "cmd_data cmd" "le cmd" "cla cmd" "ins cmd" "p1 cmd" "p2 cmd"]
        command_from_extended [of "cmd_data cmd" "le cmd" "cla cmd" "ins cmd" "p1 cmd" "p2 cmd"]
      by (cases "length (cmd_data cmd) \<le> 255")
        (simp_all add: command_to_bytes_def encode_apdu_command_Ok)
  qed
qed

lemma command_from_bytes_not_Panic: "command_from_bytes raw \<noteq> Panic"
proof -
  consider "length raw < 4" | "length raw = 4" | "length raw = 5" | "length raw = 6" | "length raw = 7" | "length raw > 7"
    by linarith
  then show ?thesis
    by cases
      (auto simp: command_from_bytes_def Let_def rbind_eq_Panic index_at_def slice_def
        checked_add_def split: option.splits)
qed

subsection \<open>READ BINARY plans\<close>

definition read_address :: "ApduCommand \<Rightarrow> nat" where
  "read_address c = unat (p1 c) * 256 + unat (p2 c)"

definition read_range :: "ApduCommand \<Rightarrow> nat list" where
  "read_range c = [read_address c..<read_address c + (case le c of None \<Rightarrow> 0 | Some n \<Rightarrow> n)]"

lemma read_address_of: "n < 65536 \<Longrightarrow> p1 c = of_nat (n div 256) \<Longrightarrow> p2 c = of_nat n \<Longrightarrow> read_address c = n"
  by (simp add: read_address_def unat_of_nat take_bit_nat_def)

lemma read_binary_loop_ranges:
  assumes "offset + len \<le> 65536" and "done \<le> len"
  shows "concat (map read_range (read_binary_loop len offset done acc)) = concat (map read_range acc) @ [offset + done..<offset + len]
     \<and> (\<forall>c \<in> set (read_binary_loop len offset done acc) - set acc.
          cla c = 0 \<and> ins c = 0xB0 \<and> cmd_data c = [] \<and> (\<exists>n. le c = Some n \<and> 0 < n \<and> n \<le> 255))"
  using assms
proof (induction len offset "done" acc rule: read_binary_loop.induct)
  case (1 len offset d acc)
  show ?case
  proof (cases "d < len")
    case False
    then have "read_binary_loop len offset d acc = acc" by (subst read_binary_loop.simps) simp
    with 1 False show ?thesis by simp
  next
    case True
    let ?chunk = "min (len - d) 255"
    let ?c = "\<lparr>cla = 0, ins = 0xB0, p1 = of_nat ((offset + d) div 256), p2 = of_nat (offset + d),
               cmd_data = [], le = Some ?chunk\<rparr>"
    have addr: "read_address ?c = offset + d" using True 1(2) by (intro read_address_of) simp_all
    have step: "read_binary_loop len offset d acc = read_binary_loop len offset (d + ?chunk) (acc @ [?c])"
      using True by (subst read_binary_loop.simps) (simp add: Let_def)
    have "d + ?chunk \<le> len" using True by simp
    then have ih: "concat (map read_range (read_binary_loop len offset (d + ?chunk) (acc @ [?c])))
          = concat (map read_range (acc @ [?c])) @ [offset + (d + ?chunk)..<offset + len]"
        "\<forall>c \<in> set (read_binary_loop len offset (d + ?chunk) (acc @ [?c])) - set (acc @ [?c]).
           cla c = 0 \<and> ins c = 0xB0 \<and> cmd_data c = [] \<and> (\<exists>n. le c = Some n \<and> 0 < n \<and> n \<le> 255)"
      using 1(1) [OF True refl refl 1(2)] by blast+
    have "[offset + d..<offset + d + ?chunk] @ [offset + (d + ?chunk)..<offset + len] = [offset + d..<offset + len]"
      using upt_add_eq_append [of "offset + d" "offset + d + ?chunk" "len - d - ?chunk"] True by (simp add: add.assoc)
    with addr have "read_range ?c @ [offset + (d + ?chunk)..<offset + len] = [offset + d..<offset + len]"
      by (simp add: read_range_def)
    moreover have "cla ?c = 0 \<and> ins ?c = 0xB0 \<and> cmd_data ?c = [] \<and> (\<exists>n. le ?c = Some n \<and> 0 < n \<and> n \<le> 255)"
      using True by simp
    ultimately show ?thesis using ih unfolding step by auto
  qed
qed

subsection \<open>Properties\<close>


text \<open>
  A READ BINARY plan reads exactly the requested bytes, in order and without overlap: the
  ranges addressed by the commands concatenate to the interval from \<open>offset\<close> to
  \<open>offset + len\<close>, each command asks for 1 to 255 bytes, and a request is refused exactly when it
  reaches beyond the 16-bit offset space.
\<close>

theorem read_binary_plan_exact:
  "case build_read_binary_commands len offset of
     Ok commands \<Rightarrow> offset + len \<le> 65536
       \<and> concat (map read_range commands) = [offset..<offset + len]
       \<and> list_all (\<lambda>c. ins c = 0xB0 \<and> (case le c of None \<Rightarrow> False | Some n \<Rightarrow> 0 < n \<and> n \<le> 255)) commands
   | Err e \<Rightarrow> offset + len > 65536
   | Panic \<Rightarrow> False"
proof (cases "offset + len \<le> 65536")
  case True
  then have "build_read_binary_commands len offset = Ok (read_binary_loop len offset 0 [])"
    by (simp add: build_read_binary_commands_def checked_add_def usize_max_def)
  with True read_binary_loop_ranges [of offset len 0 "[]"] show ?thesis
    by (fastforce simp: list_all_iff)
next
  case False
  then show ?thesis by (simp add: build_read_binary_commands_def checked_add_def)
qed
end
