(* ===== verification/FrameCodec.thy ===== *)
theory FrameCodec
  imports Prelude
begin

text \<open>
  The interface of a self-delimiting wire format: encodings can be concatenated, and a decoder
  started at a frame boundary returns that frame and the offset of the next one. The laws also
  say that the decoder only accepts the one encoding the encoder produces, so a byte string has
  at most one reading.
\<close>

locale frame_codec =
  fixes legal :: "'v \<Rightarrow> bool"
    and enc :: "'v \<Rightarrow> bytes"
    and dec :: "bytes \<Rightarrow> nat \<Rightarrow> ('v \<times> nat, 'e) result"
  assumes dec_enc: "legal v \<Longrightarrow> length pre + length (enc v) + length post \<le> usize_max
      \<Longrightarrow> dec (pre @ enc v @ post) (length pre) = Ok (v, length pre + length (enc v))"
    and dec_canonical: "dec data off = Ok (v, off')
      \<Longrightarrow> legal v \<and> off < off' \<and> off' \<le> length data \<and> enc v = take (off' - off) (drop off data)"
    and dec_not_panic: "dec data off \<noteq> Panic"
begin

lemma enc_not_empty:
  assumes "legal v" and "length (enc v) \<le> usize_max"
  shows "enc v \<noteq> []"
  using dec_enc [OF assms(1), of "[]" "[]"] dec_canonical [of "enc v" 0 v "length (enc v)"] assms(2) by auto

lemma enc_inj:
  assumes "legal v" and "legal w" and "enc v = enc w" and "length (enc v) \<le> usize_max"
  shows "v = w"
  using dec_enc [OF assms(1), of "[]" "[]"] dec_enc [OF assms(2), of "[]" "[]"] assms(3,4) by simp

lemma dec_nth:
  assumes "list_all legal vs" and "length (concat (map enc vs)) \<le> usize_max" and "i < length vs"
  shows "dec (concat (map enc vs)) (length (concat (map enc (take i vs))))
     = Ok (vs ! i, length (concat (map enc (take (Suc i) vs))))"
proof -
  let ?pre = "concat (map enc (take i vs))" and ?post = "concat (map enc (drop (Suc i) vs))"
  have "vs = take i vs @ vs ! i # drop (Suc i) vs" using assms(3) by (rule id_take_nth_drop)
  then have "map enc vs = map enc (take i vs @ vs ! i # drop (Suc i) vs)" by (rule arg_cong)
  then have split: "concat (map enc vs) = ?pre @ enc (vs ! i) @ ?post" by simp
  have legal: "legal (vs ! i)" using assms(1,3) by (simp add: list_all_length)
  have "length ?pre + length (enc (vs ! i)) + length ?post \<le> usize_max"
    using assms(2) unfolding split by simp
  from dec_enc [OF legal this] show ?thesis
    unfolding split using assms(3) by (simp add: take_Suc_conv_app_nth)
qed

lemma unique_first_frame:
  assumes "legal v" "legal w" and "enc v @ r = enc w @ s" and "length (enc v @ r) \<le> usize_max"
  shows "v = w \<and> r = s"
proof -
  have "length (enc w @ s) \<le> usize_max" using assms(3,4) by metis
  then have "dec (enc w @ s) 0 = Ok (w, length (enc w))"
    using dec_enc [OF assms(2), of "[]" s] by simp
  moreover have "dec (enc v @ r) 0 = Ok (v, length (enc v))"
    using dec_enc [OF assms(1), of "[]" r] assms(4) by simp
  ultimately have "v = w" unfolding assms(3) by simp
  with assms(3) show ?thesis by simp
qed

end

end
