(* ===== verification/BerTlv.thy ===== *)
theory BerTlv
  imports FrameCodec
begin

text \<open>
  The BER-TLV reader and writer and the ISO/IEC 7816-4 padding of secure messaging
  (\<open>next_ber_tlv\<close>, \<open>push_ber_tlv\<close>, \<open>iso7816_pad\<close>, \<open>iso7816_unpad\<close> in \<open>chip_io/mod.rs\<close>).
\<close>

datatype TlvError = TlvMalformed | TlvNonCanonical | TlvUnsupported | TlvTooLarge

record BerTlv =
  tlv_tag :: u8
  tlv_encoded :: bytes
  tlv_value :: bytes

text \<open>The header length and the value length announced at \<open>start\<close>.\<close>

definition tlv_lengths :: "bytes \<Rightarrow> nat \<Rightarrow> u8 \<Rightarrow> (nat \<times> nat, TlvError) result" where
  "tlv_lengths data start first_length =
     (if first_length \<le> 0x7f then Ok (2, unat first_length)
      else if first_length = 0x81 then
        rbind (ok_or (get_at data (start + 2)) TlvMalformed) (\<lambda>b.
        let v = unat b in
        rbind (ensure (\<not> v < 0x80) TlvNonCanonical) (\<lambda>_. Ok (3, v)))
      else if first_length = 0x82 then
        rbind (ok_or (slice_get data (start + 2) (start + 4)) TlvMalformed) (\<lambda>bytes.
        rbind (index_at bytes 0) (\<lambda>x. rbind (index_at bytes 1) (\<lambda>y.
        let v = from_be16 x y in
        rbind (ensure (\<not> v \<le> 0xff) TlvNonCanonical) (\<lambda>_. Ok (4, v)))))
      else Err TlvUnsupported)"

definition next_ber_tlv :: "bytes \<Rightarrow> nat \<Rightarrow> (BerTlv \<times> nat, TlvError) result" where
  "next_ber_tlv data start =
     rbind (ok_or (get_at data start) TlvMalformed) (\<lambda>tag.
     rbind (ok_or (get_at data (start + 1)) TlvMalformed) (\<lambda>first_length.
     rbind (tlv_lengths data start first_length) (\<lambda>(header_length, value_length).
     rbind (ok_or (checked_add start header_length) TlvMalformed) (\<lambda>value_start.
     rbind (ok_or (checked_add value_start value_length) TlvMalformed) (\<lambda>stop.
     rbind (ok_or (slice_get data start stop) TlvMalformed) (\<lambda>encoded.
     rbind (ok_or (slice_get data value_start stop) TlvMalformed) (\<lambda>val.
     Ok (\<lparr>tlv_tag = tag, tlv_encoded = encoded, tlv_value = val\<rparr>, stop))))))))"

definition push_ber_tlv :: "u8 \<Rightarrow> bytes \<Rightarrow> bytes \<Rightarrow> (bytes, TlvError) result" where
  "push_ber_tlv tag val output =
     (let n = length val in
      if n \<le> 0x7f then Ok (output @ [tag, of_nat n] @ val)
      else if n \<le> 0xff then Ok (output @ [tag, 0x81, of_nat n] @ val)
      else if n \<le> 0xffff then Ok (output @ [tag, 0x82] @ be16 n @ val)
      else Err TlvTooLarge)"

text \<open>\<open>while !padded.len().is_multiple_of(8) { padded.push(0) }\<close>\<close>

function pad_to_block :: "bytes \<Rightarrow> bytes" where
  "pad_to_block padded = (if length padded mod 8 \<noteq> 0 then pad_to_block (padded @ [0]) else padded)"
  by auto
termination
proof (relation "measure (\<lambda>p. (8 - length p mod 8) mod 8)", simp, goal_cases)
  case (1 p)
  have "length p mod 8 < 8" by simp
  with 1 show ?case by (cases "length p mod 8 = 7") (simp_all add: mod_Suc)
qed

declare pad_to_block.simps [simp del]

definition iso7816_pad :: "bytes \<Rightarrow> bytes" where
  "iso7816_pad data = pad_to_block (data @ [0x80])"

text \<open>The loop of \<open>iso7816_unpad\<close> over the indices \<open>i - 1, ..., 0\<close>.\<close>

primrec unpad_from :: "bytes \<Rightarrow> nat \<Rightarrow> bytes option" where
  "unpad_from data 0 = None"
| "unpad_from data (Suc i) =
     (if data ! i = 0x80 then Some (take i data)
      else if data ! i \<noteq> 0 then None
      else unpad_from data i)"

definition iso7816_unpad :: "bytes \<Rightarrow> 'e \<Rightarrow> (bytes, 'e) result" where
  "iso7816_unpad data e = ok_or (unpad_from data (length data)) e"

subsection \<open>The codec\<close>

definition tlv_legal :: "u8 \<times> bytes \<Rightarrow> bool" where
  "tlv_legal v \<longleftrightarrow> length (snd v) \<le> 65535"

definition tlv_frame :: "u8 \<times> bytes \<Rightarrow> bytes" where
  "tlv_frame v = (case push_ber_tlv (fst v) (snd v) [] of Ok e \<Rightarrow> e | _ \<Rightarrow> [])"

definition tlv_read :: "bytes \<Rightarrow> nat \<Rightarrow> ((u8 \<times> bytes) \<times> nat, TlvError) result" where
  "tlv_read data off = rbind (next_ber_tlv data off) (\<lambda>(t, off'). Ok ((tlv_tag t, tlv_value t), off'))"

lemma push_ber_tlv_eq: "length val \<le> 65535 \<Longrightarrow> push_ber_tlv tag val out = Ok (out @ tlv_frame (tag, val))"
  by (simp add: push_ber_tlv_def tlv_frame_def Let_def)

lemma push_ber_tlv_Ok: "push_ber_tlv tag val out = Ok r \<longleftrightarrow> tlv_legal (tag, val) \<and> r = out @ tlv_frame (tag, val)"
  by (auto simp: push_ber_tlv_def tlv_frame_def tlv_legal_def Let_def)

lemma tlv_frame_cases:
  assumes "length val \<le> 65535"
  obtains h where "tlv_frame (tag, val) = h @ val" and "length h \<in> {2, 3, 4}"
proof -
  consider "length val \<le> 127" | "127 < length val" "length val \<le> 255" | "255 < length val" by linarith
  then show ?thesis
    using assms
    by cases (rule that [of "[tag, of_nat (length val)]"] that [of "[tag, 0x81, of_nat (length val)]"]
        that [of "[tag, 0x82] @ be16 (length val)"]; simp add: tlv_frame_def push_ber_tlv_def)+
qed

lemma short_length_byte: "n \<le> 127 \<Longrightarrow> (of_nat n :: u8) \<le> 0x7f"
  by (simp add: word_le_nat_alt u8_of_nat)

lemma slice_get_frame:
  "slice_get (pre @ h @ v @ post) (length pre) (length pre + (length h + length v)) = Some (h @ v)"
  "slice_get (pre @ h @ v @ post) (length pre + length h) (length pre + (length h + length v)) = Some v"
  by (simp_all add: slice_get_def)

lemma next_ber_tlv_eval:
  assumes "h = tag # first # hs" and "tlv_lengths (pre @ h @ val @ post) (length pre) first = Ok (length h, length val)"
    and "length pre + (length h + length val) \<le> usize_max"
  shows "next_ber_tlv (pre @ h @ val @ post) (length pre)
     = Ok (\<lparr>tlv_tag = tag, tlv_encoded = h @ val, tlv_value = val\<rparr>, length pre + (length h + length val))"
proof -
  have "get_at (pre @ h @ val @ post) (length pre) = Some tag"
    "get_at (pre @ h @ val @ post) (length pre + 1) = Some first"
    by (simp_all add: assms(1))
  with assms(2,3) show ?thesis
    by (simp add: next_ber_tlv_def slice_get_frame checked_add_def add.assoc del: rbind_eq_Ok)
qed

lemma tlv_lengths_frame:
  "length val \<le> 127 \<Longrightarrow>
     tlv_lengths data s (of_nat (length val)) = Ok (2, length val)"
  "127 < length val \<Longrightarrow> length val \<le> 255 \<Longrightarrow>
     tlv_lengths (pre @ tag # 0x81 # of_nat (length val) # r) (length pre) 0x81 = Ok (3, length val)"
  "255 < length val \<Longrightarrow> length val \<le> 65535 \<Longrightarrow>
     tlv_lengths (pre @ tag # 0x82 # be16 (length val) @ r) (length pre) 0x82 = Ok (4, length val)"
proof -
  show "length val \<le> 127 \<Longrightarrow> tlv_lengths data s (of_nat (length val)) = Ok (2, length val)"
    by (simp add: tlv_lengths_def short_length_byte u8_of_nat)
  show "127 < length val \<Longrightarrow> length val \<le> 255 \<Longrightarrow>
     tlv_lengths (pre @ tag # 0x81 # of_nat (length val) # r) (length pre) 0x81 = Ok (3, length val)"
    by (simp add: tlv_lengths_def u8_of_nat Let_def del: rbind_eq_Ok add_2_eq_Suc add_2_eq_Suc')
  assume n: "255 < length val" "length val \<le> 65535"
  have "slice_get (pre @ tag # 0x82 # be16 (length val) @ r) (length pre + 2) (length pre + 4)
      = Some [of_nat (length val div 256), of_nat (length val mod 256)]"
    by (simp add: slice_get_def be16_def)
  moreover have "from_be16 (of_nat (length val div 256)) (of_nat (length val mod 256)) = length val"
    using from_be16_be16 [of "length val"] n by (simp add: be16_def)
  ultimately show "tlv_lengths (pre @ tag # 0x82 # be16 (length val) @ r) (length pre) 0x82 = Ok (4, length val)"
    using n by (simp add: tlv_lengths_def Let_def del: rbind_eq_Ok add_2_eq_Suc add_2_eq_Suc')
qed

lemma next_ber_tlv_frame:
  assumes "length val \<le> 65535" and "length pre + length (tlv_frame (tag, val)) + length post \<le> usize_max"
  shows "next_ber_tlv (pre @ tlv_frame (tag, val) @ post) (length pre)
     = Ok (\<lparr>tlv_tag = tag, tlv_encoded = tlv_frame (tag, val), tlv_value = val\<rparr>,
           length pre + length (tlv_frame (tag, val)))"
proof -
  let ?n = "length val"
  consider "?n \<le> 127" | "127 < ?n" "?n \<le> 255" | "255 < ?n" by linarith
  then show ?thesis
  proof cases
    case 1
    then have f: "tlv_frame (tag, val) = [tag, of_nat ?n] @ val"
      by (simp add: tlv_frame_def push_ber_tlv_def)
    with assms(2) next_ber_tlv_eval [of "[tag, of_nat ?n]" tag "of_nat ?n" "[]" pre val post]
      tlv_lengths_frame(1) [OF 1] show ?thesis by simp
  next
    case 2
    then have f: "tlv_frame (tag, val) = [tag, 0x81, of_nat ?n] @ val"
      by (simp add: tlv_frame_def push_ber_tlv_def)
    with assms(2) next_ber_tlv_eval [of "[tag, 0x81, of_nat ?n]" tag "0x81" "[of_nat ?n]" pre val post]
      tlv_lengths_frame(2) [OF 2, of pre tag "val @ post"] show ?thesis by simp
  next
    case 3
    then have f: "tlv_frame (tag, val) = (tag # 0x82 # be16 ?n) @ val"
      using assms(1) by (simp add: tlv_frame_def push_ber_tlv_def)
    with assms(2) next_ber_tlv_eval [of "tag # 0x82 # be16 ?n" tag "0x82" "be16 ?n" pre val post]
      tlv_lengths_frame(3) [OF 3 assms(1), of pre tag "val @ post"] show ?thesis by simp
  qed
qed


lemma take_two: "Suc i < length xs \<Longrightarrow> take 2 (drop i xs) = [xs ! i, xs ! Suc i]"
  by (simp add: numeral_2_eq_2 take_Suc_conv_app_nth)

lemma be16_of_bytes: "be16 (from_be16 x y) = [x, y]"
proof -
  have "unat y < 256" using unsigned_less [of y, where ?'a = nat] by simp
  then show ?thesis by (simp add: be16_def from_be16_def)
qed

lemma tlv_lengths_Ok:
  assumes "tlv_lengths data s first = Ok (h, n)" and "Suc s < length data" and "data ! Suc s = first"
    and "length val = n"
  shows "n \<le> 65535 \<and> tlv_frame (tag, val) = tag # take (h - 1) (drop (Suc s) data) @ val \<and> 2 \<le> h \<and> s + h \<le> length data"
proof -
  have d: "drop (Suc s) data = first # drop (s + 2) data"
    using assms(2,3) Cons_nth_drop_Suc [of "Suc s" data] by simp
  consider (short) "first \<le> 0x7f" "h = 2" "n = unat first"
    | (one) "first = 0x81" "h = 3" "s + 2 < length data" "n = unat (data ! (s + 2))" "0x80 \<le> n"
    | (two) "first = 0x82" "h = 4" "s + 4 \<le> length data" "n = from_be16 (data ! (s + 2)) (data ! (s + 3))" "0xff < n"
    using assms(1)
    by (auto simp: tlv_lengths_def get_at_eq_Some slice_get_eq_Some Let_def not_less not_le add.commute numeral_3_eq_3 split: if_splits)
  then show ?thesis
  proof cases
    case short
    then have "n \<le> 127" by (simp add: word_le_nat_alt)
    with short assms(2,4) d show ?thesis by (simp add: tlv_frame_def push_ber_tlv_def)
  next
    case one
    have "n \<le> 255" using one(4) unsigned_less [of "data ! (s + 2)", where ?'a = nat] by simp
    moreover have "drop (s + 2) data = data ! (s + 2) # drop (s + 3) data"
      using one(3) Cons_nth_drop_Suc [of "s + 2" data] by (simp add: eval_nat_numeral)
    ultimately show ?thesis using one assms(4) d by (simp add: tlv_frame_def push_ber_tlv_def)
  next
    case two
    have "n \<le> 65535"
      using two(4) unsigned_less [of "data ! (s + 2)", where ?'a = nat] unsigned_less [of "data ! (s + 3)", where ?'a = nat]
      by (simp add: from_be16_def)
    moreover have "drop (s + 2) data = data ! (s + 2) # data ! (s + 3) # drop (s + 4) data"
      using two(3) Cons_nth_drop_Suc [of "s + 2" data] Cons_nth_drop_Suc [of "s + 3" data] by (simp add: eval_nat_numeral)
    ultimately show ?thesis
      using two assms(4) d be16_of_bytes by (simp add: tlv_frame_def push_ber_tlv_def)
  qed
qed

lemma next_ber_tlv_Ok:
  assumes "next_ber_tlv data off = Ok (t, off')"
  shows "tlv_legal (tlv_tag t, tlv_value t) \<and> off < off' \<and> off' \<le> length data
     \<and> tlv_encoded t = tlv_frame (tlv_tag t, tlv_value t) \<and> tlv_frame (tlv_tag t, tlv_value t) = take (off' - off) (drop off data)"
proof -
  obtain first h n where f: "off < length data" "Suc off < length data" "first = data ! Suc off"
      "tlv_lengths data off first = Ok (h, n)" "off' = off + h + n" "off' \<le> length data" 
    and t: "t = \<lparr>tlv_tag = data ! off, tlv_encoded = take (off' - off) (drop off data), tlv_value = take n (drop (off + h) data)\<rparr>"
    using assms by (auto simp: next_ber_tlv_def get_at_eq_Some slice_get_eq_Some checked_add_def split: if_splits)
  have len: "length (tlv_value t) = n" using f t by simp
  note l = tlv_lengths_Ok [OF f(4,2) f(3) [symmetric] len, of "data ! off"]
  have "take (off' - off) (drop off data) = data ! off # take (h - 1) (drop (Suc off) data) @ take n (drop (off + h) data)"
  proof -
    have "drop off data = data ! off # drop (Suc off) data" using f(1) by (rule Cons_nth_drop_Suc [symmetric])
    moreover have "off' - off = Suc ((h - 1) + n)" using l f(5) by simp
    moreover have "drop (h - 1) (drop (Suc off) data) = drop (off + h) data" using l by (simp add: add.commute)
    ultimately show ?thesis by (simp add: take_add del: drop_drop)
  qed
  with l t len f show ?thesis by (simp add: tlv_legal_def)
qed

lemma tlv_lengths_not_Panic: "tlv_lengths data s first \<noteq> Panic"
  by (auto simp: tlv_lengths_def rbind_eq_Panic Let_def slice_get_eq_Some index_at_def)

lemma next_ber_tlv_not_Panic: "next_ber_tlv data off \<noteq> Panic"
  by (auto simp: next_ber_tlv_def rbind_eq_Panic tlv_lengths_not_Panic)

interpretation ber_tlv: frame_codec tlv_legal tlv_frame tlv_read
proof
  show "tlv_read (pre @ tlv_frame v @ post) (length pre) = Ok (v, length pre + length (tlv_frame v))"
    if "tlv_legal v" "length pre + length (tlv_frame v) + length post \<le> usize_max" for v pre post
    using next_ber_tlv_frame [of "snd v" pre "fst v" post] that by (simp add: tlv_read_def tlv_legal_def)
  show "tlv_legal v \<and> off < off' \<and> off' \<le> length data \<and> tlv_frame v = take (off' - off) (drop off data)"
    if "tlv_read data off = Ok (v, off')" for data off v off'
    using that by (auto simp: tlv_read_def dest!: next_ber_tlv_Ok)
  show "tlv_read data off \<noteq> Panic" for data off
    by (auto simp: tlv_read_def rbind_eq_Panic next_ber_tlv_not_Panic)
qed

subsection \<open>Padding\<close>

lemma pad_to_block_eq: "\<exists>k < 8. pad_to_block p = p @ replicate k 0 \<and> (length p + k) mod 8 = 0"
proof (induction p rule: pad_to_block.induct)
  case (1 p)
  show ?case
  proof (cases "length p mod 8 = 0")
    case True
    then have "pad_to_block p = p" by (subst pad_to_block.simps) simp
    with True show ?thesis by (intro exI [of _ 0]) simp
  next
    case False
    with 1 obtain k where k: "k < 8" "pad_to_block (p @ [0]) = (p @ [0]) @ replicate k 0" "(length p + Suc k) mod 8 = 0"
      by auto
    have "k \<noteq> 7"
    proof
      assume "k = 7"
      with k(3) have "(length p + 8) mod 8 = 0" by simp
      with False show False by simp
    qed
    moreover have "pad_to_block p = pad_to_block (p @ [0])" using False by (subst pad_to_block.simps) simp
    ultimately show ?thesis using k by (intro exI [of _ "Suc k"]) auto
  qed
qed

lemma iso7816_pad_eq:
  obtains k where "k < 8" and "iso7816_pad d = d @ 0x80 # replicate k 0" and "length (iso7816_pad d) mod 8 = 0"
  using pad_to_block_eq [of "d @ [0x80]"] by (auto simp: iso7816_pad_def)

lemma replicate_snoc: "replicate (Suc n) x = replicate n x @ [x]"
  by (simp add: replicate_append_same)

lemma unpad_from_Some:
  "i \<le> length x \<Longrightarrow> unpad_from x i = Some d \<longleftrightarrow> (\<exists>k. take i x = d @ 0x80 # replicate k 0)"
proof (induction i)
  case 0
  then show ?case by simp
next
  case (Suc i)
  then have t: "take (Suc i) x = take i x @ [x ! i]" by (simp add: take_Suc_conv_app_nth)
  consider "x ! i = 0x80" | "x ! i \<noteq> 0x80" "x ! i \<noteq> 0" | "x ! i = 0" by auto
  then show ?case
  proof cases
    case 1
    have "take i x @ [0x80] = d @ 0x80 # replicate k 0 \<longleftrightarrow> k = 0 \<and> take i x = d" for k
      by (cases k) (auto simp: replicate_snoc simp del: replicate_Suc)
    with 1 t show ?thesis by auto
  next
    case 2
    have "take i x @ [x ! i] \<noteq> d @ 0x80 # replicate k 0" for k
      using 2 by (cases k) (auto simp: replicate_snoc simp del: replicate_Suc)
    with 2 t show ?thesis by simp
  next
    case 3
    have "take i x @ [0] = d @ 0x80 # replicate k 0 \<longleftrightarrow> (\<exists>j. k = Suc j \<and> take i x = d @ 0x80 # replicate j 0)" for k
      by (cases k) (auto simp: replicate_snoc simp del: replicate_Suc)
    with 3 t Suc show ?thesis by auto
  qed
qed

lemma iso7816_unpad_Ok: "iso7816_unpad x e = Ok d \<longleftrightarrow> (\<exists>k. x = d @ 0x80 # replicate k 0)"
  using unpad_from_Some [of "length x" x d] by (simp add: iso7816_unpad_def)

lemma iso7816_unpad_pad: "iso7816_unpad (iso7816_pad d) e = Ok d"
  by (rule iso7816_pad_eq [of d]) (auto simp: iso7816_unpad_Ok)

lemma iso7816_unpad_not_Panic [simp]: "iso7816_unpad x e \<noteq> Panic"
  by (simp add: iso7816_unpad_def)

subsection \<open>Properties\<close>



text \<open>
  Padding to the cipher block is removed exactly: padding appends at least one and at most
  eight bytes, up to a multiple of eight, unpadding it returns the data, and unpadding accepts
  precisely the strings that end in a marker byte and zeros.
\<close>

theorem iso7816_padding_exact:
  "length (iso7816_pad d) mod 8 = 0 \<and> length d < length (iso7816_pad d) \<and> length (iso7816_pad d) \<le> length d + 8
   \<and> iso7816_unpad (iso7816_pad d) e = Ok d
   \<and> (iso7816_unpad x e = Ok d \<longleftrightarrow> (\<exists>k. x = d @ 0x80 # replicate k 0))"
proof -
  obtain k where "k < 8" "iso7816_pad d = d @ 0x80 # replicate k 0" "length (iso7816_pad d) mod 8 = 0"
    by (rule iso7816_pad_eq)
  then show ?thesis by (simp add: iso7816_unpad_pad iso7816_unpad_Ok)
qed

end
