(* ===== verification/Tdes.thy ===== *)
theory Tdes
  imports BerTlv
begin

text \<open>
  Triple DES for eMRTD access control (\<open>marty-crypto/src/des.rs\<close>): parameter validation, CBC
  encryption and decryption, the retail MAC and key parity. The block cipher and its CBC mode are
  third-party code, the fields of \<open>tdes_env\<close>. What that code documents is \<open>tdes_laws\<close>: CBC
  chaining over EDE with the three key parts, for single DES block functions that invert each
  other.
\<close>

datatype TdesError = TdesKeyLength | TdesIvLength | TdesDataLength | RetailKeyLength | CipherFailed string

record tdes_env =
  cbc_enc :: "bytes \<Rightarrow> bytes \<Rightarrow> bytes \<Rightarrow> string + bytes"
  cbc_dec :: "bytes \<Rightarrow> bytes \<Rightarrow> bytes \<Rightarrow> string + bytes"
  cbc_enc_pkcs7 :: "bytes \<Rightarrow> bytes \<Rightarrow> bytes \<Rightarrow> string + bytes"
  cbc_dec_pkcs7 :: "bytes \<Rightarrow> bytes \<Rightarrow> bytes \<Rightarrow> string + bytes"

definition validate_tdes_params :: "bytes \<Rightarrow> bytes \<Rightarrow> bytes \<Rightarrow> (unit, TdesError) result" where
  "validate_tdes_params key iv data =
     rbind (ensure (\<not> length key \<noteq> 24) TdesKeyLength) (\<lambda>_.
     rbind (ensure (\<not> length iv \<noteq> 8) TdesIvLength) (\<lambda>_.
     ensure (\<not> (data = [] \<or> length data mod 8 \<noteq> 0)) TdesDataLength))"

definition tdes_cbc_encrypt :: "('x) tdes_env_scheme \<Rightarrow> bytes \<Rightarrow> bytes \<Rightarrow> bytes \<Rightarrow> (bytes, TdesError) result" where
  "tdes_cbc_encrypt env key iv plaintext =
     rbind (validate_tdes_params key iv plaintext) (\<lambda>_. lift_err CipherFailed (cbc_enc env key iv plaintext))"

definition tdes_cbc_decrypt :: "('x) tdes_env_scheme \<Rightarrow> bytes \<Rightarrow> bytes \<Rightarrow> bytes \<Rightarrow> (bytes, TdesError) result" where
  "tdes_cbc_decrypt env key iv ciphertext =
     rbind (validate_tdes_params key iv ciphertext) (\<lambda>_. lift_err CipherFailed (cbc_dec env key iv ciphertext))"

definition tdes_cbc_encrypt_padded :: "('x) tdes_env_scheme \<Rightarrow> bytes \<Rightarrow> bytes \<Rightarrow> bytes \<Rightarrow> (bytes, TdesError) result" where
  "tdes_cbc_encrypt_padded env key iv plaintext =
     rbind (ensure (\<not> length key \<noteq> 24) TdesKeyLength) (\<lambda>_.
     rbind (ensure (\<not> length iv \<noteq> 8) TdesIvLength) (\<lambda>_.
     lift_err CipherFailed (cbc_enc_pkcs7 env key iv plaintext)))"

definition tdes_cbc_decrypt_padded :: "('x) tdes_env_scheme \<Rightarrow> bytes \<Rightarrow> bytes \<Rightarrow> bytes \<Rightarrow> (bytes, TdesError) result" where
  "tdes_cbc_decrypt_padded env key iv ciphertext =
     rbind (ensure (\<not> length key \<noteq> 24) TdesKeyLength) (\<lambda>_.
     rbind (ensure (\<not> length iv \<noteq> 8) TdesIvLength) (\<lambda>_.
     rbind (ensure (\<not> (ciphertext = [] \<or> length ciphertext mod 8 \<noteq> 0)) TdesDataLength) (\<lambda>_.
     lift_err CipherFailed (cbc_dec_pkcs7 env key iv ciphertext))))"

text \<open>\<open>ExpandedTdesKey::repeated\<close>: one DES key in all three places.\<close>

definition repeated :: "bytes \<Rightarrow> bytes" where
  "repeated component = component @ component @ component"

text \<open>The XOR of a chunk into the front of \<open>y\<close>; the index panics beyond the end of \<open>y\<close>.\<close>

definition xor_into :: "bytes \<Rightarrow> bytes \<Rightarrow> (bytes, 'e) result" where
  "xor_into y chunk =
     (if length chunk \<le> length y
      then Ok (xor_bytes (take (length chunk) y) chunk @ drop (length chunk) y) else Panic)"

primrec retail_mac_loop :: "('x) tdes_env_scheme \<Rightarrow> bytes \<Rightarrow> bytes list \<Rightarrow> bytes \<Rightarrow> (bytes, TdesError) result" where
  "retail_mac_loop env k1 [] y = Ok y"
| "retail_mac_loop env k1 (chunk # rest) y =
     rbind (xor_into y chunk) (\<lambda>y'.
     rbind (tdes_cbc_encrypt env (repeated k1) (replicate 8 0) y') (\<lambda>y''.
     retail_mac_loop env k1 rest y''))"

definition retail_mac :: "('x) tdes_env_scheme \<Rightarrow> bytes \<Rightarrow> bytes \<Rightarrow> (bytes, TdesError) result" where
  "retail_mac env key data =
     rbind (ensure (\<not> length key \<noteq> 16) RetailKeyLength) (\<lambda>_.
     rbind (slice key 0 8) (\<lambda>k1.
     rbind (slice key 8 16) (\<lambda>k2.
     let padded = pad_to_block (data @ [0x80]) in
     rbind (retail_mac_loop env k1 (chunks 8 padded) (replicate 8 0)) (\<lambda>y.
     rbind (tdes_cbc_decrypt env (repeated k2) (replicate 8 0) y) (\<lambda>y'.
     tdes_cbc_encrypt env (repeated k1) (replicate 8 0) y')))))"

definition adjust_parity :: "bytes \<Rightarrow> bytes" where
  "adjust_parity key = map (\<lambda>b. if count_ones b mod 2 = 0 then b XOR 1 else b) key"

subsection \<open>What the cipher documents\<close>

fun cbc_blocks :: "(bytes \<Rightarrow> bytes) \<Rightarrow> bytes \<Rightarrow> bytes list \<Rightarrow> bytes list" where
  "cbc_blocks f c [] = []"
| "cbc_blocks f c (b # bs) = (let y = f (xor_bytes c b) in y # cbc_blocks f y bs)"

fun uncbc_blocks :: "(bytes \<Rightarrow> bytes) \<Rightarrow> bytes \<Rightarrow> bytes list \<Rightarrow> bytes list" where
  "uncbc_blocks g c [] = []"
| "uncbc_blocks g c (b # bs) = xor_bytes c (g b) # uncbc_blocks g b bs"

definition cbc :: "(bytes \<Rightarrow> bytes) \<Rightarrow> bytes \<Rightarrow> bytes \<Rightarrow> bytes" where
  "cbc f iv data = concat (cbc_blocks f iv (chunks 8 data))"

definition uncbc :: "(bytes \<Rightarrow> bytes) \<Rightarrow> bytes \<Rightarrow> bytes \<Rightarrow> bytes" where
  "uncbc g iv data = concat (uncbc_blocks g iv (chunks 8 data))"

definition ede3 :: "(bytes \<Rightarrow> bytes \<Rightarrow> bytes) \<Rightarrow> (bytes \<Rightarrow> bytes \<Rightarrow> bytes) \<Rightarrow> bytes \<Rightarrow> bytes \<Rightarrow> bytes" where
  "ede3 E D key b = E (drop 16 key) (D (take 8 (drop 8 key)) (E (take 8 key) b))"

definition dec3 :: "(bytes \<Rightarrow> bytes \<Rightarrow> bytes) \<Rightarrow> (bytes \<Rightarrow> bytes \<Rightarrow> bytes) \<Rightarrow> bytes \<Rightarrow> bytes \<Rightarrow> bytes" where
  "dec3 E D key b = D (take 8 key) (E (take 8 (drop 8 key)) (D (drop 16 key) b))"

definition block_cipher :: "(bytes \<Rightarrow> bytes \<Rightarrow> bytes) \<Rightarrow> (bytes \<Rightarrow> bytes \<Rightarrow> bytes) \<Rightarrow> bool" where
  "block_cipher E D \<longleftrightarrow>
     (\<forall>k b. length k = 8 \<and> length b = 8 \<longrightarrow>
        length (E k b) = 8 \<and> length (D k b) = 8 \<and> D k (E k b) = b \<and> E k (D k b) = b)"

definition tdes_laws :: "('x) tdes_env_scheme \<Rightarrow> (bytes \<Rightarrow> bytes \<Rightarrow> bytes) \<Rightarrow> (bytes \<Rightarrow> bytes \<Rightarrow> bytes) \<Rightarrow> bool" where
  "tdes_laws env E D \<longleftrightarrow> block_cipher E D
     \<and> (\<forall>key iv data. length key = 24 \<and> length iv = 8 \<and> length data mod 8 = 0 \<longrightarrow>
          cbc_enc env key iv data = Inr (cbc (ede3 E D key) iv data)
          \<and> cbc_dec env key iv data = Inr (uncbc (dec3 E D key) iv data))"

subsection \<open>Encryption\<close>

lemma block_cipherD:
  assumes "block_cipher E D" and "length k = 8" and "length b = 8"
  shows "length (E k b) = 8" "length (D k b) = 8" "D k (E k b) = b" "E k (D k b) = b"
  using assms unfolding block_cipher_def by blast+

lemma ede3_inverse:
  assumes "block_cipher E D" and "length key = 24" and "length b = 8"
  shows "length (ede3 E D key b) = 8" "dec3 E D key (ede3 E D key b) = b"
  using assms by (simp_all add: ede3_def dec3_def block_cipherD)

lemma cbc_blocks_length:
  assumes "\<forall>b. length b = 8 \<longrightarrow> length (f b) = 8 \<and> g (f b) = b"
    and "length c = 8" and "\<forall>b \<in> set bs. length b = 8"
  shows "(\<forall>b \<in> set (cbc_blocks f c bs). length b = 8) \<and> length (cbc_blocks f c bs) = length bs
     \<and> uncbc_blocks g c (cbc_blocks f c bs) = bs"
  using assms(2,3)
proof (induction bs arbitrary: c)
  case (Cons a bs)
  have "length (xor_bytes c a) = 8" using Cons.prems by simp
  then have f: "length (f (xor_bytes c a)) = 8" "g (f (xor_bytes c a)) = xor_bytes c a"
    using assms(1) by blast+
  have "length a = length c" "\<forall>b \<in> set bs. length b = 8" using Cons.prems by simp_all
  with f Cons.IH [of "f (xor_bytes c a)"] show ?case by (simp add: Let_def xor_bytes_cancel)
qed simp

lemmas cbc_blocks_inverse =
  cbc_blocks_length [THEN conjunct1] cbc_blocks_length [THEN conjunct2, THEN conjunct1]
  cbc_blocks_length [THEN conjunct2, THEN conjunct2]

lemma length_concat_blocks: "\<forall>b \<in> set bs. length b = n \<Longrightarrow> length (concat bs) = n * length bs"
  by (induction bs) simp_all

lemma cbc_inverse:
  assumes f: "\<forall>b. length b = 8 \<longrightarrow> length (f b) = 8 \<and> g (f b) = b"
    and "length iv = 8" and "length data mod 8 = 0"
  shows "uncbc g iv (cbc f iv data) = data" "length (cbc f iv data) = length data"
proof -
  let ?bs = "chunks 8 data"
  have bs: "\<forall>b \<in> set ?bs. length b = 8" using chunks_length [of 8 data] assms(3) by auto
  note inv = cbc_blocks_inverse [OF f assms(2) bs]
  have "chunks 8 (concat (cbc_blocks f iv ?bs)) = cbc_blocks f iv ?bs" using inv(1) by (simp add: chunks_concat)
  with inv(3) show "uncbc g iv (cbc f iv data) = data" by (simp add: cbc_def uncbc_def concat_chunks)
  show "length (cbc f iv data) = length data"
    using length_concat_blocks [OF inv(1)] length_concat_blocks [OF bs] inv(2) by (simp add: cbc_def concat_chunks)
qed

lemma tdes_encrypt_Ok:
  assumes "tdes_laws env E D" and "length key = 24" and "length iv = 8"
    and "data \<noteq> []" and "length data mod 8 = 0"
  shows "tdes_cbc_encrypt env key iv data = Ok (cbc (ede3 E D key) iv data)"
    and "length (cbc (ede3 E D key) iv data) = length data"
    and "tdes_cbc_decrypt env key iv (cbc (ede3 E D key) iv data) = Ok data"
proof -
  have f: "\<forall>b. length b = 8 \<longrightarrow> length (ede3 E D key b) = 8 \<and> dec3 E D key (ede3 E D key b) = b"
    using assms(1,2) by (simp add: tdes_laws_def ede3_inverse)
  note inv = cbc_inverse [OF f assms(3,5)]
  show "tdes_cbc_encrypt env key iv data = Ok (cbc (ede3 E D key) iv data)"
    using assms by (simp add: tdes_cbc_encrypt_def validate_tdes_params_def tdes_laws_def)
  show l: "length (cbc (ede3 E D key) iv data) = length data" by (rule inv(2))
  then have "cbc (ede3 E D key) iv data \<noteq> []" using assms(4) by (metis length_0_conv)
  with l show "tdes_cbc_decrypt env key iv (cbc (ede3 E D key) iv data) = Ok data"
    using assms inv(1) by (simp add: tdes_cbc_decrypt_def validate_tdes_params_def tdes_laws_def)
qed

lemma cbc_one_block: "length b = 8 \<Longrightarrow> cbc f (replicate 8 0) b = f b" "length b = 8 \<Longrightarrow> uncbc g (replicate 8 0) b = xor_bytes (replicate 8 0) (g b)"
  using chunks_block [of 8 b "[]"] by (simp_all add: cbc_def uncbc_def)

lemma single_des:
  assumes "tdes_laws env E D" and "length k = 8" and "length b = 8"
  shows "tdes_cbc_encrypt env (repeated k) (replicate 8 0) b = Ok (E k b)"
    and "tdes_cbc_decrypt env (repeated k) (replicate 8 0) b = Ok (D k b)"
proof -
  have bc: "block_cipher E D" using assms(1) by (simp add: tdes_laws_def)
  have "b \<noteq> []" using assms(3) by auto
  then show "tdes_cbc_encrypt env (repeated k) (replicate 8 0) b = Ok (E k b)"
    using assms bc by (subst tdes_encrypt_Ok(1) [OF assms(1)])
      (simp_all add: repeated_def cbc_one_block ede3_def block_cipherD)
  from \<open>b \<noteq> []\<close> have "tdes_cbc_decrypt env (repeated k) (replicate 8 0) b = Ok (uncbc (dec3 E D (repeated k)) (replicate 8 0) b)"
    using assms by (simp add: tdes_cbc_decrypt_def validate_tdes_params_def tdes_laws_def repeated_def)
  then show "tdes_cbc_decrypt env (repeated k) (replicate 8 0) b = Ok (D k b)"
    using assms bc by (simp add: cbc_one_block dec3_def repeated_def block_cipherD)
qed

subsection \<open>The retail MAC\<close>

definition mac_chain :: "(bytes \<Rightarrow> bytes \<Rightarrow> bytes) \<Rightarrow> bytes \<Rightarrow> bytes list \<Rightarrow> bytes \<Rightarrow> bytes" where
  "mac_chain E k blocks y = foldl (\<lambda>y b. E k (xor_bytes y b)) y blocks"

text \<open>ISO/IEC 9797-1 algorithm 3 over padded blocks.\<close>

definition mac_alg3 :: "(bytes \<Rightarrow> bytes \<Rightarrow> bytes) \<Rightarrow> (bytes \<Rightarrow> bytes \<Rightarrow> bytes) \<Rightarrow> bytes \<Rightarrow> bytes \<Rightarrow> bytes" where
  "mac_alg3 E D key data =
     E (take 8 key) (D (drop 8 key) (mac_chain E (take 8 key) (chunks 8 (iso7816_pad data)) (replicate 8 0)))"

lemma mac_chain_length:
  assumes "block_cipher E D" and "length k = 8" and "\<forall>b \<in> set bs. length b = 8" and "length y = 8"
  shows "length (mac_chain E k bs y) = 8"
  using assms(3,4) by (induction bs arbitrary: y) (auto simp: mac_chain_def block_cipherD [OF assms(1,2)])

lemma xor_into_same: "length b = length y \<Longrightarrow> xor_into y b = Ok (xor_bytes y b)"
  by (simp add: xor_into_def)

lemma retail_mac_loop_eq:
  assumes "tdes_laws env E D" and "length k = 8" and "\<forall>b \<in> set bs. length b = 8" and "length y = 8"
  shows "retail_mac_loop env k bs y = Ok (mac_chain E k bs y)"
  using assms(3,4)
proof (induction bs arbitrary: y)
  case Nil
  show ?case by (simp add: mac_chain_def)
next
  case (Cons b bs)
  have bc: "block_cipher E D" using assms(1) by (simp add: tdes_laws_def)
  have l: "length (E k (xor_bytes y b)) = 8" using Cons.prems by (simp add: block_cipherD [OF bc assms(2)])
  have "length (xor_bytes y b) = 8" using Cons.prems by simp
  note e = single_des(1) [OF assms(1,2) this]
  have "\<forall>b \<in> set bs. length b = 8" using Cons.prems by simp
  note ih = Cons.IH [OF this l]
  have x: "xor_into y b = Ok (xor_bytes y b)" using Cons.prems by (intro xor_into_same) simp
  show ?case unfolding retail_mac_loop.simps x rbind.simps e ih by (simp add: mac_chain_def)
qed

lemma pad_blocks: "\<forall>b \<in> set (chunks 8 (iso7816_pad d)). length b = 8" "iso7816_pad d \<noteq> []"
proof -
  obtain k where "k < 8" and k: "iso7816_pad d = d @ 0x80 # replicate k 0"
    and m: "length (iso7816_pad d) mod 8 = 0"
    by (rule iso7816_pad_eq)
  show "\<forall>b \<in> set (chunks 8 (iso7816_pad d)). length b = 8" using chunks_length [OF _ m] by simp
  show "iso7816_pad d \<noteq> []" unfolding k by simp
qed

lemma retail_mac_eq:
  assumes "tdes_laws env E D" and "length key = 16"
  shows "retail_mac env key data = Ok (mac_alg3 E D key data)" and "length (mac_alg3 E D key data) = 8"
proof -
  have bc: "block_cipher E D" using assms(1) by (simp add: tdes_laws_def)
  let ?y = "mac_chain E (take 8 key) (chunks 8 (iso7816_pad data)) (replicate 8 0)"
  have y: "length ?y = 8" using assms(2) pad_blocks(1) by (intro mac_chain_length [OF bc]) auto
  have loop: "retail_mac_loop env (take 8 key) (chunks 8 (pad_to_block (data @ [0x80]))) (replicate 8 0) = Ok ?y"
    using retail_mac_loop_eq [OF assms(1), of "take 8 key" "chunks 8 (iso7816_pad data)" "replicate 8 0"]
      assms(2) pad_blocks(1) [of data] by (simp add: iso7816_pad_def)
  have l: "length (D (drop 8 key) ?y) = 8" using assms(2) y by (intro block_cipherD(2) [OF bc]) simp
  then show "length (mac_alg3 E D key data) = 8"
    using assms(2) by (simp add: mac_alg3_def block_cipherD [OF bc])
  have k: "slice key 0 8 = Ok (take 8 key)" "slice key 8 16 = Ok (drop 8 key)" using assms(2) by (simp_all add: slice_def)
  have d: "tdes_cbc_decrypt env (repeated (drop 8 key)) (replicate 8 0) ?y = Ok (D (drop 8 key) ?y)"
    using single_des(2) [OF assms(1) _ y] assms(2) by simp
  have e: "tdes_cbc_encrypt env (repeated (take 8 key)) (replicate 8 0) (D (drop 8 key) ?y)
      = Ok (E (take 8 key) (D (drop 8 key) ?y))"
    using single_des(1) [OF assms(1) _ l] assms(2) by simp
  show "retail_mac env key data = Ok (mac_alg3 E D key data)"
    by (simp only: retail_mac_def assms(2) k rbind.simps ensure_True loop d e mac_alg3_def Let_def not_not refl)
      
qed

lemma count_ones_flip: "count_ones (b XOR 1) = (if bit b 0 then count_ones b - 1 else count_ones b + 1)"
proof -
  have "[0..<8] = 0 # [1..<8 :: nat]" by (simp add: upt_conv_Cons)
  moreover have "filter (bit (b XOR 1)) [1..<8] = filter (bit b) [1..<8]"
    by (rule filter_cong) (auto simp: bit_xor_iff bit_1_iff)
  ultimately show ?thesis by (simp add: count_ones_def bit_xor_iff)
qed

lemma count_ones_pos: "bit b 0 \<Longrightarrow> 0 < count_ones b"
proof -
  assume "bit b 0"
  moreover have "[0..<8] = 0 # [1..<8 :: nat]" by (simp add: upt_conv_Cons)
  ultimately show ?thesis by (simp add: count_ones_def)
qed

lemma parity_byte: "odd (count_ones (if count_ones b mod 2 = 0 then b XOR 1 else b))"
proof (cases "even (count_ones b)")
  case True
  then show ?thesis using count_ones_pos [of b] by (cases "bit b 0") (simp_all add: count_ones_flip)
qed (simp add: odd_iff_mod_2_eq_one)

lemma adjust_parity_odd: "\<forall>b \<in> set (adjust_parity key). odd (count_ones b)"
  unfolding adjust_parity_def set_map using parity_byte by blast

lemma length_adjust_parity [simp]: "length (adjust_parity key) = length key"
  by (simp add: adjust_parity_def)

end
