(* ===== verification/RustStr.thy ===== *)
theory RustStr
  imports Prelude
begin

text \<open>
  Rust's \<open>str\<close> as far as the modelled code uses it. A string is the list of its Unicode scalar
  values; lengths and slice bounds count UTF-8 bytes, as in Rust, and a slice that does not fall
  on character boundaries panics. On ASCII strings all of it is ordinary list processing, which
  is what the lemmas at the end say.
\<close>

type_synonym ustr = "nat list"

definition lit :: "string \<Rightarrow> ustr" where
  "lit s = map of_char s"

definition utf8_len :: "nat \<Rightarrow> nat" where
  "utf8_len c = (if c < 0x80 then 1 else if c < 0x800 then 2 else if c < 0x10000 then 3 else 4)"

definition utf8_encode :: "nat \<Rightarrow> bytes" where
  "utf8_encode c =
     (if c < 0x80 then [of_nat c]
      else if c < 0x800 then [of_nat (0xC0 + c div 64), of_nat (0x80 + c mod 64)]
      else if c < 0x10000 then
        [of_nat (0xE0 + c div 4096), of_nat (0x80 + c div 64 mod 64), of_nat (0x80 + c mod 64)]
      else
        [of_nat (0xF0 + c div 262144), of_nat (0x80 + c div 4096 mod 64),
         of_nat (0x80 + c div 64 mod 64), of_nat (0x80 + c mod 64)])"

text \<open>\<open>str::len\<close> and \<open>str::as_bytes\<close>.\<close>

definition str_len :: "ustr \<Rightarrow> nat" where
  "str_len s = sum_list (map utf8_len s)"

definition as_bytes :: "ustr \<Rightarrow> bytes" where
  "as_bytes s = concat (map utf8_encode s)"

text \<open>
  \<open>str::from_utf8\<close>: the shortest form of every scalar value and nothing else. \<open>utf8_scalar\<close> is
  the code point that a lead byte and its continuation bytes spell; comparing with the encoding
  rejects overlong forms and bad continuation bytes.
\<close>

definition is_scalar :: "nat \<Rightarrow> bool" where
  "is_scalar c \<longleftrightarrow> c < 0xD800 \<or> (0xE000 \<le> c \<and> c < 0x110000)"

definition utf8_width :: "u8 \<Rightarrow> nat" where
  "utf8_width b = (if b < 0x80 then 1 else if b < 0xE0 then 2 else if b < 0xF0 then 3 else 4)"

definition utf8_scalar :: "bytes \<Rightarrow> nat" where
  "utf8_scalar bs =
     (case map unat bs of
        [a] \<Rightarrow> a
      | [a, b] \<Rightarrow> (a mod 32) * 64 + b mod 64
      | [a, b, c] \<Rightarrow> (a mod 16) * 4096 + (b mod 64) * 64 + c mod 64
      | [a, b, c, d] \<Rightarrow> (a mod 8) * 262144 + (b mod 64) * 4096 + (c mod 64) * 64 + d mod 64
      | _ \<Rightarrow> 0x110000)"

definition utf8_first :: "bytes \<Rightarrow> nat option" where
  "utf8_first bs =
     (let chunk = take (utf8_width (hd bs)) bs; c = utf8_scalar chunk in
      if is_scalar c \<and> utf8_encode c = chunk then Some c else None)"

function from_utf8 :: "bytes \<Rightarrow> ustr option" where
  "from_utf8 bs =
     (if bs = [] then Some []
      else case utf8_first bs of
          None \<Rightarrow> None
        | Some c \<Rightarrow> map_option ((#) c) (from_utf8 (drop (utf8_width (hd bs)) bs)))"
  by auto
termination by (relation "measure length") (auto simp: utf8_width_def)

declare from_utf8.simps [simp del]

text \<open>\<open>&s[a..b]\<close>: the parts before and after a byte offset, if it is a character boundary.\<close>

primrec split_at_byte :: "ustr \<Rightarrow> nat \<Rightarrow> (ustr \<times> ustr) option" where
  "split_at_byte [] n = (if n = 0 then Some ([], []) else None)"
| "split_at_byte (c # cs) n =
     (if n = 0 then Some ([], c # cs)
      else if utf8_len c \<le> n then map_option (\<lambda>(p, q). (c # p, q)) (split_at_byte cs (n - utf8_len c))
      else None)"

definition str_slice :: "ustr \<Rightarrow> nat \<Rightarrow> nat \<Rightarrow> (ustr, 'e) result" where
  "str_slice s a b =
     (if a \<le> b then
        (case split_at_byte s b of
           None \<Rightarrow> Panic
         | Some (p, _) \<Rightarrow> (case split_at_byte p a of None \<Rightarrow> Panic | Some (_, q) \<Rightarrow> Ok q))
      else Panic)"

text \<open>Character classes, trimming, case mapping, \<open>replace\<close>, \<open>split\<close> and \<open>lines\<close>.\<close>

definition is_ascii :: "ustr \<Rightarrow> bool" where
  "is_ascii s \<longleftrightarrow> list_all (\<lambda>c. c < 128) s"

definition is_whitespace :: "nat \<Rightarrow> bool" where
  "is_whitespace c \<longleftrightarrow> (9 \<le> c \<and> c \<le> 13) \<or> c = 0x20 \<or> c = 0x85 \<or> c = 0xA0 \<or> c = 0x1680
     \<or> (0x2000 \<le> c \<and> c \<le> 0x200A) \<or> c = 0x2028 \<or> c = 0x2029 \<or> c = 0x202F \<or> c = 0x205F \<or> c = 0x3000"

definition is_ascii_digit :: "nat \<Rightarrow> bool" where
  "is_ascii_digit c \<longleftrightarrow> 48 \<le> c \<and> c \<le> 57"

definition is_ascii_uppercase :: "nat \<Rightarrow> bool" where
  "is_ascii_uppercase c \<longleftrightarrow> 65 \<le> c \<and> c \<le> 90"

definition is_ascii_lowercase :: "nat \<Rightarrow> bool" where
  "is_ascii_lowercase c \<longleftrightarrow> 97 \<le> c \<and> c \<le> 122"

definition is_ascii_alphanumeric :: "nat \<Rightarrow> bool" where
  "is_ascii_alphanumeric c \<longleftrightarrow> is_ascii_digit c \<or> is_ascii_uppercase c \<or> is_ascii_lowercase c"

definition trim_end_by :: "(nat \<Rightarrow> bool) \<Rightarrow> ustr \<Rightarrow> ustr" where
  "trim_end_by p s = rev (dropWhile p (rev s))"

definition trim :: "ustr \<Rightarrow> ustr" where
  "trim s = trim_end_by is_whitespace (dropWhile is_whitespace s)"

definition trim_end_matches :: "nat \<Rightarrow> ustr \<Rightarrow> ustr" where
  "trim_end_matches c s = trim_end_by (\<lambda>x. x = c) s"

definition ascii_upper :: "nat \<Rightarrow> nat" where
  "ascii_upper c = (if is_ascii_lowercase c then c - 32 else c)"

text \<open>
  \<open>str::to_uppercase\<close> maps each scalar value to a sequence; outside ASCII that is the Unicode
  table, the argument \<open>uni\<close>.
\<close>

definition to_uppercase :: "(nat \<Rightarrow> ustr) \<Rightarrow> ustr \<Rightarrow> ustr" where
  "to_uppercase uni s = concat (map (\<lambda>c. if c < 128 then [ascii_upper c] else uni c) s)"

definition replace_char :: "nat \<Rightarrow> nat \<Rightarrow> ustr \<Rightarrow> ustr" where
  "replace_char a b s = map (\<lambda>c. if c = a then b else c) s"

definition strip_prefix :: "ustr \<Rightarrow> ustr \<Rightarrow> ustr option" where
  "strip_prefix p s = (if take (length p) s = p then Some (drop (length p) s) else None)"

function str_split :: "ustr \<Rightarrow> ustr \<Rightarrow> ustr list" where
  "str_split pat s =
     (case s of
        [] \<Rightarrow> [[]]
      | c # cs \<Rightarrow>
          if pat \<noteq> [] \<and> take (length pat) s = pat then [] # str_split pat (drop (length pat) s)
          else (case str_split pat cs of [] \<Rightarrow> [[c]] | p # ps \<Rightarrow> (c # p) # ps))"
  by auto
termination by (relation "measure (\<lambda>(pat, s). length s)") auto

declare str_split.simps [simp del]

definition strip_cr :: "ustr \<Rightarrow> ustr" where
  "strip_cr l = (if l \<noteq> [] \<and> last l = 13 then butlast l else l)"

function str_lines :: "ustr \<Rightarrow> ustr list" where
  "str_lines s =
     (if s = [] then []
      else let l = takeWhile (\<lambda>c. c \<noteq> 10) s; r = dropWhile (\<lambda>c. c \<noteq> 10) s
           in if r = [] then [l] else strip_cr l # str_lines (tl r))"
  by auto
termination
proof (relation "measure length", simp, goal_cases)
  case (1 s x xa)
  then have "length xa \<le> length s" by (simp add: length_dropWhile_le)
  moreover from 1 have "0 < length s" by simp
  ultimately have "length xa - 1 < length s" by linarith
  then show ?case by (simp del: length_greater_0_conv)
qed

declare str_lines.simps [simp del]

text \<open>\<open>format!("{:<n}", s)\<close>: pad with spaces on the right to \<open>n\<close> characters.\<close>

definition pad_right :: "nat \<Rightarrow> ustr \<Rightarrow> ustr" where
  "pad_right n s = s @ replicate (n - length s) 32"

text \<open>The decimal text of a natural number.\<close>

fun dec_text :: "nat \<Rightarrow> ustr" where
  "dec_text n = (if n < 10 then [48 + n] else dec_text (n div 10) @ [48 + n mod 10])"

declare dec_text.simps [simp del]

subsection \<open>ASCII strings\<close>

lemma utf8_len_pos [simp]: "0 < utf8_len c" and utf8_len_ge: "Suc 0 \<le> utf8_len c"
  by (simp_all add: utf8_len_def)

lemma utf8_encode_length: "length (utf8_encode c) = utf8_len c"
  by (simp add: utf8_encode_def utf8_len_def)

lemma as_bytes_length: "length (as_bytes s) = str_len s"
  by (simp add: as_bytes_def str_len_def length_concat comp_def utf8_encode_length)

lemma as_bytes_append [simp]: "as_bytes (s @ t) = as_bytes s @ as_bytes t"
  by (simp add: as_bytes_def)

lemma is_ascii_simps [simp]:
  "is_ascii []" "is_ascii (c # s) \<longleftrightarrow> c < 128 \<and> is_ascii s"
  "is_ascii (s @ t) \<longleftrightarrow> is_ascii s \<and> is_ascii t"
  by (auto simp: is_ascii_def)

lemma is_ascii_set: "is_ascii s \<longleftrightarrow> (\<forall>c \<in> set s. c < 128)"
  by (simp add: is_ascii_def list_all_iff)

lemma ascii_len: "is_ascii s \<Longrightarrow> str_len s = length s"
  by (induction s) (auto simp: str_len_def utf8_len_def)

lemma ascii_bytes: "is_ascii s \<Longrightarrow> as_bytes s = map of_nat s"
  by (induction s) (auto simp: as_bytes_def utf8_encode_def)

lemma ascii_split_at:
  "is_ascii s \<Longrightarrow> split_at_byte s n = (if n \<le> length s then Some (take n s, drop n s) else None)"
proof (induction s arbitrary: n)
  case Nil
  then show ?case by simp
next
  case (Cons c s)
  then have "utf8_len c = 1" by (simp add: utf8_len_def)
  with Cons show ?case by (cases n) auto
qed

lemma is_ascii_take [simp]: "is_ascii s \<Longrightarrow> is_ascii (take n s)"
  by (auto simp: is_ascii_set dest: in_set_takeD)

lemma ascii_slice: "is_ascii s \<Longrightarrow> str_slice s a b = slice s a b"
  by (auto simp: str_slice_def slice_def ascii_split_at drop_take)

lemma trim_end_by_none: "s = [] \<or> \<not> p (last s) \<Longrightarrow> trim_end_by p s = s"
  by (cases s rule: rev_cases) (auto simp: trim_end_by_def)

lemma trim_none: "\<forall>c \<in> set s. \<not> is_whitespace c \<Longrightarrow> trim s = s"
  by (cases s) (auto simp: trim_def trim_end_by_none)

lemma set_trim_end_by: "set (trim_end_by p s) \<subseteq> set s"
  by (auto simp: trim_end_by_def dest: set_dropWhileD)

lemma trim_end_by_pad:
  "trim_end_by (\<lambda>x. x = c) s @ replicate (length s - length (trim_end_by (\<lambda>x. x = c) s)) c = s"
proof (induction s rule: rev_induct)
  case Nil
  then show ?case by (simp add: trim_end_by_def)
next
  case (snoc x s)
  show ?case
  proof (cases "x = c")
    case True
    then have t: "trim_end_by (\<lambda>x. x = c) (s @ [x]) = trim_end_by (\<lambda>x. x = c) s"
      by (simp add: trim_end_by_def)
    have "length (trim_end_by (\<lambda>x. x = c) s) \<le> length s"
      by (metis length_dropWhile_le length_rev trim_end_by_def)
    then have "length (s @ [x]) - length (trim_end_by (\<lambda>x. x = c) s)
        = Suc (length s - length (trim_end_by (\<lambda>x. x = c) s))"
      by simp
    with t snoc True show ?thesis
      by (simp only: replicate_Suc replicate_append_same [symmetric] append_assoc [symmetric])
  next
    case False
    then show ?thesis by (simp add: trim_end_by_def)
  qed
qed

lemma to_uppercase_fixed:
  "\<forall>c \<in> set s. c < 128 \<and> \<not> is_ascii_lowercase c \<Longrightarrow> to_uppercase uni s = s"
  by (induction s) (auto simp: to_uppercase_def ascii_upper_def)

lemma from_utf8_ascii: "is_ascii s \<Longrightarrow> from_utf8 (as_bytes s) = Some s"
proof (induction s)
  case (Cons c s)
  have c: "c < 128" and s: "is_ascii s" using Cons.prems by (simp_all add: is_ascii_def)
  have u: "unat (of_nat c :: u8) = c" using c by (simp add: unat_of_nat take_bit_nat_def)
  have e: "as_bytes (c # s) = of_nat c # as_bytes s" "utf8_encode c = [of_nat c]"
    using c by (simp_all add: utf8_encode_def as_bytes_def)
  have w: "utf8_width (of_nat c) = 1" using c u by (simp add: utf8_width_def word_less_nat_alt)
  have "utf8_first (of_nat c # as_bytes s) = Some c"
    using c by (simp add: utf8_first_def Let_def w e(2) utf8_scalar_def u is_scalar_def)
  then show ?case
    unfolding e(1) using Cons.IH [OF s] by (subst from_utf8.simps) (simp add: w)
qed (simp add: as_bytes_def from_utf8.simps)

end
