(* ===== verification/Mrz.thy ===== *)
theory Mrz
  imports RustStr
begin

text \<open>
  Machine readable zones (\<open>marty-verification/src/mrz\<close>): \<open>checksum.rs\<close>, the ICAO 9303 check
  digit, and \<open>parser.rs\<close>, the TD1, TD2 and TD3 parsers, the check digit validation of a parsed
  zone and the string the BAC keys are derived from. The Unicode uppercase table outside ASCII
  is the argument \<open>uni\<close>; the characters it may produce are unconstrained.
\<close>

subsection \<open>Check digits\<close>

definition WEIGHTS :: "nat list" where
  "WEIGHTS = [7, 3, 1]"

definition char_value :: "nat \<Rightarrow> nat" where
  "char_value c =
     (if c = 60 then 0
      else if 48 \<le> c \<and> c \<le> 57 then c - 48
      else if 65 \<le> c \<and> c \<le> 90 then c - 65 + 10
      else if 97 \<le> c \<and> c \<le> 122 then c - 97 + 10
      else 0)"

definition char_from_digit :: "nat \<Rightarrow> nat option" where
  "char_from_digit d = (if d < 10 then Some (48 + d) else None)"

text \<open>The sum is a \<open>u32\<close>, so it wraps at \<open>2 ^ 32\<close>.\<close>

definition compute_check_digit :: "ustr \<Rightarrow> nat" where
  "compute_check_digit input =
     (let sum = sum_list (map (\<lambda>(i, c). char_value c * (WEIGHTS ! (i mod 3))) (enumerate 0 input)) mod 2 ^ 32;
          digit = sum mod 10
      in (case char_from_digit digit of Some c \<Rightarrow> c | None \<Rightarrow> 48))"

definition validate_check_digit :: "ustr \<Rightarrow> nat \<Rightarrow> bool" where
  "validate_check_digit data check_digit \<longleftrightarrow> compute_check_digit data = check_digit"

definition compute_composite_check_digit :: "(ustr \<times> nat) list \<Rightarrow> nat" where
  "compute_composite_check_digit fields =
     compute_check_digit (concat (map (\<lambda>(data, check). data @ [check]) fields))"

definition compute_date_check_digit :: "ustr \<Rightarrow> nat" where
  "compute_date_check_digit date = compute_check_digit date"

definition compute_mrz_information :: "ustr \<Rightarrow> ustr \<Rightarrow> ustr \<Rightarrow> ustr" where
  "compute_mrz_information document_number date_of_birth date_of_expiry =
     (let doc_num = replace_char 32 60 (pad_right 9 document_number)
      in doc_num @ [compute_check_digit doc_num]
         @ date_of_birth @ [compute_check_digit date_of_birth]
         @ date_of_expiry @ [compute_check_digit date_of_expiry])"

subsection \<open>Formats and parsed zones\<close>

datatype MrzFormat = TD1 | TD2 | TD3

fun line_length :: "MrzFormat \<Rightarrow> nat" where
  "line_length TD1 = 30"
| "line_length TD2 = 36"
| "line_length TD3 = 44"

fun line_count :: "MrzFormat \<Rightarrow> nat" where
  "line_count TD1 = 3"
| "line_count TD2 = 2"
| "line_count TD3 = 2"

record Mrz =
  format :: MrzFormat
  document_type :: ustr
  issuing_country :: ustr
  surname :: ustr
  given_names :: ustr
  document_number :: ustr
  document_number_check :: nat
  nationality :: ustr
  date_of_birth :: ustr
  date_of_birth_check :: nat
  sex :: nat
  date_of_expiry :: ustr
  date_of_expiry_check :: nat
  optional_data :: ustr
  composite_check :: "nat option"
  raw_lines :: "ustr list"

text \<open>The messages of \<open>VerificationError::encoding_error\<close>, as data.\<close>

datatype MrzError =
    NoLines
  | UnknownFormat nat nat
  | WrongLineCount MrzFormat
  | InvalidCharacters nat
  | WrongLineLength MrzFormat nat
  | MissingLines MrzFormat

subsection \<open>Validation of the check digits of a zone\<close>

definition check_digit_at :: "ustr \<Rightarrow> nat \<Rightarrow> nat option" where
  "check_digit_at line index =
     (if index < length (as_bytes line) then Some (unat (as_bytes line ! index)) else None)"

definition unwrap_or :: "'a option \<Rightarrow> 'a \<Rightarrow> 'a" where
  "unwrap_or x d = (case x of Some v \<Rightarrow> v | None \<Rightarrow> d)"

text \<open>One conjunct \<open>validate_check_digit(&line[a..b], check_digit_at(line, k).unwrap_or('<'))\<close>
  of a \<open>&&\<close> chain: what follows it is evaluated only if it holds.\<close>

definition digit_ok :: "ustr \<Rightarrow> nat \<Rightarrow> nat \<Rightarrow> nat \<Rightarrow> (bool, MrzError) result \<Rightarrow> (bool, MrzError) result" where
  "digit_ok line a b k rest =
     rbind (str_slice line a b) (\<lambda>data.
     if validate_check_digit data (unwrap_or (check_digit_at line k) 60) then rest else Ok False)"

definition validate_td1_check_digits :: "ustr list \<Rightarrow> (bool, MrzError) result" where
  "validate_td1_check_digits lines =
     (case lines of
        [line1, line2, _] \<Rightarrow>
          rbind (str_slice line1 5 30) (\<lambda>c1.
          rbind (str_slice line2 0 7) (\<lambda>c2.
          rbind (str_slice line2 8 15) (\<lambda>c3.
          rbind (str_slice line2 18 29) (\<lambda>c4.
          let composite_data = c1 @ c2 @ c3 @ c4 in
          digit_ok line1 5 14 14 (digit_ok line2 0 6 6 (digit_ok line2 8 14 14
            (Ok (compute_check_digit composite_data = unwrap_or (check_digit_at line2 29) 60))))))))
      | _ \<Rightarrow> Ok False)"

definition validate_td2_check_digits :: "ustr list \<Rightarrow> (bool, MrzError) result" where
  "validate_td2_check_digits lines =
     (case lines of
        [_, line2] \<Rightarrow>
          rbind (str_slice line2 0 10) (\<lambda>c1.
          rbind (str_slice line2 13 20) (\<lambda>c2.
          rbind (str_slice line2 21 35) (\<lambda>c3.
          let composite_data = c1 @ c2 @ c3 in
          digit_ok line2 0 9 9 (digit_ok line2 13 19 19 (digit_ok line2 21 27 27
            (Ok (compute_check_digit composite_data = unwrap_or (check_digit_at line2 35) 60)))))))
      | _ \<Rightarrow> Ok False)"

definition validate_td3_check_digits :: "ustr list \<Rightarrow> (bool, MrzError) result" where
  "validate_td3_check_digits lines =
     (case lines of
        [_, line2] \<Rightarrow>
          rbind (str_slice line2 0 10) (\<lambda>c1.
          rbind (str_slice line2 13 20) (\<lambda>c2.
          rbind (str_slice line2 21 43) (\<lambda>c3.
          let composite_data = c1 @ c2 @ c3 in
          digit_ok line2 0 9 9 (digit_ok line2 13 19 19 (digit_ok line2 21 27 27 (digit_ok line2 28 42 42
            (Ok (compute_check_digit composite_data = unwrap_or (check_digit_at line2 43) 60))))))))
      | _ \<Rightarrow> Ok False)"

definition validate_check_digits :: "Mrz \<Rightarrow> (bool, MrzError) result" where
  "validate_check_digits m =
     (case format m of
        TD1 \<Rightarrow> validate_td1_check_digits (raw_lines m)
      | TD2 \<Rightarrow> validate_td2_check_digits (raw_lines m)
      | TD3 \<Rightarrow> validate_td3_check_digits (raw_lines m))"

definition mrz_information :: "Mrz \<Rightarrow> ustr" where
  "mrz_information m = compute_mrz_information (document_number m) (date_of_birth m) (date_of_expiry m)"

definition full_name :: "Mrz \<Rightarrow> ustr" where
  "full_name m = (if given_names m = [] then surname m else given_names m @ [32] @ surname m)"

subsection \<open>Parsing\<close>

definition mrz_char :: "nat \<Rightarrow> bool" where
  "mrz_char c \<longleftrightarrow> c = 60 \<or> is_ascii_alphanumeric c"

text \<open>The loop over the lines, from the line with index \<open>index\<close> on.\<close>

primrec validate_lines :: "MrzFormat \<Rightarrow> nat \<Rightarrow> ustr list \<Rightarrow> (unit, MrzError) result" where
  "validate_lines fmt index [] = Ok ()"
| "validate_lines fmt index (line # rest) =
     rbind (ensure (is_ascii line \<and> list_all (\<lambda>b. mrz_char (unat b)) (as_bytes line))
              (InvalidCharacters (index + 1))) (\<lambda>_.
     rbind (ensure (str_len line = line_length fmt) (WrongLineLength fmt (index + 1))) (\<lambda>_.
     validate_lines fmt (index + 1) rest))"

definition validate_line_structure :: "ustr list \<Rightarrow> MrzFormat \<Rightarrow> (unit, MrzError) result" where
  "validate_line_structure lines fmt =
     rbind (ensure (length lines = line_count fmt) (WrongLineCount fmt)) (\<lambda>_.
     validate_lines fmt 0 lines)"

definition detect_format :: "ustr list \<Rightarrow> (MrzFormat, MrzError) result" where
  "detect_format lines =
     (let line_count = length lines;
          first_line_len = (case lines of [] \<Rightarrow> 0 | l # _ \<Rightarrow> str_len l)
      in if line_count = 3 \<and> first_line_len = 30 then Ok TD1
         else if line_count = 2 \<and> first_line_len = 36 then Ok TD2
         else if line_count = 2 \<and> first_line_len = 44 then Ok TD3
         else if first_line_len = 44 then Ok TD3
         else if first_line_len = 36 then Ok TD2
         else if first_line_len = 30 then Ok TD1
         else Err (UnknownFormat line_count first_line_len))"

definition parse_name :: "ustr \<Rightarrow> ustr \<times> ustr" where
  "parse_name name_field =
     (let parts = str_split [60, 60] name_field;
          part = (\<lambda>i. if i < length parts then parts ! i else [])
      in (trim (replace_char 60 32 (part 0)), trim (replace_char 60 32 (part 1))))"

definition char_at :: "ustr \<Rightarrow> nat \<Rightarrow> nat option" where
  "char_at s i = (if i < length s then Some (s ! i) else None)"

definition parse_td1 :: "ustr list \<Rightarrow> (Mrz, MrzError) result" where
  "parse_td1 lines =
     rbind (ensure (\<not> length lines < 3) (MissingLines TD1)) (\<lambda>_.
     rbind (index_at lines 0) (\<lambda>line1.
     rbind (index_at lines 1) (\<lambda>line2.
     rbind (index_at lines 2) (\<lambda>line3.
     rbind (str_slice line1 0 2) (\<lambda>dt.
     rbind (str_slice line1 2 5) (\<lambda>country.
     rbind (str_slice line1 5 14) (\<lambda>number.
     rbind (str_slice line1 15 30) (\<lambda>optional_data_1.
     rbind (str_slice line2 0 6) (\<lambda>dob.
     rbind (str_slice line2 8 14) (\<lambda>doe.
     rbind (str_slice line2 15 18) (\<lambda>nat.
     rbind (str_slice line2 18 29) (\<lambda>optional_data_2.
     let (sn, gn) = parse_name line3 in
     Ok \<lparr>format = TD1, document_type = trim_end_matches 60 dt, issuing_country = country,
         surname = sn, given_names = gn, document_number = trim_end_matches 60 number,
         document_number_check = unwrap_or (char_at line1 14) 60, nationality = nat,
         date_of_birth = dob, date_of_birth_check = unwrap_or (char_at line2 6) 60,
         sex = unwrap_or (char_at line2 7) 60, date_of_expiry = doe,
         date_of_expiry_check = unwrap_or (char_at line2 14) 60,
         optional_data = trim_end_matches 60 optional_data_1 @ trim_end_matches 60 optional_data_2,
         composite_check = char_at line2 29, raw_lines = lines\<rparr>))))))))))))"

definition parse_td2 :: "ustr list \<Rightarrow> (Mrz, MrzError) result" where
  "parse_td2 lines =
     rbind (ensure (\<not> length lines < 2) (MissingLines TD2)) (\<lambda>_.
     rbind (index_at lines 0) (\<lambda>line1.
     rbind (index_at lines 1) (\<lambda>line2.
     rbind (str_slice line1 0 2) (\<lambda>dt.
     rbind (str_slice line1 2 5) (\<lambda>country.
     rbind (str_slice line1 5 36) (\<lambda>name.
     let (sn, gn) = parse_name name in
     rbind (str_slice line2 0 9) (\<lambda>number.
     rbind (str_slice line2 10 13) (\<lambda>nat.
     rbind (str_slice line2 13 19) (\<lambda>dob.
     rbind (str_slice line2 21 27) (\<lambda>doe.
     rbind (str_slice line2 28 35) (\<lambda>opt.
     Ok \<lparr>format = TD2, document_type = trim_end_matches 60 dt, issuing_country = country,
         surname = sn, given_names = gn, document_number = trim_end_matches 60 number,
         document_number_check = unwrap_or (char_at line2 9) 60, nationality = nat,
         date_of_birth = dob, date_of_birth_check = unwrap_or (char_at line2 19) 60,
         sex = unwrap_or (char_at line2 20) 60, date_of_expiry = doe,
         date_of_expiry_check = unwrap_or (char_at line2 27) 60,
         optional_data = trim_end_matches 60 opt,
         composite_check = char_at line2 35, raw_lines = lines\<rparr>)))))))))))"

definition parse_td3 :: "ustr list \<Rightarrow> (Mrz, MrzError) result" where
  "parse_td3 lines =
     rbind (ensure (\<not> length lines < 2) (MissingLines TD3)) (\<lambda>_.
     rbind (index_at lines 0) (\<lambda>line1.
     rbind (index_at lines 1) (\<lambda>line2.
     rbind (str_slice line1 0 2) (\<lambda>dt.
     rbind (str_slice line1 2 5) (\<lambda>country.
     rbind (str_slice line1 5 44) (\<lambda>name.
     let (sn, gn) = parse_name name in
     rbind (str_slice line2 0 9) (\<lambda>number.
     rbind (str_slice line2 10 13) (\<lambda>nat.
     rbind (str_slice line2 13 19) (\<lambda>dob.
     rbind (str_slice line2 21 27) (\<lambda>doe.
     rbind (str_slice line2 28 42) (\<lambda>opt.
     Ok \<lparr>format = TD3, document_type = trim_end_matches 60 dt, issuing_country = country,
         surname = sn, given_names = gn, document_number = trim_end_matches 60 number,
         document_number_check = unwrap_or (char_at line2 9) 60, nationality = nat,
         date_of_birth = dob, date_of_birth_check = unwrap_or (char_at line2 19) 60,
         sex = unwrap_or (char_at line2 20) 60, date_of_expiry = doe,
         date_of_expiry_check = unwrap_or (char_at line2 27) 60,
         optional_data = trim_end_matches 60 opt,
         composite_check = char_at line2 43, raw_lines = lines\<rparr>)))))))))))"

definition clean_lines :: "(nat \<Rightarrow> ustr) \<Rightarrow> ustr list \<Rightarrow> ustr list" where
  "clean_lines uni lines = filter (\<lambda>l. l \<noteq> []) (map (\<lambda>l. to_uppercase uni (trim l)) lines)"

definition parse_mrz :: "(nat \<Rightarrow> ustr) \<Rightarrow> ustr list \<Rightarrow> (Mrz, MrzError) result" where
  "parse_mrz uni input =
     (let lines = clean_lines uni input in
      rbind (ensure (lines \<noteq> []) NoLines) (\<lambda>_.
      rbind (detect_format lines) (\<lambda>fmt.
      rbind (validate_line_structure lines fmt) (\<lambda>_.
      case fmt of
        TD1 \<Rightarrow> parse_td1 lines
      | TD2 \<Rightarrow> parse_td2 lines
      | TD3 \<Rightarrow> parse_td3 lines))))"

definition parse_mrz_string :: "(nat \<Rightarrow> ustr) \<Rightarrow> ustr \<Rightarrow> (Mrz, MrzError) result" where
  "parse_mrz_string uni mrz_text = parse_mrz uni (str_lines mrz_text)"

subsection \<open>Well-formed zones\<close>

definition zone_ok :: "MrzFormat \<Rightarrow> ustr list \<Rightarrow> bool" where
  "zone_ok fmt lines \<longleftrightarrow> length lines = line_count fmt
     \<and> (\<forall>l \<in> set lines. length l = line_length fmt \<and> (\<forall>c \<in> set l. mrz_char c))"

lemma mrz_char_less: "mrz_char c \<Longrightarrow> c < 128"
  by (auto simp: mrz_char_def is_ascii_alphanumeric_def is_ascii_digit_def is_ascii_uppercase_def
      is_ascii_lowercase_def)

lemma mrz_line_ascii: "\<forall>c \<in> set l. mrz_char c \<Longrightarrow> is_ascii l"
  by (auto simp: is_ascii_set mrz_char_less)

lemma ascii_byte: "c < 128 \<Longrightarrow> unat (of_nat c :: u8) = c"
  by (simp add: unat_of_nat take_bit_nat_def)

lemma mrz_line_chars:
  "is_ascii l \<and> list_all (\<lambda>b. mrz_char (unat b)) (as_bytes l) \<longleftrightarrow> (\<forall>c \<in> set l. mrz_char c)"
proof (cases "is_ascii l")
  case True
  then have "list_all (\<lambda>b. mrz_char (unat b)) (as_bytes l) \<longleftrightarrow> (\<forall>c \<in> set l. mrz_char (unat (of_nat c :: u8)))"
    by (simp add: ascii_bytes list_all_iff)
  also have "\<dots> \<longleftrightarrow> (\<forall>c \<in> set l. mrz_char c)"
    using True by (intro ball_cong) (simp_all only: is_ascii_set ascii_byte)
  finally show ?thesis using True by simp
qed (use mrz_line_ascii in blast)

lemma validate_lines_Ok:
  "validate_lines fmt k lines = Ok u
     \<longleftrightarrow> (\<forall>l \<in> set lines. length l = line_length fmt \<and> (\<forall>c \<in> set l. mrz_char c))"
proof (induction lines arbitrary: k)
  case (Cons l lines)
  have "(is_ascii l \<and> list_all (\<lambda>b. mrz_char (unat b)) (as_bytes l)) \<and> str_len l = line_length fmt
      \<longleftrightarrow> length l = line_length fmt \<and> (\<forall>c \<in> set l. mrz_char c)"
    using mrz_line_chars [of l] ascii_len [of l] by auto
  with Cons show ?case by auto
qed simp

lemma validate_line_structure_Ok: "validate_line_structure lines fmt = Ok u \<longleftrightarrow> zone_ok fmt lines"
  by (simp add: validate_line_structure_def validate_lines_Ok zone_ok_def)

lemma validate_line_structure_not_Panic: "validate_line_structure lines fmt \<noteq> Panic"
proof -
  have "validate_lines fmt k lines \<noteq> Panic" for k
    by (induction lines arbitrary: k) (auto simp: rbind_eq_Panic)
  then show ?thesis by (simp add: validate_line_structure_def rbind_eq_Panic)
qed

lemma detect_format_zone: "zone_ok fmt lines \<Longrightarrow> detect_format lines = Ok fmt"
  by (cases fmt; cases lines)
    (auto simp: zone_ok_def detect_format_def Let_def ascii_len mrz_line_ascii)

lemma zone_lines:
  assumes "zone_ok fmt lines"
  obtains l1 l2 l3 where "fmt = TD1" "lines = [l1, l2, l3]" "length l1 = 30" "length l2 = 30" "length l3 = 30"
      "is_ascii l1" "is_ascii l2" "is_ascii l3"
    | l1 l2 where "fmt = TD2" "lines = [l1, l2]" "length l1 = 36" "length l2 = 36" "is_ascii l1" "is_ascii l2"
    | l1 l2 where "fmt = TD3" "lines = [l1, l2]" "length l1 = 44" "length l2 = 44" "is_ascii l1" "is_ascii l2"
  using assms
  by (cases fmt) (auto simp: zone_ok_def length_Suc_conv numeral_3_eq_3 numeral_2_eq_2 mrz_line_ascii)

lemmas mrz_eval = ascii_slice slice_def check_digit_at_def char_at_def unwrap_or_def index_at_def

definition parse_zone :: "MrzFormat \<Rightarrow> ustr list \<Rightarrow> (Mrz, MrzError) result" where
  "parse_zone fmt lines = (case fmt of TD1 \<Rightarrow> parse_td1 lines | TD2 \<Rightarrow> parse_td2 lines | TD3 \<Rightarrow> parse_td3 lines)"

lemma parse_zone_Ok:
  assumes "zone_ok fmt lines"
  shows "\<exists>m. parse_zone fmt lines = Ok m \<and> format m = fmt \<and> raw_lines m = lines"
  using assms
proof (cases rule: zone_lines)
  case (1 l1 l2 l3)
  then show ?thesis by (simp add: parse_zone_def parse_td1_def mrz_eval split: prod.splits)
next
  case (2 l1 l2)
  then show ?thesis by (simp add: parse_zone_def parse_td2_def mrz_eval split: prod.splits)
next
  case (3 l1 l2)
  then show ?thesis by (simp add: parse_zone_def parse_td3_def mrz_eval split: prod.splits)
qed

lemma parse_mrz_zone:
  "parse_mrz uni input =
     (let lines = clean_lines uni input in
      rbind (ensure (lines \<noteq> []) NoLines) (\<lambda>_.
      rbind (detect_format lines) (\<lambda>fmt.
      rbind (validate_line_structure lines fmt) (\<lambda>_. parse_zone fmt lines))))"
  by (simp add: parse_mrz_def parse_zone_def)

lemma parse_mrz_Ok:
  "parse_mrz uni input = Ok m
     \<longleftrightarrow> zone_ok (format m) (clean_lines uni input) \<and> parse_zone (format m) (clean_lines uni input) = Ok m"
proof
  assume "parse_mrz uni input = Ok m"
  then obtain fmt where "zone_ok fmt (clean_lines uni input)" "parse_zone fmt (clean_lines uni input) = Ok m"
    by (auto simp: parse_mrz_zone Let_def validate_line_structure_Ok)
  with parse_zone_Ok show "zone_ok (format m) (clean_lines uni input) \<and> parse_zone (format m) (clean_lines uni input) = Ok m"
    by fastforce
next
  assume r: "zone_ok (format m) (clean_lines uni input) \<and> parse_zone (format m) (clean_lines uni input) = Ok m"
  moreover from r have "clean_lines uni input \<noteq> []" by (cases "format m") (auto simp: zone_ok_def)
  ultimately show "parse_mrz uni input = Ok m"
    by (auto simp: parse_mrz_zone Let_def detect_format_zone validate_line_structure_Ok)
qed

lemma validate_check_digits_zone:
  assumes "zone_ok (format m) (raw_lines m)"
  shows "validate_check_digits m \<noteq> Panic" and "validate_check_digits m \<noteq> Err e"
  using assms
  by (cases rule: zone_lines;
      simp add: validate_check_digits_def validate_td1_check_digits_def validate_td2_check_digits_def
        validate_td3_check_digits_def digit_ok_def ascii_slice slice_def Let_def)+

text \<open>
  C34: The MRZ parser is total and accepts exactly the well-formed zones: on every input, in any
  encoding, it returns a zone (when the cleaned lines have the count, length and alphabet of one
  of the three formats) or an error (when they do not); it never panics, and validating the check
  digits of a parsed zone never panics either.
\<close>

theorem parse_mrz_accepts_exactly_zones:
  "case parse_mrz uni input of
     Ok m \<Rightarrow> zone_ok (format m) (clean_lines uni input) \<and> raw_lines m = clean_lines uni input
        \<and> (\<exists>b. validate_check_digits m = Ok b)
   | Err e \<Rightarrow> \<not> (\<exists>fmt. zone_ok fmt (clean_lines uni input))
   | Panic \<Rightarrow> False"
proof (cases "\<exists>fmt. zone_ok fmt (clean_lines uni input)")
  case True
  then obtain fmt m where f: "zone_ok fmt (clean_lines uni input)" "parse_zone fmt (clean_lines uni input) = Ok m"
    "format m = fmt" "raw_lines m = clean_lines uni input"
    using parse_zone_Ok by metis
  then have "parse_mrz uni input = Ok m" by (simp add: parse_mrz_Ok)
  moreover have "\<exists>b. validate_check_digits m = Ok b"
    using validate_check_digits_zone [of m] f
    by (cases "validate_check_digits m") auto
  ultimately show ?thesis using f by simp
next
  case False
  have "detect_format lines \<noteq> Panic" for lines by (simp add: detect_format_def Let_def)
  with False have "parse_mrz uni input \<noteq> Panic"
    by (auto simp: parse_mrz_zone Let_def rbind_eq_Panic validate_line_structure_not_Panic
        validate_line_structure_Ok)
  with False show ?thesis by (auto simp: parse_mrz_Ok split: result.splits)
qed

subsection \<open>What the check digit detects\<close>

definition weighted_sum :: "ustr \<Rightarrow> nat" where
  "weighted_sum s = (\<Sum>i < length s. char_value (s ! i) * (WEIGHTS ! (i mod 3)))"

lemma weights: "WEIGHTS ! (i mod 3) = (if i mod 3 = 0 then 7 else if i mod 3 = 1 then 3 else 1)"
proof -
  have "i mod 3 = 0 \<or> i mod 3 = 1 \<or> i mod 3 = 2" by presburger
  then show ?thesis by (auto simp: WEIGHTS_def)
qed

lemma char_value_le: "char_value c \<le> 35"
  unfolding char_value_def by (simp split: if_split) linarith

lemma weighted_sum_le: "weighted_sum s \<le> 245 * length s"
proof -
  have "char_value (s ! i) * (WEIGHTS ! (i mod 3)) \<le> 35 * 7" for i
    by (rule mult_mono) (auto simp: char_value_le weights)
  then have "weighted_sum s \<le> (\<Sum>i < length s. 245)"
    unfolding weighted_sum_def by (intro sum_mono) simp
  then show ?thesis by simp
qed

lemma compute_check_digit_eq:
  assumes "length s \<le> 17000000"
  shows "compute_check_digit s = 48 + weighted_sum s mod 10"
proof -
  have "sum_list (map (\<lambda>(i, c). char_value c * (WEIGHTS ! (i mod 3))) (enumerate 0 s)) = weighted_sum s"
    by (simp add: weighted_sum_def sum_list_sum_nth nth_enumerate_eq atLeast0LessThan)
  moreover have "weighted_sum s < 2 ^ 32" using weighted_sum_le [of s] assms by simp
  ultimately show ?thesis
    by (simp add: compute_check_digit_def char_from_digit_def Let_def)
qed

lemma weighted_sum_remove:
  assumes "i < length s"
  shows "weighted_sum s = char_value (s ! i) * (WEIGHTS ! (i mod 3))
           + (\<Sum>j \<in> {..<length s} - {i}. char_value (s ! j) * (WEIGHTS ! (j mod 3)))"
  unfolding weighted_sum_def using assms by (subst sum.remove [of _ i]) auto

lemma weighted_sum_update:
  assumes "i < length s"
  obtains r where "\<And>c. weighted_sum (s[i := c]) = char_value c * (WEIGHTS ! (i mod 3)) + r"
proof
  fix c
  have "(\<Sum>j \<in> {..<length s} - {i}. char_value (s[i := c] ! j) * (WEIGHTS ! (j mod 3)))
      = (\<Sum>j \<in> {..<length s} - {i}. char_value (s ! j) * (WEIGHTS ! (j mod 3)))"
    by (rule sum.cong) auto
  with assms show "weighted_sum (s[i := c]) = char_value c * (WEIGHTS ! (i mod 3))
      + (\<Sum>j \<in> {..<length s} - {i}. char_value (s ! j) * (WEIGHTS ! (j mod 3)))"
    using weighted_sum_remove [of i "s[i := c]"] by simp
qed

lemma weighted_sum_update2:
  assumes "i < length s" and "j < length s" and "i \<noteq> j"
  obtains r where "\<And>c d. weighted_sum (s[i := c, j := d])
      = char_value c * (WEIGHTS ! (i mod 3)) + char_value d * (WEIGHTS ! (j mod 3)) + r"
proof
  fix c d
  let ?t = "s[i := c, j := d]"
  have "weighted_sum ?t = char_value c * (WEIGHTS ! (i mod 3))
      + (\<Sum>k \<in> {..<length s} - {i}. char_value (?t ! k) * (WEIGHTS ! (k mod 3)))"
    using assms weighted_sum_remove [of i ?t] by simp
  also have "(\<Sum>k \<in> {..<length s} - {i}. char_value (?t ! k) * (WEIGHTS ! (k mod 3)))
      = char_value d * (WEIGHTS ! (j mod 3))
        + (\<Sum>k \<in> {..<length s} - {i} - {j}. char_value (?t ! k) * (WEIGHTS ! (k mod 3)))"
    using assms by (subst sum.remove [of _ j]) auto
  also have "(\<Sum>k \<in> {..<length s} - {i} - {j}. char_value (?t ! k) * (WEIGHTS ! (k mod 3)))
      = (\<Sum>k \<in> {..<length s} - {i} - {j}. char_value (s ! k) * (WEIGHTS ! (k mod 3)))"
    by (rule sum.cong) auto
  finally show "weighted_sum ?t = char_value c * (WEIGHTS ! (i mod 3)) + char_value d * (WEIGHTS ! (j mod 3))
      + (\<Sum>k \<in> {..<length s} - {i} - {j}. char_value (s ! k) * (WEIGHTS ! (k mod 3)))"
    by simp
qed

lemma nat_mod_eq_dvd: "(x :: nat) mod n = y mod n \<longleftrightarrow> int n dvd int x - int y"
  by (metis mod_eq_dvd_iff of_nat_eq_iff zmod_int)

lemma ten_dvd:
  "10 dvd k * 7 \<longleftrightarrow> 10 dvd k" "10 dvd k * 3 \<longleftrightarrow> 10 dvd k"
  "10 dvd k * 4 \<longleftrightarrow> 5 dvd k" "10 dvd k * 2 \<longleftrightarrow> 5 dvd k" "10 dvd - (k * 6) \<longleftrightarrow> 5 dvd (k :: int)"
  by presburger+

lemma weight_cancel:
  "(a * (WEIGHTS ! (i mod 3)) + r) mod 10 = (b * (WEIGHTS ! (i mod 3)) + r) mod 10 \<longleftrightarrow> a mod 10 = b mod 10"
proof -
  have "(a * 7 + r) mod 10 = (b * 7 + r) mod 10 \<longleftrightarrow> a mod 10 = b mod 10"
    "(a * 3 + r) mod 10 = (b * 3 + r) mod 10 \<longleftrightarrow> a mod 10 = b mod 10"
    "(a * 1 + r) mod 10 = (b * 1 + r) mod 10 \<longleftrightarrow> a mod 10 = b mod 10"
    using ten_dvd [of "int a - int b"] by (simp_all add: nat_mod_eq_dvd algebra_simps)
  then show ?thesis unfolding weights by simp
qed

lemma weight_swap:
  "(a * (WEIGHTS ! (i mod 3)) + b * (WEIGHTS ! (Suc i mod 3)) + r) mod 10
     = (b * (WEIGHTS ! (i mod 3)) + a * (WEIGHTS ! (Suc i mod 3)) + r) mod 10 \<longleftrightarrow> a mod 5 = b mod 5"
proof -
  have swap: "(a * 7 + b * 3 + r) mod 10 = (b * 7 + a * 3 + r) mod 10 \<longleftrightarrow> a mod 5 = b mod 5"
    "(a * 3 + b * 1 + r) mod 10 = (b * 3 + a * 1 + r) mod 10 \<longleftrightarrow> a mod 5 = b mod 5"
    "(a * 1 + b * 7 + r) mod 10 = (b * 1 + a * 7 + r) mod 10 \<longleftrightarrow> a mod 5 = b mod 5"
    using ten_dvd [of "int a - int b"] by (simp_all add: nat_mod_eq_dvd algebra_simps)
  have "i mod 3 = 0 \<and> Suc i mod 3 = 1 \<or> i mod 3 = 1 \<and> Suc i mod 3 = 2 \<or> i mod 3 = 2 \<and> Suc i mod 3 = 0"
    by presburger
  with swap show ?thesis unfolding weights by (elim disjE conjE) simp_all
qed

text \<open>
  C35: The check digit detects what ICAO 9303 relies on it for. Replacing one character goes
  unnoticed exactly when the two characters have values congruent modulo 10, and exchanging two
  neighbours exactly when their values are congruent modulo 5; every other such error changes the
  digit. (Up to 17 million characters, where the 32-bit sum cannot wrap.)
\<close>

theorem check_digit_detects_errors:
  assumes "length s \<le> 17000000"
  shows "(i < length s \<longrightarrow>
      (validate_check_digit (s[i := c]) (compute_check_digit s) \<longleftrightarrow> char_value c mod 10 = char_value (s ! i) mod 10))
    \<and> (Suc i < length s \<longrightarrow>
      (validate_check_digit (s[i := s ! Suc i, Suc i := s ! i]) (compute_check_digit s)
        \<longleftrightarrow> char_value (s ! i) mod 5 = char_value (s ! Suc i) mod 5))"
proof (intro conjI impI)
  assume i: "i < length s"
  then obtain r where r: "\<And>c. weighted_sum (s[i := c]) = char_value c * (WEIGHTS ! (i mod 3)) + r"
    using weighted_sum_update by blast
  from r [of "s ! i"] r [of c] assms weight_cancel [of "char_value c" i r "char_value (s ! i)"]
  show "validate_check_digit (s[i := c]) (compute_check_digit s) \<longleftrightarrow> char_value c mod 10 = char_value (s ! i) mod 10"
    by (simp add: validate_check_digit_def compute_check_digit_eq)
next
  assume i: "Suc i < length s"
  then have "i < length s" "i \<noteq> Suc i" by simp_all
  with i obtain r where r: "\<And>c d. weighted_sum (s[i := c, Suc i := d])
      = char_value c * (WEIGHTS ! (i mod 3)) + char_value d * (WEIGHTS ! (Suc i mod 3)) + r"
    using weighted_sum_update2 by blast
  from r [of "s ! i" "s ! Suc i"] r [of "s ! Suc i" "s ! i"] assms
    weight_swap [of "char_value (s ! i)" i "char_value (s ! Suc i)" r]
  show "validate_check_digit (s[i := s ! Suc i, Suc i := s ! i]) (compute_check_digit s)
      \<longleftrightarrow> char_value (s ! i) mod 5 = char_value (s ! Suc i) mod 5"
    by (auto simp: validate_check_digit_def compute_check_digit_eq)
qed

theorem check_digit_detects_errors_witness:
  "\<not> validate_check_digit ((lit ''L898902C3'')[1 := 57]) (compute_check_digit (lit ''L898902C3''))
   \<and> \<not> validate_check_digit ((lit ''L898902C3'')[1 := lit ''L898902C3'' ! Suc 1, Suc 1 := lit ''L898902C3'' ! 1])
        (compute_check_digit (lit ''L898902C3''))"
proof -
  have "length (lit ''L898902C3'') \<le> 17000000" by (simp add: lit_def)
  moreover have "1 < length (lit ''L898902C3'')" "Suc 1 < length (lit ''L898902C3'')"
    "char_value 57 mod 10 \<noteq> char_value (lit ''L898902C3'' ! 1) mod 10"
    "char_value (lit ''L898902C3'' ! 1) mod 5 \<noteq> char_value (lit ''L898902C3'' ! Suc 1) mod 5"
    by code_simp+
  ultimately show ?thesis
    using check_digit_detects_errors [of "lit ''L898902C3''" 1 57] by blast
qed

subsection \<open>Re-parsing, field layout and the BAC string\<close>

lemma clean_zone:
  assumes "zone_ok fmt lines" and "\<forall>l \<in> set lines. \<forall>c \<in> set l. \<not> is_ascii_lowercase c"
  shows "clean_lines uni lines = lines"
proof -
  have "to_uppercase uni (trim l) = l \<and> l \<noteq> []" if l: "l \<in> set lines" for l
  proof -
    have c: "\<forall>c \<in> set l. mrz_char c" "length l = line_length fmt" using assms(1) l by (auto simp: zone_ok_def)
    then have "\<forall>c \<in> set l. \<not> is_whitespace c"
      by (auto simp: mrz_char_def is_whitespace_def is_ascii_alphanumeric_def is_ascii_digit_def
          is_ascii_uppercase_def is_ascii_lowercase_def)
    then have "trim l = l" by (rule trim_none)
    moreover have "l \<noteq> []" using c(2) by (cases fmt) auto
    ultimately show ?thesis using assms(2) l c(1) by (auto intro!: to_uppercase_fixed simp: mrz_char_less)
  qed
  then have "map (\<lambda>l. to_uppercase uni (trim l)) lines = lines" "filter (\<lambda>l. l \<noteq> []) lines = lines"
    by (simp_all add: map_idI filter_id_conv)
  then show ?thesis by (simp add: clean_lines_def)
qed

lemma to_uppercase_no_lower:
  assumes "\<forall>c. \<forall>x \<in> set (uni c). \<not> is_ascii_lowercase x" and "x \<in> set (to_uppercase uni s)"
  shows "\<not> is_ascii_lowercase x"
  using assms by (auto simp: to_uppercase_def ascii_upper_def is_ascii_lowercase_def split: if_splits)

text \<open>
  Parsing normalises once and for all: the lines a parsed zone keeps parse again to the same
  zone, whatever the case, surrounding white space and blank lines of the first input were. (The
  Unicode uppercase table is assumed never to produce a lowercase ASCII letter.)
\<close>

theorem parse_mrz_idempotent:
  assumes "\<forall>c. \<forall>x \<in> set (uni c). \<not> is_ascii_lowercase x" and "parse_mrz uni input = Ok m"
  shows "parse_mrz uni (raw_lines m) = Ok m"
proof -
  let ?lines = "clean_lines uni input"
  have ok: "zone_ok (format m) ?lines" "parse_zone (format m) ?lines = Ok m"
    using assms(2) by (simp_all add: parse_mrz_Ok)
  then have raw: "raw_lines m = ?lines" using parse_zone_Ok by fastforce
  have "\<forall>l \<in> set ?lines. \<forall>c \<in> set l. \<not> is_ascii_lowercase c"
    using to_uppercase_no_lower [OF assms(1)] by (auto simp: clean_lines_def)
  with ok raw show ?thesis by (simp add: parse_mrz_Ok clean_zone)
qed

definition sample_td3 :: "ustr list" where
  "sample_td3 =
     [lit ''P<UTOERIKSSON<<ANNA<MARIA<<<<<<<<<<<<<<<<<<<'', lit ''L898902C36UTO7408122F1204159ZE184226B<<<<<10'']"

definition sample_mrz :: Mrz where
  "sample_mrz =
     \<lparr>format = TD3, document_type = lit ''P'', issuing_country = lit ''UTO'', surname = lit ''ERIKSSON'',
      given_names = lit ''ANNA MARIA'', document_number = lit ''L898902C3'', document_number_check = 54,
      nationality = lit ''UTO'', date_of_birth = lit ''740812'', date_of_birth_check = 50, sex = 70,
      date_of_expiry = lit ''120415'', date_of_expiry_check = 57, optional_data = lit ''ZE184226B'',
      composite_check = Some 48, raw_lines = sample_td3\<rparr>"

lemma sample_parses:
  "parse_mrz (\<lambda>c. []) [[32] @ lit ''p<utoeriksson<<anna<maria<<<<<<<<<<<<<<<<<<<'', [], sample_td3 ! 1]
     = Ok sample_mrz"
  "validate_check_digits sample_mrz = Ok True"
  by code_simp+

theorem parse_mrz_idempotent_witness: "parse_mrz (\<lambda>c. []) (raw_lines sample_mrz) = Ok sample_mrz"
  by (rule parse_mrz_idempotent [OF _ sample_parses(1)]) simp

lemma pad_document_number:
  assumes "length n = 9" and "\<forall>c \<in> set n. mrz_char c"
  shows "replace_char 32 60 (pad_right 9 (trim_end_matches 60 n)) = n"
proof -
  let ?t = "trim_end_matches 60 n"
  have t: "?t @ replicate (9 - length ?t) 60 = n"
    using trim_end_by_pad [of 60 n] assms(1) by (simp add: trim_end_matches_def)
  have "c \<noteq> 32" if "c \<in> set ?t" for c
  proof -
    have "mrz_char c"
      using that set_trim_end_by [of "\<lambda>x. x = 60" n] assms(2) by (auto simp: trim_end_matches_def)
    then show ?thesis
      by (auto simp: mrz_char_def is_ascii_alphanumeric_def is_ascii_digit_def
          is_ascii_uppercase_def is_ascii_lowercase_def)
  qed
  then have "replace_char 32 60 ?t = ?t" by (simp add: replace_char_def map_idI)
  with t show ?thesis by (simp add: pad_right_def replace_char_def)
qed

lemma zone_part_chars:
  "zone_ok fmt lines \<Longrightarrow> l \<in> set lines \<Longrightarrow> \<forall>c \<in> set (take a (drop b l)). mrz_char c"
  by (auto simp: zone_ok_def dest!: in_set_takeD in_set_dropD)

lemma check_digit_at_ascii:
  "is_ascii l \<Longrightarrow> i < length l \<Longrightarrow> unwrap_or (check_digit_at l i) d = l ! i"
  by (auto simp: check_digit_at_def unwrap_or_def ascii_bytes ascii_byte is_ascii_set)

lemma digit_ok_True:
  assumes "is_ascii l" and "k < length l" and "a \<le> k" and "digit_ok l a k k rest = Ok True"
  shows "take (k - a) (drop a l) @ [compute_check_digit (take (k - a) (drop a l))] = take (Suc k - a) (drop a l)"
    and "rest = Ok True"
proof -
  have v: "compute_check_digit (take (k - a) (drop a l)) = l ! k" "rest = Ok True"
    using assms
    by (auto simp: digit_ok_def ascii_slice slice_def validate_check_digit_def check_digit_at_ascii
        split: if_splits)
  then show "rest = Ok True" by simp
  have "take (Suc k - a) (drop a l) = take (Suc (k - a)) (drop a l)" using assms(3) by (simp add: Suc_diff_le)
  also have "\<dots> = take (k - a) (drop a l) @ [l ! k]"
    using assms(2,3) by (subst take_Suc_conv_app_nth) auto
  finally show "take (k - a) (drop a l) @ [compute_check_digit (take (k - a) (drop a l))] = take (Suc k - a) (drop a l)"
    using v by simp
qed

lemma mrz_information_eq:
  assumes "length n = 9" and "\<forall>c \<in> set n. mrz_char c"
  shows "compute_mrz_information (trim_end_matches 60 n) dob doe
     = n @ [compute_check_digit n] @ dob @ [compute_check_digit dob] @ doe @ [compute_check_digit doe]"
  by (simp add: compute_mrz_information_def pad_document_number [OF assms])

lemma chained_digits:
  assumes "digit_ok l 0 9 9 (digit_ok l 13 19 19 (digit_ok l 21 27 27 rest)) = Ok True"
    and "is_ascii l" and "35 < length l" and "\<forall>c \<in> set l. mrz_char c"
  shows "compute_mrz_information (trim_end_matches 60 (take 9 l)) (take 6 (drop 13 l)) (take 6 (drop 21 l))
     = take 10 l @ take 7 (drop 13 l) @ take 7 (drop 21 l)"
proof -
  note d1 = digit_ok_True [OF assms(2) _ _ assms(1)]
  note d2 = digit_ok_True [OF assms(2) _ _ d1(2)]
  note d3 = digit_ok_True(1) [OF assms(2) _ _ d2(2)]
  have "compute_mrz_information (trim_end_matches 60 (take 9 l)) (take 6 (drop 13 l)) (take 6 (drop 21 l))
      = take 9 l @ [compute_check_digit (take 9 l)]
        @ take 6 (drop 13 l) @ [compute_check_digit (take 6 (drop 13 l))]
        @ take 6 (drop 21 l) @ [compute_check_digit (take 6 (drop 21 l))]"
    using assms(3,4) by (intro mrz_information_eq) (auto dest: in_set_takeD)
  then show ?thesis using d1(1) d2(1) d3 assms(3) by simp
qed

lemma td1_information:
  assumes zone: "zone_ok TD1 [l1, l2, l3]" and parsed: "parse_zone TD1 [l1, l2, l3] = Ok m"
    and valid: "validate_check_digits m = Ok True"
  shows "mrz_information m = take 10 (drop 5 l1) @ take 7 l2 @ take 7 (drop 8 l2)"
proof -
  have l: "length l1 = 30" "length l2 = 30" "is_ascii l1" "is_ascii l2"
    using zone by (auto simp: zone_ok_def mrz_line_ascii)
  have raw: "format m = TD1" "raw_lines m = [l1, l2, l3]" using parse_zone_Ok [OF zone] parsed by auto
  from valid raw l have d: "digit_ok l1 5 14 14 (digit_ok l2 0 6 6 (digit_ok l2 8 14 14
      (Ok (compute_check_digit (take 25 (drop 5 l1) @ take 7 l2 @ take 7 (drop 8 l2) @ take 11 (drop 18 l2))
        = unwrap_or (check_digit_at l2 29) 60)))) = Ok True"
    by (simp add: validate_check_digits_def validate_td1_check_digits_def ascii_slice slice_def)
  note d1 = digit_ok_True [OF l(3) _ _ d]
  note d2 = digit_ok_True [OF l(4) _ _ d1(2)]
  note d3 = digit_ok_True(1) [OF l(4) _ _ d2(2)]
  have "mrz_information m = compute_mrz_information (trim_end_matches 60 (take 9 (drop 5 l1))) (take 6 l2) (take 6 (drop 8 l2))"
    using parsed l zone_part_chars [OF zone]
    by (auto simp: mrz_information_def parse_zone_def parse_td1_def ascii_slice slice_def index_at_def split: prod.splits)
  also have "\<dots> = take 9 (drop 5 l1) @ [compute_check_digit (take 9 (drop 5 l1))] @ take 6 l2 @ [compute_check_digit (take 6 l2)]
        @ take 6 (drop 8 l2) @ [compute_check_digit (take 6 (drop 8 l2))]"
    using l zone_part_chars [OF zone, of l1 9 5] by (intro mrz_information_eq) auto
  finally show ?thesis using d1(1) d2(1) d3 l by simp
qed

text \<open>
  C36: The access keys of a chip are derived from what is printed: when a zone parses and its
  check digits validate, the string handed to the BAC key derivation is the printed document
  number, date of birth and date of expiry, each with its printed check digit, although the
  document number was stored without its fillers.
\<close>

theorem bac_string_is_printed_zone:
  assumes "parse_mrz uni input = Ok m" and "validate_check_digits m = Ok True"
  shows "mrz_information m =
     (let l1 = raw_lines m ! 0; l2 = raw_lines m ! 1 in
      case format m of
        TD1 \<Rightarrow> take 10 (drop 5 l1) @ take 7 l2 @ take 7 (drop 8 l2)
      | TD2 \<Rightarrow> take 10 l2 @ take 7 (drop 13 l2) @ take 7 (drop 21 l2)
      | TD3 \<Rightarrow> take 10 l2 @ take 7 (drop 13 l2) @ take 7 (drop 21 l2))"
proof -
  let ?lines = "clean_lines uni input"
  have ok: "zone_ok (format m) ?lines" "parse_zone (format m) ?lines = Ok m"
    using assms(1) by (simp_all add: parse_mrz_Ok)
  have raw: "raw_lines m = ?lines" using ok parse_zone_Ok by fastforce
  note chars = zone_part_chars [OF ok(1), where ?b = 0, unfolded drop0]
  from ok(1) show ?thesis
  proof (cases rule: zone_lines)
    case (1 l1 l2 l3)
    with td1_information [of l1 l2 l3 m] ok assms(2) raw show ?thesis by simp
  next
    case (2 l1 l2)
    then have "digit_ok l2 0 9 9 (digit_ok l2 13 19 19 (digit_ok l2 21 27 27
        (Ok (compute_check_digit (take 10 l2 @ take 7 (drop 13 l2) @ take 14 (drop 21 l2))
          = unwrap_or (check_digit_at l2 35) 60)))) = Ok True"
      using assms(2) raw
      by (simp add: validate_check_digits_def validate_td2_check_digits_def ascii_slice slice_def)
    moreover have "mrz_information m = compute_mrz_information (trim_end_matches 60 (take 9 l2)) (take 6 (drop 13 l2)) (take 6 (drop 21 l2))"
      using ok(2) 2 by (auto simp: mrz_information_def parse_zone_def parse_td2_def ascii_slice slice_def index_at_def split: prod.splits)
    ultimately show ?thesis using chained_digits [of l2] 2 ok(1) raw by (simp add: zone_ok_def)
  next
    case (3 l1 l2)
    then have "digit_ok l2 0 9 9 (digit_ok l2 13 19 19 (digit_ok l2 21 27 27 (digit_ok l2 28 42 42
        (Ok (compute_check_digit (take 10 l2 @ take 7 (drop 13 l2) @ take 22 (drop 21 l2))
          = unwrap_or (check_digit_at l2 43) 60))))) = Ok True"
      using assms(2) raw
      by (simp add: validate_check_digits_def validate_td3_check_digits_def ascii_slice slice_def)
    moreover have "mrz_information m = compute_mrz_information (trim_end_matches 60 (take 9 l2)) (take 6 (drop 13 l2)) (take 6 (drop 21 l2))"
      using ok(2) 3 by (auto simp: mrz_information_def parse_zone_def parse_td3_def ascii_slice slice_def index_at_def split: prod.splits)
    ultimately show ?thesis using chained_digits [of l2] 3 ok(1) raw by (simp add: zone_ok_def)
  qed
qed

theorem bac_string_is_printed_zone_witness:
  "mrz_information sample_mrz = lit ''L898902C3674081221204159''"
  using bac_string_is_printed_zone [OF sample_parses] by (simp only:) code_simp

fun segments :: "nat list \<Rightarrow> 'a list \<Rightarrow> 'a list list" where
  "segments [] l = [l]"
| "segments (n # ns) l = take n l # segments ns (drop n l)"

lemma concat_segments: "concat (segments ns l) = l"
  by (induction ns l rule: segments.induct) auto

definition fill :: "nat \<Rightarrow> ustr \<Rightarrow> ustr" where
  "fill n s = s @ replicate (n - length s) 60"

lemma fill_trimmed: "length s = n \<Longrightarrow> fill n (trim_end_matches 60 s) = s"
  using trim_end_by_pad [of 60 s] by (simp add: fill_def trim_end_matches_def)

lemma take_1_drop: "i < length l \<Longrightarrow> take (Suc 0) (drop i l) = [l ! i]"
  by (simp add: take_Suc_conv_app_nth)

text \<open>
  Parsing takes every field of the second line from its ICAO position and loses nothing: the
  line is the concatenation of the parsed fields, with the trimmed ones filled up again. (The
  check digit of the optional data of a TD3 zone is the one character that is not a field.)
\<close>

theorem parsed_fields_rebuild_line:
  assumes "parse_mrz uni input = Ok m"
  shows "(format m = TD2 \<longrightarrow> raw_lines m ! 1 =
      fill 9 (document_number m) @ [document_number_check m] @ nationality m @ date_of_birth m
        @ [date_of_birth_check m] @ [sex m] @ date_of_expiry m @ [date_of_expiry_check m]
        @ fill 7 (optional_data m) @ [the (composite_check m)])
    \<and> (format m = TD3 \<longrightarrow> (\<exists>optional_check. raw_lines m ! 1 =
      fill 9 (document_number m) @ [document_number_check m] @ nationality m @ date_of_birth m
        @ [date_of_birth_check m] @ [sex m] @ date_of_expiry m @ [date_of_expiry_check m]
        @ fill 14 (optional_data m) @ [optional_check] @ [the (composite_check m)]))"
proof (intro conjI impI)
  let ?lines = "clean_lines uni input"
  have ok: "zone_ok (format m) ?lines" "parse_zone (format m) ?lines = Ok m"
    using assms by (simp_all add: parse_mrz_Ok)
  note fields = mrz_eval fill_trimmed take_1_drop
  show "raw_lines m ! 1 =
      fill 9 (document_number m) @ [document_number_check m] @ nationality m @ date_of_birth m
        @ [date_of_birth_check m] @ [sex m] @ date_of_expiry m @ [date_of_expiry_check m]
        @ fill 7 (optional_data m) @ [the (composite_check m)]" if "format m = TD2"
  proof -
    from ok(1) \<open>format m = TD2\<close> obtain l1 l2 where l: "?lines = [l1, l2]" "length l1 = 36" "length l2 = 36" "is_ascii l1" "is_ascii l2"
      by (cases rule: zone_lines) auto
    have "concat (segments [9, 1, 3, 6, 1, 1, 6, 1, 7] l2) = l2" by (rule concat_segments)
    with ok(2) l \<open>format m = TD2\<close> show ?thesis
      using take_1_drop [of 35 l2]
      by (auto simp: parse_zone_def parse_td2_def fields split: prod.splits)
  qed
  show "\<exists>optional_check. raw_lines m ! 1 =
      fill 9 (document_number m) @ [document_number_check m] @ nationality m @ date_of_birth m
        @ [date_of_birth_check m] @ [sex m] @ date_of_expiry m @ [date_of_expiry_check m]
        @ fill 14 (optional_data m) @ [optional_check] @ [the (composite_check m)]" if "format m = TD3"
  proof -
    from ok(1) \<open>format m = TD3\<close> obtain l1 l2 where l: "?lines = [l1, l2]" "length l1 = 44" "length l2 = 44" "is_ascii l1" "is_ascii l2"
      by (cases rule: zone_lines) auto
    have "concat (segments [9, 1, 3, 6, 1, 1, 6, 1, 14, 1] l2) = l2" by (rule concat_segments)
    with ok(2) l \<open>format m = TD3\<close> have "raw_lines m ! 1 =
      fill 9 (document_number m) @ [document_number_check m] @ nationality m @ date_of_birth m
        @ [date_of_birth_check m] @ [sex m] @ date_of_expiry m @ [date_of_expiry_check m]
        @ fill 14 (optional_data m) @ [l2 ! 42] @ [the (composite_check m)]"
      using take_1_drop [of 43 l2]
      by (auto simp: parse_zone_def parse_td3_def fields split: prod.splits)
    then show ?thesis by blast
  qed
qed

theorem parsed_fields_rebuild_line_witness:
  "\<exists>optional_check. raw_lines sample_mrz ! 1 =
      lit ''L898902C36UTO7408122F1204159'' @ fill 14 (lit ''ZE184226B'') @ [optional_check] @ lit ''0''"
  using parsed_fields_rebuild_line [OF sample_parses(1)]
  by (simp add: sample_mrz_def fill_def lit_def)

end
