(* ===== verification/SecureMessaging.thy ===== *)
theory SecureMessaging
  imports Apdu Tdes Mrz
begin

text \<open>
  Basic Access Control and secure messaging with a passport chip
  (\<open>marty-verification/src/chip_io/mod.rs\<close>): key derivation from the machine readable zone, the
  mutual authentication handshake, protection of commands and verification of responses under the
  send sequence counter, and the two-message PACE compatibility handshake that ends in the same
  kind of session. Hash functions, elliptic curve agreement, the chip transport and the random
  numbers are arguments.
\<close>

datatype SmError =
    SmApdu ApduError | SmTlv TlvError | SmCipher TdesError
  | BacDocumentNumber | BacDates | BacChallengeLength | BacKeyInfoLength nat | BacResponseLength nat
  | BacMacFailed | BacRndIcMismatch | BacRndIfdMismatch | BacKeyLength
  | SelectFailed u16 | ChallengeFailed u16 nat | AuthenticateFailed u16 | AuthenticateLength nat
  | SmCommandTooLarge | SmLe | SmProtectedTooLarge | SmResponseTooLarge | SmMalformed
  | SmMissingObjects | SmMacFailed | SscExhausted | BadPadding

record chip_env = tdes_env +
  sha1 :: "bytes \<Rightarrow> bytes"
  sha256 :: "bytes \<Rightarrow> bytes"

definition MAX_BAC_COMMAND_DATA_BYTES :: nat where
  "MAX_BAC_COMMAND_DATA_BYTES = 65511"

definition MAX_BAC_PROTECTED_RESPONSE_BYTES :: nat where
  "MAX_BAC_PROTECTED_RESPONSE_BYTES = MAX_APDU_DATA_BYTES"

subsection \<open>Helpers\<close>

definition mrz_check_digit :: "bytes \<Rightarrow> u8" where
  "mrz_check_digit data =
     (let sum = sum_list (map (\<lambda>(i, b).
            (if 48 \<le> b \<and> b \<le> 57 then unat (b - 48)
             else if 65 \<le> b \<and> b \<le> 90 then unat (b - 65 + 10)
             else 0) * ([7, 3, 1] ! (i mod 3))) (enumerate 0 data)) mod 2 ^ 32
      in 48 + of_nat (sum mod 10))"

definition adjust_des_parity :: "bytes \<Rightarrow> bytes" where
  "adjust_des_parity key = map (\<lambda>b. if count_ones b mod 2 = 0 then b XOR 1 else b) key"

definition extend_to_24_bytes :: "bytes \<Rightarrow> bytes" where
  "extend_to_24_bytes key16 = take 8 key16 @ drop 8 key16 @ take 8 key16"

definition extend_single_des :: "bytes \<Rightarrow> bytes" where
  "extend_single_des k8 = k8 @ k8 @ k8"

definition icao_3des_cbc_iv :: bytes where
  "icao_3des_cbc_iv = replicate 8 0"

definition retail_mac_3des :: "('x) tdes_env_scheme \<Rightarrow> bytes \<Rightarrow> bytes \<Rightarrow> (bytes, SmError) result" where
  "retail_mac_3des env key16 data =
     (let padded = iso7816_pad data; n = length padded div 8;
          k1_only = extend_single_des (take 8 key16); k_full = extend_to_24_bytes key16;
          iv = icao_3des_cbc_iv in
      rbind (if n > 1 then
               rbind (slice padded 0 ((n - 1) * 8)) (\<lambda>prefix.
               rbind (map_err SmCipher (tdes_cbc_encrypt env k1_only iv prefix)) (\<lambda>c.
               if length c < 8 then Panic else Ok (drop (length c - 8) c)))
             else Ok iv) (\<lambda>intermediate.
      rbind (slice padded ((n - 1) * 8) (length padded)) (\<lambda>last_block.
      let xored = xor_bytes intermediate last_block in
      rbind (map_err SmCipher (tdes_cbc_encrypt env k_full iv xored)) (\<lambda>final_mac.
      slice final_mac 0 8))))"

text \<open>The counter loop, from the last byte (the head of the reversed list) upwards.\<close>

fun next_ssc_rev :: "bytes \<Rightarrow> bytes option" where
  "next_ssc_rev [] = None"
| "next_ssc_rev (b # bs) = (if b \<noteq> 255 then Some ((b + 1) # bs) else map_option ((#) 0) (next_ssc_rev bs))"

definition checked_next_ssc :: "bytes \<Rightarrow> (bytes, SmError) result" where
  "checked_next_ssc ssc = ok_or (map_option rev (next_ssc_rev (rev ssc))) SscExhausted"

primrec fold_diff :: "(u8 \<times> u8) list \<Rightarrow> u8 \<Rightarrow> u8" where
  "fold_diff [] diff = diff"
| "fold_diff (p # ps) diff = fold_diff ps (diff OR (fst p XOR snd p))"

definition constant_time_eq :: "bytes \<Rightarrow> bytes \<Rightarrow> bool" where
  "constant_time_eq a b = (if length a \<noteq> length b then False else fold_diff (zip a b) 0 = 0)"

definition bac_kdf_16 :: "('x) chip_env_scheme \<Rightarrow> bytes \<Rightarrow> u8 \<Rightarrow> (bytes, SmError) result" where
  "bac_kdf_16 env seed counter =
     rbind (slice (sha1 env (seed @ [0, 0, 0, counter])) 0 16) (\<lambda>key. Ok (adjust_des_parity key))"

subsection \<open>Keys from the machine readable zone\<close>

record MrzKeyInfo =
  doc_number_with_check :: ustr
  dob_with_check :: ustr
  expiry_with_check :: ustr

definition bac_doc_char :: "u8 \<Rightarrow> bool" where
  "bac_doc_char b \<longleftrightarrow> is_ascii_uppercase (unat b) \<or> is_ascii_digit (unat b) \<or> b = 60"

definition try_from_mrz_fields :: "ustr \<Rightarrow> ustr \<Rightarrow> ustr \<Rightarrow> (MrzKeyInfo, SmError) result" where
  "try_from_mrz_fields doc_number dob expiry =
     rbind (ensure (\<not> (str_len doc_number \<noteq> 9 \<or> \<not> list_all bac_doc_char (as_bytes doc_number)))
              BacDocumentNumber) (\<lambda>_.
     rbind (ensure (\<not> (str_len dob \<noteq> 6 \<or> str_len expiry \<noteq> 6
                      \<or> \<not> list_all (\<lambda>b. is_ascii_digit (unat b)) (as_bytes dob)
                      \<or> \<not> list_all (\<lambda>b. is_ascii_digit (unat b)) (as_bytes expiry))) BacDates) (\<lambda>_.
     Ok \<lparr>doc_number_with_check = doc_number @ [unat (mrz_check_digit (as_bytes doc_number))],
         dob_with_check = dob @ [unat (mrz_check_digit (as_bytes dob))],
         expiry_with_check = expiry @ [unat (mrz_check_digit (as_bytes expiry))]\<rparr>))"

record BacKeys =
  bk_enc :: bytes
  bk_mac :: bytes

definition derive_bac_base_keys :: "('x) chip_env_scheme \<Rightarrow> MrzKeyInfo \<Rightarrow> (BacKeys, SmError) result" where
  "derive_bac_base_keys env mrz =
     (let mrz_info = doc_number_with_check mrz @ dob_with_check mrz @ expiry_with_check mrz in
      rbind (ensure (\<not> str_len mrz_info \<noteq> 24) (BacKeyInfoLength (str_len mrz_info))) (\<lambda>_.
      rbind (slice (sha1 env (as_bytes mrz_info)) 0 16) (\<lambda>kseed.
      rbind (bac_kdf_16 env kseed 1) (\<lambda>k_enc.
      rbind (bac_kdf_16 env kseed 2) (\<lambda>k_mac.
      Ok \<lparr>bk_enc = k_enc, bk_mac = k_mac\<rparr>)))))"

record BacSession =
  ks_enc :: bytes
  ks_mac :: bytes
  ssc :: bytes

definition derive_bac_session_keys ::
    "('x) chip_env_scheme \<Rightarrow> bytes \<Rightarrow> bytes \<Rightarrow> bytes \<Rightarrow> bytes \<Rightarrow> (BacSession, SmError) result" where
  "derive_bac_session_keys env k_ifd k_ic rnd_ic rnd_ifd =
     rbind (ensure (length k_ifd = 16) BacKeyLength) (\<lambda>_.
     rbind (ensure (length k_ic = 16) BacKeyLength) (\<lambda>_.
     rbind (ensure (length rnd_ic = 8) BacKeyLength) (\<lambda>_.
     rbind (ensure (length rnd_ifd = 8) BacKeyLength) (\<lambda>_.
     let seed = xor_bytes k_ifd k_ic in
     rbind (bac_kdf_16 env seed 1) (\<lambda>k_enc.
     rbind (bac_kdf_16 env seed 2) (\<lambda>k_mac.
     Ok \<lparr>ks_enc = k_enc, ks_mac = k_mac, ssc = drop 4 rnd_ic @ drop 4 rnd_ifd\<rparr>))))))"

subsection \<open>The handshake\<close>

record BacHandshake =
  base_keys :: BacKeys
  hs_rnd_ifd :: bytes
  hs_k_ifd :: bytes
  hs_rnd_ic :: bytes

definition handshake_begin ::
    "('x) chip_env_scheme \<Rightarrow> MrzKeyInfo \<Rightarrow> bytes \<Rightarrow> bytes \<Rightarrow> bytes \<Rightarrow> (BacHandshake, SmError) result" where
  "handshake_begin env mrz rnd_ic rnd_ifd k_ifd =
     rbind (ensure (length rnd_ic = 8) BacChallengeLength) (\<lambda>_.
     rbind (derive_bac_base_keys env mrz) (\<lambda>keys.
     Ok \<lparr>base_keys = keys, hs_rnd_ifd = rnd_ifd, hs_k_ifd = k_ifd, hs_rnd_ic = rnd_ic\<rparr>))"

definition command_data :: "('x) tdes_env_scheme \<Rightarrow> BacHandshake \<Rightarrow> (bytes, SmError) result" where
  "command_data env h =
     (let plaintext = hs_rnd_ifd h @ hs_rnd_ic h @ hs_k_ifd h;
          k24 = extend_to_24_bytes (bk_enc (base_keys h)) in
      rbind (map_err SmCipher (tdes_cbc_encrypt env k24 icao_3des_cbc_iv plaintext)) (\<lambda>encrypted.
      rbind (retail_mac_3des env (bk_mac (base_keys h)) encrypted) (\<lambda>mac.
      Ok (encrypted @ mac))))"

definition handshake_complete :: "('x) chip_env_scheme \<Rightarrow> BacHandshake \<Rightarrow> bytes \<Rightarrow> (BacSession, SmError) result" where
  "handshake_complete env h response =
     rbind (ensure (\<not> length response \<noteq> 40) (BacResponseLength (length response))) (\<lambda>_.
     let encrypted = take 32 response; received_mac = drop 32 response in
     rbind (retail_mac_3des env (bk_mac (base_keys h)) encrypted) (\<lambda>expected_mac.
     rbind (ensure (constant_time_eq expected_mac received_mac) BacMacFailed) (\<lambda>_.
     let k24 = extend_to_24_bytes (bk_enc (base_keys h)) in
     rbind (map_err SmCipher (tdes_cbc_decrypt env k24 icao_3des_cbc_iv encrypted)) (\<lambda>plaintext.
     rbind (slice plaintext 0 8) (\<lambda>a.
     rbind (ensure (\<not> a \<noteq> hs_rnd_ic h) BacRndIcMismatch) (\<lambda>_.
     rbind (slice plaintext 8 16) (\<lambda>b.
     rbind (ensure (\<not> b \<noteq> hs_rnd_ifd h) BacRndIfdMismatch) (\<lambda>_.
     rbind (slice plaintext 16 32) (\<lambda>k_ic.
     derive_bac_session_keys env (hs_k_ifd h) k_ic (hs_rnd_ic h) (hs_rnd_ifd h))))))))))"

text \<open>
  \<open>BacSession::establish\<close>: SELECT, GET CHALLENGE and EXTERNAL AUTHENTICATE over a chip whose state
  is threaded through the calls of its \<open>transceive\<close>.
\<close>

definition establish ::
    "('c \<Rightarrow> ApduCommand \<Rightarrow> (ApduResponse \<times> 'c, ApduError) result) \<Rightarrow> ('x) chip_env_scheme
       \<Rightarrow> bytes \<Rightarrow> bytes \<Rightarrow> 'c \<Rightarrow> MrzKeyInfo \<Rightarrow> (BacSession \<times> 'c, SmError) result" where
  "establish transceive env rnd_ifd k_ifd chip mrz =
     rbind (map_err SmApdu (transceive chip
       \<lparr>cla = 0x00, ins = 0xA4, p1 = 0x04, p2 = 0x0C,
        cmd_data = [0xA0, 0x00, 0x00, 0x02, 0x47, 0x10, 0x01], le = None\<rparr>)) (\<lambda>(resp, chip).
     rbind (ensure (is_success resp) (SelectFailed (status_word resp))) (\<lambda>_.
     rbind (map_err SmApdu (transceive chip
       \<lparr>cla = 0x00, ins = 0x84, p1 = 0x00, p2 = 0x00, cmd_data = [], le = Some 8\<rparr>)) (\<lambda>(resp, chip).
     rbind (ensure (\<not> (\<not> is_success resp \<or> length (resp_data resp) \<noteq> 8))
              (ChallengeFailed (status_word resp) (length (resp_data resp)))) (\<lambda>_.
     rbind (handshake_begin env mrz (resp_data resp) rnd_ifd k_ifd) (\<lambda>handshake.
     rbind (command_data env handshake) (\<lambda>auth_data.
     rbind (map_err SmApdu (transceive chip
       \<lparr>cla = 0x00, ins = 0x82, p1 = 0x00, p2 = 0x00, cmd_data = auth_data, le = Some 40\<rparr>)) (\<lambda>(resp, chip).
     rbind (ensure (is_success resp) (AuthenticateFailed (status_word resp))) (\<lambda>_.
     rbind (ensure (\<not> length (resp_data resp) \<noteq> 40) (AuthenticateLength (length (resp_data resp)))) (\<lambda>_.
     rbind (handshake_complete env handshake (resp_data resp)) (\<lambda>session.
     Ok (session, chip)))))))))))"

subsection \<open>Protected commands\<close>

definition command_do87 :: "('x) tdes_env_scheme \<Rightarrow> BacSession \<Rightarrow> bytes \<Rightarrow> (bytes, SmError) result" where
  "command_do87 env s data =
     (if data \<noteq> [] then
        (let padded = iso7816_pad data; k24 = extend_to_24_bytes (ks_enc s) in
         rbind (map_err SmCipher (tdes_cbc_encrypt env k24 icao_3des_cbc_iv padded)) (\<lambda>enc.
         map_err SmTlv (push_ber_tlv 0x87 (0x01 # enc) [])))
      else Ok [])"

definition command_do97 :: "nat option \<Rightarrow> bytes" where
  "command_do97 e =
     (case e of Some n \<Rightarrow> [0x97, 0x01, if n = 256 then 0 else of_nat n] | None \<Rightarrow> [])"

definition protect_command ::
    "('x) tdes_env_scheme \<Rightarrow> BacSession \<Rightarrow> ApduCommand \<Rightarrow> (ApduCommand \<times> BacSession, SmError) result" where
  "protect_command env s cmd =
     rbind (ensure (\<not> length (cmd_data cmd) > MAX_BAC_COMMAND_DATA_BYTES) SmCommandTooLarge) (\<lambda>_.
     rbind (ensure (\<not> (case le cmd of None \<Rightarrow> False | Some n \<Rightarrow> n > 256)) SmLe) (\<lambda>_.
     rbind (checked_next_ssc (ssc s)) (\<lambda>next_ssc.
     rbind (command_do87 env s (cmd_data cmd)) (\<lambda>do87.
     let do97 = command_do97 (le cmd);
         masked_header = [cla cmd OR 0x0C, ins cmd, p1 cmd, p2 cmd, 0x80, 0x00, 0x00, 0x00];
         mac_input = next_ssc @ masked_header @ do87 @ do97 in
     rbind (retail_mac_3des env (ks_mac s) mac_input) (\<lambda>mac.
     let sm_data = do87 @ do97 @ [0x8E, 0x08] @ mac in
     rbind (ensure (\<not> length sm_data > MAX_APDU_DATA_BYTES) SmProtectedTooLarge) (\<lambda>_.
     Ok (\<lparr>cla = cla cmd OR 0x0C, ins = ins cmd, p1 = p1 cmd, p2 = p2 cmd, cmd_data = sm_data,
          le = Some 0\<rparr>, s\<lparr>ssc := next_ssc\<rparr>)))))))"

subsection \<open>Protected responses\<close>

record sm_objects =
  received_mac :: "bytes option"
  do87_bytes :: "bytes option"
  encrypted_data :: "bytes option"
  do99_bytes :: "bytes option"
  sm_status :: "(u8 \<times> u8) option"

definition no_objects :: sm_objects where
  "no_objects = \<lparr>received_mac = None, do87_bytes = None, encrypted_data = None, do99_bytes = None, sm_status = None\<rparr>"

definition take_object :: "sm_objects \<Rightarrow> BerTlv \<Rightarrow> (sm_objects, SmError) result" where
  "take_object st tlv =
     (let v = tlv_value tlv in
      if tlv_tag tlv = 0x87 then
        rbind (ensure (\<not> (do87_bytes st \<noteq> None \<or> get_at v 0 \<noteq> Some 0x01 \<or> length v \<le> 1
                          \<or> (length v - 1) mod 8 \<noteq> 0)) SmMalformed) (\<lambda>_.
        rbind (slice v 1 (length v)) (\<lambda>c.
        Ok (st\<lparr>do87_bytes := Some (tlv_encoded tlv), encrypted_data := Some c\<rparr>)))
      else if tlv_tag tlv = 0x99 \<and> length v = 2 \<and> do99_bytes st = None then
        rbind (index_at v 0) (\<lambda>a. rbind (index_at v 1) (\<lambda>b.
        Ok (st\<lparr>do99_bytes := Some (tlv_encoded tlv), sm_status := Some (a, b)\<rparr>)))
      else if tlv_tag tlv = 0x8E \<and> length v = 8 \<and> received_mac st = None then
        Ok (st\<lparr>received_mac := Some v\<rparr>)
      else Err SmMalformed)"

function scan_objects :: "bytes \<Rightarrow> nat \<Rightarrow> sm_objects \<Rightarrow> (sm_objects, SmError) result" where
  "scan_objects data offset st =
     (if offset < length data then
        rbind (map_err SmTlv (next_ber_tlv data offset)) (\<lambda>(tlv, offset').
        rbind (take_object st tlv) (\<lambda>st'. scan_objects data offset' st'))
      else Ok st)"
  by auto
termination
proof (relation "measure (\<lambda>(data, offset, _). length data - offset)", simp, goal_cases)
  case (1 data offset st x tlv offset' st')
  then have "next_ber_tlv data offset = Ok (tlv, offset')" by simp
  from next_ber_tlv_Ok [OF this] have "offset < offset'" "offset' \<le> length data" by simp_all
  then show ?case by simp
qed

declare scan_objects.simps [simp del]

definition unprotect_response ::
    "('x) tdes_env_scheme \<Rightarrow> BacSession \<Rightarrow> ApduResponse \<Rightarrow> (ApduResponse \<times> BacSession, SmError) result" where
  "unprotect_response env s resp =
     rbind (ensure (\<not> length (resp_data resp) > MAX_BAC_PROTECTED_RESPONSE_BYTES) SmResponseTooLarge) (\<lambda>_.
     rbind (checked_next_ssc (ssc s)) (\<lambda>next_ssc.
     rbind (scan_objects (resp_data resp) 0 no_objects) (\<lambda>st.
     rbind (ok_or (do99_bytes st) SmMissingObjects) (\<lambda>do99.
     rbind (ok_or (received_mac st) SmMissingObjects) (\<lambda>mac.
     let mac_input = next_ssc @ (case do87_bytes st of Some d \<Rightarrow> d | None \<Rightarrow> []) @ do99 in
     rbind (retail_mac_3des env (ks_mac s) mac_input) (\<lambda>expected.
     rbind (ensure (constant_time_eq expected mac) SmMacFailed) (\<lambda>_.
     rbind (case encrypted_data st of
              Some ciphertext \<Rightarrow>
                rbind (map_err SmCipher (tdes_cbc_decrypt env (extend_to_24_bytes (ks_enc s)) icao_3des_cbc_iv ciphertext))
                  (\<lambda>decrypted. iso7816_unpad decrypted BadPadding)
            | None \<Rightarrow> Ok []) (\<lambda>plain_data.
     rbind (ok_or (sm_status st) SmMissingObjects) (\<lambda>(a, b).
     Ok (\<lparr>resp_data = plain_data, sw1 = a, sw2 = b\<rparr>, s\<lparr>ssc := next_ssc\<rparr>))))))))))"

subsection \<open>The PACE compatibility handshake\<close>

text \<open>
  The ephemeral key pair is third-party code: \<open>agree\<close> is the Diffie-Hellman agreement of the pair
  with a peer key. The pair is consumed by the first use (\<open>Option::take\<close>).
\<close>

datatype PaceError =
    PaceSm SmError | PaceNonceLength | PaceEmptyNonce | PacePasswordTooLong | PacePasswordFormat MrzError
  | PaceConsumed | PacePeerKey string

record pace_key_pair =
  pair_public_key :: bytes
  agree :: "bytes \<Rightarrow> string + bytes"

record PaceCompatibilityHandshake =
  pace_key_pair :: "pace_key_pair option"
  pace_public_key :: bytes
  pace_nonce :: bytes

definition derive_compatibility_pace_password_key ::
    "('x) chip_env_scheme \<Rightarrow> (nat \<Rightarrow> ustr) \<Rightarrow> ustr \<Rightarrow> (bytes, PaceError) result" where
  "derive_compatibility_pace_password_key env uni password =
     rbind (ensure (\<not> str_len password > 128) PacePasswordTooLong) (\<lambda>_.
     rbind (if list_all is_ascii_digit password \<and> 6 \<le> str_len password \<and> str_len password \<le> 10
            then slice (sha1 env (as_bytes password)) 0 16
            else
              rbind (map_err PacePasswordFormat (parse_mrz_string uni password)) (\<lambda>parsed.
              let normalized = take 9 (filter is_ascii_alphanumeric (map ascii_upper (document_number parsed)));
                  number = replace_char 32 60 (pad_right 9 normalized);
                  information = number @ [unat (mrz_check_digit (as_bytes number))]
                    @ date_of_birth parsed @ [unat (mrz_check_digit (as_bytes (date_of_birth parsed)))]
                    @ date_of_expiry parsed @ [unat (mrz_check_digit (as_bytes (date_of_expiry parsed)))]
              in slice (sha1 env (as_bytes information)) 0 16)) (\<lambda>seed.
     Ok (adjust_des_parity seed)))"

definition pace_begin ::
    "('x) chip_env_scheme \<Rightarrow> (nat \<Rightarrow> ustr) \<Rightarrow> ustr \<Rightarrow> bytes \<Rightarrow> pace_key_pair
       \<Rightarrow> (PaceCompatibilityHandshake, PaceError) result" where
  "pace_begin env uni password encrypted_nonce pair =
     rbind (ensure (\<not> length encrypted_nonce \<noteq> 16) PaceNonceLength) (\<lambda>_.
     rbind (derive_compatibility_pace_password_key env uni password) (\<lambda>key.
     rbind (map_err (PaceSm \<circ> SmCipher)
              (tdes_cbc_decrypt env (extend_to_24_bytes key) icao_3des_cbc_iv encrypted_nonce)) (\<lambda>decrypted.
     rbind (iso7816_unpad decrypted (PaceSm BadPadding)) (\<lambda>nonce.
     rbind (ensure (nonce \<noteq> []) PaceEmptyNonce) (\<lambda>_.
     Ok \<lparr>pace_key_pair = Some pair, pace_public_key = pair_public_key pair, pace_nonce = nonce\<rparr>)))))"

definition pace_complete ::
    "('x) chip_env_scheme \<Rightarrow> PaceCompatibilityHandshake \<Rightarrow> bytes \<Rightarrow> (BacSession, PaceError) result" where
  "pace_complete env h chip_public_key =
     rbind (ok_or (pace_key_pair h) PaceConsumed) (\<lambda>pair.
     rbind (lift_err PacePeerKey (agree pair chip_public_key)) (\<lambda>shared_secret.
     let digest = sha256 env (shared_secret @ pace_nonce h) in
     rbind (slice digest 0 16) (\<lambda>seed.
     rbind (map_err PaceSm (bac_kdf_16 env seed 1)) (\<lambda>k_enc.
     rbind (map_err PaceSm (bac_kdf_16 env seed 2)) (\<lambda>k_mac.
     if length digest < 8 then Panic
     else Ok \<lparr>ks_enc = k_enc, ks_mac = k_mac, ssc = drop (length digest - 8) digest\<rparr>)))))"

subsection \<open>The helpers meet their descriptions\<close>

lemma fold_diff_zero: "fold_diff ps d = 0 \<longleftrightarrow> d = 0 \<and> (\<forall>p \<in> set ps. fst p = snd p)"
  by (induction ps arbitrary: d) (auto simp: or_eq_0_iff xor_byte_zero)

lemma constant_time_eq_iff: "constant_time_eq a b \<longleftrightarrow> a = b"
proof (cases "length a = length b")
  case True
  then have "(\<forall>p \<in> set (zip a b). fst p = snd p) \<longleftrightarrow> a = b"
    by (auto simp: list_eq_iff_nth_eq set_zip)
  with True show ?thesis by (simp add: constant_time_eq_def fold_diff_zero)
qed (auto simp: constant_time_eq_def)

fun le_value :: "bytes \<Rightarrow> nat" where
  "le_value [] = 0"
| "le_value (b # bs) = unat b + 256 * le_value bs"

definition ssc_value :: "bytes \<Rightarrow> nat" where
  "ssc_value s = le_value (rev s)"

lemma unat_byte_less: "unat (b :: u8) < 256"
  using unsigned_less [of b, where ?'a = nat] by simp

lemma le_value_less: "le_value bs < 256 ^ length bs"
proof (induction bs)
  case (Cons b bs)
  have "unat b + 256 * le_value bs \<le> 255 + 256 * (256 ^ length bs - 1)"
    using unat_byte_less [of b] Cons by (intro add_mono mult_le_mono2) simp_all
  also have "\<dots> < 256 * 256 ^ length bs" by (simp add: diff_mult_distrib2)
  finally show ?case by simp
qed simp

lemma unat_byte_Suc: "b \<noteq> 255 \<Longrightarrow> unat (b + 1 :: u8) = Suc (unat b)"
proof -
  assume "b \<noteq> 255"
  have "1 + b \<noteq> 0"
  proof
    assume "1 + b = 0"
    then have "b = - 1" by (simp add: eq_neg_iff_add_eq_0 add.commute)
    with \<open>b \<noteq> 255\<close> show False by simp
  qed
  then show ?thesis by (simp add: add.commute unatSuc)
qed

lemma next_ssc_rev_Some:
  "next_ssc_rev bs = Some cs \<Longrightarrow> le_value cs = Suc (le_value bs) \<and> length cs = length bs"
  by (induction bs arbitrary: cs) (auto simp: unat_byte_Suc split: if_splits)

lemma next_ssc_rev_None: "next_ssc_rev bs = None \<Longrightarrow> Suc (le_value bs) = 256 ^ length bs"
  by (induction bs) (auto split: if_splits)

lemma checked_next_ssc_Ok:
  "checked_next_ssc s = Ok t \<Longrightarrow> ssc_value t = Suc (ssc_value s) \<and> length t = length s"
  using next_ssc_rev_Some [of "rev s" "rev t"] by (auto simp: checked_next_ssc_def ssc_value_def)

lemma checked_next_ssc_cases:
  obtains (step) t where "checked_next_ssc s = Ok t" "ssc_value t = Suc (ssc_value s)" "length t = length s"
    | (exhausted) "checked_next_ssc s = Err SscExhausted" "Suc (ssc_value s) = 256 ^ length s"
proof (cases "next_ssc_rev (rev s)")
  case None
  then show ?thesis using next_ssc_rev_None [of "rev s"] exhausted by (simp add: checked_next_ssc_def ssc_value_def)
next
  case (Some cs)
  then show ?thesis using step [of "rev cs"] checked_next_ssc_Ok [of s "rev cs"] by (simp add: checked_next_ssc_def)
qed

lemma adjust_des_parity_eq: "adjust_des_parity key = adjust_parity key"
  by (simp add: adjust_des_parity_def adjust_parity_def)

lemma cbc_blocks_last:
  "bs \<noteq> [] \<Longrightarrow> last (cbc_blocks f c bs) = foldl (\<lambda>y b. f (xor_bytes y b)) c bs"
proof (induction bs arbitrary: c)
  case (Cons b bs)
  then show ?case by (cases bs) (auto simp: Let_def)
qed simp

lemma mac_chain_cong:
  assumes "block_cipher E D" and "length k = 8" and "\<forall>b \<in> set bs. length b = 8" and "length y = 8"
  shows "foldl (\<lambda>y b. ede3 E D (extend_single_des k) (xor_bytes y b)) y bs = mac_chain E k bs y"
  using assms(3,4)
proof (induction bs arbitrary: y)
  case (Cons b bs)
  have "length (xor_bytes y b) = 8" using Cons.prems by simp
  then have "ede3 E D (extend_single_des k) (xor_bytes y b) = E k (xor_bytes y b)" "length (E k (xor_bytes y b)) = 8"
    using assms(1,2) by (simp_all add: ede3_def extend_single_des_def block_cipherD)
  with Cons show ?case by (simp add: mac_chain_def)
qed (simp add: mac_chain_def)

lemma cbc_last_block:
  assumes "tdes_laws env E D" and "length k = 8" and "p \<noteq> []" and "length p mod 8 = 0"
  shows "\<exists>c. tdes_cbc_encrypt env (extend_single_des k) icao_3des_cbc_iv p = Ok c
     \<and> 8 \<le> length c \<and> drop (length c - 8) c = mac_chain E k (chunks 8 p) (replicate 8 0)"
proof -
  have bc: "block_cipher E D" using assms(1) by (simp add: tdes_laws_def)
  let ?f = "ede3 E D (extend_single_des k)"
  have bs: "\<forall>b \<in> set (chunks 8 p). length b = 8" using chunks_length [of 8 p] assms(4) by simp
  have ne: "chunks 8 p \<noteq> []" using concat_chunks [of 8 p] assms(3) by (metis concat.simps(1) zero_less_numeral)
  have f: "\<forall>b. length b = 8 \<longrightarrow> length (?f b) = 8 \<and> dec3 E D (extend_single_des k) (?f b) = b"
    using bc assms(2) by (simp add: ede3_inverse extend_single_des_def)
  let ?cs = "cbc_blocks ?f (replicate 8 0) (chunks 8 p)"
  have cs: "\<forall>b \<in> set ?cs. length b = 8" "length ?cs = length (chunks 8 p)"
    using cbc_blocks_inverse [OF f _ bs, of "replicate 8 0"] by simp_all
  have "?cs \<noteq> []" using cs(2) ne by (metis length_0_conv)
  then have split: "concat ?cs = concat (butlast ?cs) @ last ?cs"
    by (metis append_butlast_last_id concat.simps concat_append append_Nil2)
  have "length (last ?cs) = 8" using cs(1) \<open>?cs \<noteq> []\<close> by simp
  then have "8 \<le> length (concat ?cs)" "drop (length (concat ?cs) - 8) (concat ?cs) = last ?cs"
    unfolding split by simp_all
  moreover have "last ?cs = mac_chain E k (chunks 8 p) (replicate 8 0)"
    using cbc_blocks_last [OF ne] mac_chain_cong [OF bc assms(2) bs] by simp
  moreover have "tdes_cbc_encrypt env (extend_single_des k) icao_3des_cbc_iv p = Ok (concat ?cs)"
    using tdes_encrypt_Ok(1) [OF assms(1) _ _ assms(3,4), of "extend_single_des k" "replicate 8 0"] assms(2)
    by (simp add: cbc_def icao_3des_cbc_iv_def extend_single_des_def)
  ultimately show ?thesis by auto
qed

lemma last_block:
  assumes "length P = 8 * Suc m"
  shows "length (take (m * 8) P) = m * 8" "length (drop (m * 8) P) = 8"
    "chunks 8 P = chunks 8 (take (m * 8) P) @ [drop (m * 8) P]"
proof -
  show l: "length (take (m * 8) P) = m * 8" "length (drop (m * 8) P) = 8" using assms by simp_all
  have "length (take (m * 8) P) mod 8 = 0" unfolding l by simp
  then have "chunks 8 (take (m * 8) P @ drop (m * 8) P) = chunks 8 (take (m * 8) P) @ chunks 8 (drop (m * 8) P)"
    by (intro chunks_append) simp_all
  moreover have "chunks 8 (drop (m * 8) P @ []) = drop (m * 8) P # chunks 8 []"
    by (rule chunks_block) (simp_all only: l zero_less_numeral)
  ultimately show "chunks 8 P = chunks 8 (take (m * 8) P) @ [drop (m * 8) P]" by simp
qed

lemma retail_prefix:
  assumes laws: "tdes_laws env E D" and "length k1 = 8" and "length P = 8 * Suc m"
  shows "(if 1 < Suc m then
        rbind (slice P 0 ((Suc m - 1) * 8)) (\<lambda>prefix.
        rbind (map_err SmCipher (tdes_cbc_encrypt env (extend_single_des k1) icao_3des_cbc_iv prefix)) (\<lambda>c.
        if length c < 8 then Panic else Ok (drop (length c - 8) c)))
      else Ok icao_3des_cbc_iv) = Ok (mac_chain E k1 (chunks 8 (take (m * 8) P)) (replicate 8 0))"
proof (cases m)
  case 0
  then show ?thesis by (simp add: mac_chain_def icao_3des_cbc_iv_def)
next
  case (Suc j)
  note l = last_block [OF assms(3)]
  have "take (m * 8) P \<noteq> []"
  proof
    assume "take (m * 8) P = []"
    then have "length (take (m * 8) P) = 0" by (simp only: list.size)
    with l(1) Suc show False by simp
  qed
  moreover have "length (take (m * 8) P) mod 8 = 0" unfolding l by simp
  ultimately obtain c where c: "tdes_cbc_encrypt env (extend_single_des k1) icao_3des_cbc_iv (take (m * 8) P) = Ok c"
      "\<not> length c < 8" "drop (length c - 8) c = mac_chain E k1 (chunks 8 (take (m * 8) P)) (replicate 8 0)"
    using cbc_last_block [OF laws assms(2)] by (metis not_less)
  have sl: "slice P 0 ((Suc m - 1) * 8) = Ok (take (m * 8) P)" using assms(3) by (simp add: slice_def)
  have "1 < Suc m" using Suc by simp
  then show ?thesis by (simp only: if_True sl rbind.simps c map_err.simps if_False)
qed

lemma retail_mac_3des_eq:
  assumes laws: "tdes_laws env E D" and key: "length key = 16"
  shows "retail_mac_3des env key data = Ok (mac_alg3 E D key data)"
proof -
  have bc: "block_cipher E D" using laws by (simp add: tdes_laws_def)
  define P where "P = iso7816_pad data"
  obtain k where "k < 8" "P = data @ 0x80 # replicate k 0" and m: "length P mod 8 = 0"
    unfolding P_def by (rule iso7816_pad_eq)
  have "8 \<le> length P" using multiple_length_le [OF _ m] pad_blocks(2) by (simp add: P_def)
  obtain n where "length P = 8 * n" using m by auto
  then obtain q where q: "length P = 8 * Suc q" using \<open>8 \<le> length P\<close> by (cases n) simp_all
  note l = last_block [OF q]
  define y where "y = mac_chain E (take 8 key) (chunks 8 (take (q * 8) P)) (replicate 8 0)"
  define x where "x = xor_bytes y (drop (q * 8) P)"
  have k1: "length (take 8 key) = 8" "length (drop 8 key) = 8" using key by simp_all
  have blocks: "\<forall>b \<in> set (chunks 8 (take (q * 8) P)). length b = 8"
  proof
    fix b
    assume b: "b \<in> set (chunks 8 (take (q * 8) P))"
    show "length b = 8" by (rule chunks_length [OF _ _ b]) (simp, simp only: l(1) mod_mult_self2_is_0)
  qed
  then have "length y = 8" unfolding y_def by (intro mac_chain_length [OF bc k1(1)]) simp_all
  then have x: "length x = 8" using l(2) by (simp add: x_def)
  define tag where "tag = E (take 8 key) (D (drop 8 key) (E (take 8 key) x))"
  have "tdes_cbc_encrypt env (extend_to_24_bytes key) icao_3des_cbc_iv x = Ok (cbc (ede3 E D (extend_to_24_bytes key)) (replicate 8 0) x)"
    unfolding icao_3des_cbc_iv_def
    by (rule tdes_encrypt_Ok(1) [OF laws]) (use x key in \<open>auto simp: extend_to_24_bytes_def\<close>)
  also have "cbc (ede3 E D (extend_to_24_bytes key)) (replicate 8 0) x = tag"
    unfolding cbc_one_block(1) [OF x] using key by (simp add: ede3_def extend_to_24_bytes_def tag_def)
  finally have final: "tdes_cbc_encrypt env (extend_to_24_bytes key) icao_3des_cbc_iv x = Ok tag" .
  have "length tag = 8" unfolding tag_def by (intro block_cipherD [OF bc] k1 x)
  then have sl: "slice tag 0 8 = (Ok tag :: (bytes, SmError) result)" by (simp add: slice_def)
  have sll: "slice P ((Suc q - 1) * 8) (length P) = (Ok (drop (q * 8) P) :: (bytes, SmError) result)"
    using q by (simp add: slice_def)
  have n: "length P div 8 = Suc q" using q by simp
  have "mac_alg3 E D key data = tag"
    unfolding mac_alg3_def P_def [symmetric] l(3) tag_def x_def y_def by (simp add: mac_chain_def)
  moreover have "retail_mac_3des env key data = Ok tag"
    unfolding retail_mac_3des_def Let_def P_def [symmetric] n
      retail_prefix [OF laws k1(1) q] y_def [symmetric] rbind.simps sll x_def [symmetric] final map_err.simps sl
    by (rule refl)
  ultimately show ?thesis by simp
qed

lemma check_digit_bytes:
  assumes "is_ascii s" and "\<forall>c \<in> set s. \<not> is_ascii_lowercase c"
  shows "unat (mrz_check_digit (as_bytes s)) = compute_check_digit s"
proof -
  have v: "(if 48 \<le> (of_nat c :: u8) \<and> (of_nat c :: u8) \<le> 57 then unat ((of_nat c :: u8) - 48)
      else if 65 \<le> (of_nat c :: u8) \<and> (of_nat c :: u8) \<le> 90 then unat ((of_nat c :: u8) - 65 + 10) else 0) = char_value c"
    if "c \<in> set s" for c
  proof -
    have c: "c < 128" "\<not> (97 \<le> c \<and> c \<le> 122)" using assms that by (auto simp: is_ascii_set is_ascii_lowercase_def)
    have "unat ((of_nat c :: u8) - 48) = c - 48" if "48 \<le> c"
      using that c by (simp add: unat_sub word_le_nat_alt unat_of_nat take_bit_nat_def)
    moreover have "unat ((of_nat c :: u8) - 65 + 10) = c - 55" if "65 \<le> c"
    proof -
      have "(of_nat c :: u8) - 65 + 10 = of_nat (c - 55)" using that by (simp add: of_nat_diff)
      then show ?thesis using c by (simp add: unat_of_nat take_bit_nat_def)
    qed
    ultimately show ?thesis
      using c by (simp add: char_value_def word_le_nat_alt unat_of_nat take_bit_nat_def)
  qed
  have "map (\<lambda>(i, b). (if 48 \<le> b \<and> b \<le> 57 then unat (b - 48)
             else if 65 \<le> b \<and> b \<le> 90 then unat (b - 65 + 10) else 0) * ([7, 3, 1] ! (i mod 3))) (enumerate 0 (as_bytes s))
      = map (\<lambda>(i, c). char_value c * (WEIGHTS ! (i mod 3))) (enumerate 0 s)"
    using v unfolding ascii_bytes [OF assms(1)] WEIGHTS_def
    by (intro nth_equalityI) (simp_all add: nth_enumerate_eq)
  moreover have "unat (48 + of_nat (n mod 10) :: u8) = 48 + n mod 10" for n
  proof -
    have "n mod 10 < 10" by simp
    then show ?thesis by (simp add: unat_word_ariths unat_of_nat take_bit_nat_def)
  qed
  ultimately show ?thesis
    by (simp add: mrz_check_digit_def compute_check_digit_def char_from_digit_def Let_def)
qed

subsection \<open>Scanning the objects of a response\<close>

definition frame_tlv :: "u8 \<times> bytes \<Rightarrow> BerTlv" where
  "frame_tlv f = \<lparr>tlv_tag = fst f, tlv_encoded = tlv_frame f, tlv_value = snd f\<rparr>"

fun take_frames :: "sm_objects \<Rightarrow> (u8 \<times> bytes) list \<Rightarrow> (sm_objects, SmError) result" where
  "take_frames st [] = Ok st"
| "take_frames st (f # fs) = rbind (take_object st (frame_tlv f)) (\<lambda>st'. take_frames st' fs)"

lemma take_frames_append: "take_frames st (fs @ gs) = rbind (take_frames st fs) (\<lambda>st'. take_frames st' gs)"
  by (induction fs arbitrary: st) (simp_all add: rbind_assoc)

lemma scan_frames:
  assumes "list_all tlv_legal fs" and "length pre + length (concat (map tlv_frame fs)) \<le> usize_max"
  shows "scan_objects (pre @ concat (map tlv_frame fs)) (length pre) st = take_frames st fs"
  using assms
proof (induction fs arbitrary: pre st)
  case Nil
  show ?case by (subst scan_objects.simps) simp
next
  case (Cons f fs)
  let ?data = "pre @ concat (map tlv_frame (f # fs))"
  have legal: "length (snd f) \<le> 65535" using Cons.prems(1) by (simp add: tlv_legal_def)
  have n: "next_ber_tlv ?data (length pre) = Ok (frame_tlv f, length pre + length (tlv_frame f))"
    using next_ber_tlv_frame [OF legal, of pre "fst f" "concat (map tlv_frame fs)"] Cons.prems(2)
    by (simp add: frame_tlv_def)
  have "length pre < length ?data" using next_ber_tlv_Ok [OF n] by linarith
  then have "scan_objects ?data (length pre) st
      = rbind (take_object st (frame_tlv f)) (\<lambda>st'. scan_objects ?data (length (pre @ tlv_frame f)) st')"
    using n by (subst scan_objects.simps) (simp del: rbind_eq_Ok)
  also have "\<dots> = rbind (take_object st (frame_tlv f)) (\<lambda>st'. take_frames st' fs)"
    using Cons.IH [of "pre @ tlv_frame f"] Cons.prems by simp
  finally show ?case by simp
qed

lemma scan_objects_frames:
  "scan_objects data off st = Ok st' \<Longrightarrow> off \<le> length data
     \<Longrightarrow> \<exists>fs. list_all tlv_legal fs \<and> drop off data = concat (map tlv_frame fs) \<and> take_frames st fs = Ok st'"
proof (induction data off st rule: scan_objects.induct)
  case (1 data off st)
  show ?case
  proof (cases "off < length data")
    case False
    with 1(2,3) have "st' = st" by (subst (asm) scan_objects.simps) simp
    with False 1(3) show ?thesis by (intro exI [of _ "[]"]) simp
  next
    case True
    from 1(2) True obtain tlv off' st1 where s: "next_ber_tlv data off = Ok (tlv, off')"
        "take_object st tlv = Ok st1" "scan_objects data off' st1 = Ok st'"
      by (subst (asm) scan_objects.simps) auto
    note t = next_ber_tlv_Ok [OF s(1)]
    have tlv: "tlv = frame_tlv (tlv_tag tlv, tlv_value tlv)" using t by (simp add: frame_tlv_def)
    from 1(1) [OF True _ refl s(2,3)] s(1) t obtain fs where fs:
      "list_all tlv_legal fs" "drop off' data = concat (map tlv_frame fs)" "take_frames st1 fs = Ok st'"
      by auto
    have "drop off data = take (off' - off) (drop off data) @ drop off' data"
      using t by (metis append_take_drop_id drop_drop le_add_diff_inverse2 less_imp_le)
    with t fs s(2) tlv show ?thesis
      by (intro exI [of _ "(tlv_tag tlv, tlv_value tlv) # fs"]) auto
  qed
qed

definition objects_of :: "(u8 \<times> bytes) list \<Rightarrow> sm_objects \<Rightarrow> bool" where
  "objects_of fs st \<longleftrightarrow>
     distinct (map fst fs) \<and> fst ` set fs \<subseteq> {0x87, 0x99, 0x8E}
     \<and> (case do87_bytes st of
          None \<Rightarrow> encrypted_data st = None \<and> 0x87 \<notin> fst ` set fs
        | Some d \<Rightarrow> (\<exists>c. (0x87, 0x01 # c) \<in> set fs \<and> d = tlv_frame (0x87, 0x01 # c) \<and> encrypted_data st = Some c))
     \<and> (case do99_bytes st of
          None \<Rightarrow> sm_status st = None \<and> 0x99 \<notin> fst ` set fs
        | Some d \<Rightarrow> (\<exists>a b. (0x99, [a, b]) \<in> set fs \<and> d = tlv_frame (0x99, [a, b]) \<and> sm_status st = Some (a, b)))
     \<and> (case received_mac st of None \<Rightarrow> 0x8E \<notin> fst ` set fs | Some m \<Rightarrow> (0x8E, m) \<in> set fs)"

lemma two_bytes: "length v = 2 \<longleftrightarrow> (\<exists>a b. v = [a, b])"
  by (auto simp: numeral_2_eq_2 length_Suc_conv)

lemma take_object_Ok:
  assumes "take_object st (frame_tlv (t, v)) = Ok st'"
  obtains (encrypted) c where "t = 0x87" "v = 0x01 # c" "do87_bytes st = None"
      "st' = st\<lparr>do87_bytes := Some (tlv_frame (t, v)), encrypted_data := Some c\<rparr>"
    | (status) a b where "t = 0x99" "v = [a, b]" "do99_bytes st = None"
      "st' = st\<lparr>do99_bytes := Some (tlv_frame (t, v)), sm_status := Some (a, b)\<rparr>"
    | (mac) "t = 0x8E" "received_mac st = None" "st' = st\<lparr>received_mac := Some v\<rparr>"
proof -
  consider "t = 0x87" | "t = 0x99" | "t = 0x8E" | "t \<notin> {0x87, 0x99, 0x8E}" by auto
  then show ?thesis
  proof cases
    case 1
    with assms obtain c where "v = 0x01 # c" "do87_bytes st = None"
        "st' = st\<lparr>do87_bytes := Some (tlv_frame (t, v)), encrypted_data := Some c\<rparr>"
      by (cases v) (auto simp: take_object_def frame_tlv_def slice_def)
    with 1 show ?thesis by (rule encrypted)
  next
    case 2
    with assms have "length v = 2" "do99_bytes st = None"
      by (auto simp: take_object_def frame_tlv_def split: if_splits)
    then obtain a b where "v = [a, b]" by (auto simp: two_bytes)
    with 2 assms show ?thesis by (intro status [of a b]) (auto simp: take_object_def frame_tlv_def Let_def split: if_splits)
  next
    case 3
    with assms show ?thesis by (intro mac) (auto simp: take_object_def frame_tlv_def split: if_splits)
  next
    case 4
    with assms show ?thesis by (simp add: take_object_def frame_tlv_def)
  qed
qed

lemma take_frames_objects: "take_frames no_objects fs = Ok st \<Longrightarrow> objects_of fs st"
proof (induction fs arbitrary: st rule: rev_induct)
  case Nil
  then show ?case by (auto simp: objects_of_def no_objects_def)
next
  case (snoc f fs)
  from snoc.prems obtain st1 where "take_frames no_objects fs = Ok st1" "take_object st1 (frame_tlv f) = Ok st"
    by (auto simp: take_frames_append)
  moreover obtain t v where f: "f = (t, v)" by (cases f)
  ultimately have inv: "objects_of fs st1" and step: "take_object st1 (frame_tlv (t, v)) = Ok st"
    using snoc.IH by auto
  from step show ?case
  proof (cases rule: take_object_Ok)
    case (encrypted c)
    with inv show ?thesis by (auto simp: objects_of_def f split: option.splits)
  next
    case (status a b)
    with inv show ?thesis by (auto simp: objects_of_def f split: option.splits)
  next
    case mac
    with inv show ?thesis by (auto simp: objects_of_def f split: option.splits)
  qed
qed

subsection \<open>Sessions\<close>

definition session_ok :: "BacSession \<Rightarrow> bool" where
  "session_ok s \<longleftrightarrow> length (ks_enc s) = 16 \<and> length (ks_mac s) = 16 \<and> length (ssc s) = 8"

lemma extend_length: "length k = 16 \<Longrightarrow> length (extend_to_24_bytes k) = 24"
  by (simp add: extend_to_24_bytes_def)

lemma encrypt_padded:
  assumes "tdes_laws env E D" and "length k = 16"
  shows "\<exists>c. tdes_cbc_encrypt env (extend_to_24_bytes k) icao_3des_cbc_iv (iso7816_pad data) = Ok c
     \<and> c = cbc (ede3 E D (extend_to_24_bytes k)) icao_3des_cbc_iv (iso7816_pad data)
     \<and> length c = length (iso7816_pad data)
     \<and> tdes_cbc_decrypt env (extend_to_24_bytes k) icao_3des_cbc_iv c = Ok (iso7816_pad data)"
proof -
  obtain j where "j < 8" "iso7816_pad data = data @ 0x80 # replicate j 0" and m: "length (iso7816_pad data) mod 8 = 0"
    by (rule iso7816_pad_eq)
  have iv: "length icao_3des_cbc_iv = 8" by (simp add: icao_3des_cbc_iv_def)
  note e = tdes_encrypt_Ok [OF assms(1) extend_length [OF assms(2)] iv pad_blocks(2) m]
  show ?thesis using e by blast
qed

lemma pad_length: "length (iso7816_pad d) \<le> length d + 8" "length d < length (iso7816_pad d)" "length (iso7816_pad d) mod 8 = 0"
proof -
  obtain k where k: "k < 8" "iso7816_pad d = d @ 0x80 # replicate k 0" and m: "length (iso7816_pad d) mod 8 = 0"
    by (rule iso7816_pad_eq)
  show "length (iso7816_pad d) mod 8 = 0" by (rule m)
  show "length (iso7816_pad d) \<le> length d + 8" "length d < length (iso7816_pad d)" unfolding k(2) using k(1) by simp_all
qed

text \<open>The objects a conforming chip builds (ICAO 9303-11): the model of the other end.\<close>

definition chip_do87 :: "(bytes \<Rightarrow> bytes \<Rightarrow> bytes) \<Rightarrow> (bytes \<Rightarrow> bytes \<Rightarrow> bytes) \<Rightarrow> bytes \<Rightarrow> bytes \<Rightarrow> (u8 \<times> bytes) list" where
  "chip_do87 E D k data =
     (if data = [] then []
      else [(0x87, 0x01 # cbc (ede3 E D (extend_to_24_bytes k)) icao_3des_cbc_iv (iso7816_pad data))])"

definition chip_response ::
    "(bytes \<Rightarrow> bytes \<Rightarrow> bytes) \<Rightarrow> (bytes \<Rightarrow> bytes \<Rightarrow> bytes) \<Rightarrow> BacSession \<Rightarrow> bytes \<Rightarrow> ApduResponse \<Rightarrow> (u8 \<times> bytes) list" where
  "chip_response E D s counter r =
     (let objects = chip_do87 E D (ks_enc s) (resp_data r) @ [(0x99, [sw1 r, sw2 r])]
      in objects @ [(0x8E, mac_alg3 E D (ks_mac s) (counter @ concat (map tlv_frame objects)))])"

lemma tlv_frame_length: "length v \<le> 65535 \<Longrightarrow> length (tlv_frame (t, v)) \<le> length v + 4"
  by (rule tlv_frame_cases [of v t]) auto

lemma chip_response_legal:
  assumes "tdes_laws env E D" and "session_ok s" and "length (resp_data r) \<le> 65500"
  shows "list_all tlv_legal (chip_response E D s counter r)"
    "length (concat (map tlv_frame (chip_response E D s counter r))) \<le> 65535"
proof -
  let ?m = "mac_alg3 E D (ks_mac s) (counter @ concat (map tlv_frame (chip_do87 E D (ks_enc s) (resp_data r) @ [(0x99, [sw1 r, sw2 r])])))"
  have m: "length ?m = 8" using retail_mac_eq(2) [OF assms(1)] assms(2) by (simp add: session_ok_def)
  have c: "length (cbc (ede3 E D (extend_to_24_bytes (ks_enc s))) icao_3des_cbc_iv (iso7816_pad (resp_data r))) \<le> 65508"
    using encrypt_padded [OF assms(1), of "ks_enc s" "resp_data r"] assms(2,3) pad_length(1) [of "resp_data r"]
    by (auto simp: session_ok_def)
  then have d87: "list_all tlv_legal (chip_do87 E D (ks_enc s) (resp_data r))"
    "length (concat (map tlv_frame (chip_do87 E D (ks_enc s) (resp_data r)))) \<le> 65513"
    using tlv_frame_length [of "0x01 # cbc (ede3 E D (extend_to_24_bytes (ks_enc s))) icao_3des_cbc_iv (iso7816_pad (resp_data r))" "0x87"]
    by (auto simp: chip_do87_def tlv_legal_def)
  show "list_all tlv_legal (chip_response E D s counter r)"
    using d87(1) m by (simp add: chip_response_def Let_def tlv_legal_def)
  show "length (concat (map tlv_frame (chip_response E D s counter r))) \<le> 65535"
    using d87(2) m tlv_frame_length [of "[sw1 r, sw2 r]" "0x99"] tlv_frame_length [of ?m "0x8E"]
    by (simp add: chip_response_def Let_def)
qed

lemma take_chip_response:
  assumes "tdes_laws env E D" and "session_ok s"
  shows "take_frames no_objects (chip_response E D s counter r) =
     Ok \<lparr>received_mac = Some (mac_alg3 E D (ks_mac s) (counter @ concat (map tlv_frame (chip_do87 E D (ks_enc s) (resp_data r) @ [(0x99, [sw1 r, sw2 r])])))),
         do87_bytes = (if resp_data r = [] then None else Some (concat (map tlv_frame (chip_do87 E D (ks_enc s) (resp_data r))))),
         encrypted_data = (if resp_data r = [] then None
            else Some (cbc (ede3 E D (extend_to_24_bytes (ks_enc s))) icao_3des_cbc_iv (iso7816_pad (resp_data r)))),
         do99_bytes = Some (tlv_frame (0x99, [sw1 r, sw2 r])), sm_status = Some (sw1 r, sw2 r)\<rparr>"
proof -
  let ?c = "cbc (ede3 E D (extend_to_24_bytes (ks_enc s))) icao_3des_cbc_iv (iso7816_pad (resp_data r))"
  have m: "length (mac_alg3 E D (ks_mac s) x) = 8" for x
    using retail_mac_eq(2) [OF assms(1)] assms(2) by (simp add: session_ok_def)
  have c: "length ?c = length (iso7816_pad (resp_data r))"
    using encrypt_padded [OF assms(1), of "ks_enc s" "resp_data r"] assms(2) by (auto simp: session_ok_def)
  have "length ?c mod 8 = 0" "?c \<noteq> []" using c pad_length(2,3) [of "resp_data r"] by auto
  then show ?thesis
    using m by (simp add: chip_response_def chip_do87_def Let_def take_object_def frame_tlv_def no_objects_def slice_def del: rbind_eq_Ok)
qed

lemma unprotect_chip_response:
  assumes laws: "tdes_laws env E D" and s: "session_ok s" and n: "checked_next_ssc (ssc s) = Ok counter"
    and len: "length (resp_data r) \<le> 65500"
  shows "unprotect_response env s \<lparr>resp_data = concat (map tlv_frame (chip_response E D s counter r)), sw1 = x, sw2 = y\<rparr>
     = Ok (r, s\<lparr>ssc := counter\<rparr>)"
proof -
  note legal = chip_response_legal [OF laws s len, of counter]
  let ?data = "concat (map tlv_frame (chip_response E D s counter r))"
  have scan: "scan_objects ?data 0 no_objects = take_frames no_objects (chip_response E D s counter r)"
    using scan_frames [OF legal(1), of "[]" no_objects] legal(2) by (simp add: usize_max_def)
  have mac: "retail_mac_3des env (ks_mac s) data = Ok (mac_alg3 E D (ks_mac s) data)" for data
    using retail_mac_3des_eq [OF laws] s by (simp add: session_ok_def)
  obtain c where c: "c = cbc (ede3 E D (extend_to_24_bytes (ks_enc s))) icao_3des_cbc_iv (iso7816_pad (resp_data r))"
      "tdes_cbc_decrypt env (extend_to_24_bytes (ks_enc s)) icao_3des_cbc_iv c = Ok (iso7816_pad (resp_data r))"
    using encrypt_padded [OF laws, of "ks_enc s" "resp_data r"] s by (auto simp: session_ok_def)
  have small: "\<not> length ?data > MAX_BAC_PROTECTED_RESPONSE_BYTES"
    using legal(2) by (simp add: MAX_BAC_PROTECTED_RESPONSE_BYTES_def MAX_APDU_DATA_BYTES_def)
  show ?thesis
    using small n scan mac c
    by (cases "resp_data r = []")
      (simp_all add: unprotect_response_def take_chip_response [OF laws s] chip_do87_def
        constant_time_eq_iff iso7816_unpad_pad Let_def del: rbind_eq_Ok)
qed

lemma unprotect_authentic:
  assumes "tdes_laws env E D" and "session_ok s" and "unprotect_response env s resp = Ok (r, s')"
  obtains fs where "list_all tlv_legal fs" "resp_data resp = concat (map tlv_frame fs)"
    "distinct (map fst fs)" "fst ` set fs \<subseteq> {0x87, 0x99, 0x8E}" "(0x99, [sw1 r, sw2 r]) \<in> set fs"
    "checked_next_ssc (ssc s) = Ok (ssc s')" "s' = s\<lparr>ssc := ssc s'\<rparr>"
    "(\<exists>c. (0x87, 0x01 # c) \<in> set fs
          \<and> (0x8E, mac_alg3 E D (ks_mac s) (ssc s' @ tlv_frame (0x87, 0x01 # c) @ tlv_frame (0x99, [sw1 r, sw2 r]))) \<in> set fs
          \<and> (\<exists>p k. tdes_cbc_decrypt env (extend_to_24_bytes (ks_enc s)) icao_3des_cbc_iv c = Ok p
                \<and> p = resp_data r @ 0x80 # replicate k 0))
     \<or> (0x87 \<notin> fst ` set fs \<and> resp_data r = []
          \<and> (0x8E, mac_alg3 E D (ks_mac s) (ssc s' @ tlv_frame (0x99, [sw1 r, sw2 r]))) \<in> set fs)"
proof -
  have mac: "retail_mac_3des env (ks_mac s) data = Ok (mac_alg3 E D (ks_mac s) data)" for data
    using retail_mac_3des_eq [OF assms(1)] assms(2) by (simp add: session_ok_def)
  from assms(3) obtain counter st do99 m plain a b where
    u: "checked_next_ssc (ssc s) = Ok counter" "scan_objects (resp_data resp) 0 no_objects = Ok st"
      "do99_bytes st = Some do99" "received_mac st = Some m"
      "m = mac_alg3 E D (ks_mac s) (counter @ (case do87_bytes st of Some d \<Rightarrow> d | None \<Rightarrow> []) @ do99)"
      "(case encrypted_data st of
              Some ciphertext \<Rightarrow>
                rbind (map_err SmCipher (tdes_cbc_decrypt env (extend_to_24_bytes (ks_enc s)) icao_3des_cbc_iv ciphertext))
                  (\<lambda>decrypted. iso7816_unpad decrypted BadPadding)
            | None \<Rightarrow> Ok []) = Ok plain"
      "sm_status st = Some (a, b)" "r = \<lparr>resp_data = plain, sw1 = a, sw2 = b\<rparr>" "s' = s\<lparr>ssc := counter\<rparr>"
    unfolding unprotect_response_def Let_def by (auto simp: mac constant_time_eq_iff)
  from scan_objects_frames [OF u(2)] obtain fs where
    fs: "list_all tlv_legal fs" "resp_data resp = concat (map tlv_frame fs)" "take_frames no_objects fs = Ok st"
    by auto
  note inv = take_frames_objects [OF fs(3), unfolded objects_of_def]
  show ?thesis
  proof (rule that [of fs])
    show "list_all tlv_legal fs" "resp_data resp = concat (map tlv_frame fs)" by (fact fs)+
    show "distinct (map fst fs)" "fst ` set fs \<subseteq> {0x87, 0x99, 0x8E}" using inv by blast+
    show st: "(0x99, [sw1 r, sw2 r]) \<in> set fs" using inv u(3,7,8) by auto
    show "checked_next_ssc (ssc s) = Ok (ssc s')" "s' = s\<lparr>ssc := ssc s'\<rparr>" using u(1,9) by simp_all
    have d99: "do99 = tlv_frame (0x99, [sw1 r, sw2 r])" using inv u(3,7,8) by auto
    have m: "(0x8E, m) \<in> set fs" using inv u(4) by simp
    show "(\<exists>c. (0x87, 0x01 # c) \<in> set fs
          \<and> (0x8E, mac_alg3 E D (ks_mac s) (ssc s' @ tlv_frame (0x87, 0x01 # c) @ tlv_frame (0x99, [sw1 r, sw2 r]))) \<in> set fs
          \<and> (\<exists>p k. tdes_cbc_decrypt env (extend_to_24_bytes (ks_enc s)) icao_3des_cbc_iv c = Ok p
                \<and> p = resp_data r @ 0x80 # replicate k 0))
     \<or> (0x87 \<notin> fst ` set fs \<and> resp_data r = []
          \<and> (0x8E, mac_alg3 E D (ks_mac s) (ssc s' @ tlv_frame (0x99, [sw1 r, sw2 r]))) \<in> set fs)"
    proof (cases "do87_bytes st")
      case None
      with inv have "encrypted_data st = None" "0x87 \<notin> fst ` set fs" by simp_all
      with None u(5,6,8,9) d99 m show ?thesis by simp
    next
      case (Some d)
      with inv obtain c where c: "(0x87, 0x01 # c) \<in> set fs" "d = tlv_frame (0x87, 0x01 # c)" "encrypted_data st = Some c"
        by auto
      with Some u(5,6,8,9) d99 m show ?thesis by (auto simp: iso7816_unpad_Ok)
    qed
  qed
qed

subsection \<open>The counter over a session\<close>

text \<open>
  A run of a session: the commands protected and the responses verified through it, whatever they
  are and whatever the order. A call that fails leaves the session as it was; a call that
  succeeds contributes the value of the counter it used.
\<close>

inductive sm_run :: "('x) tdes_env_scheme \<Rightarrow> BacSession \<Rightarrow> nat list \<Rightarrow> BacSession \<Rightarrow> bool" for env where
  start: "sm_run env s [] s"
| protect: "sm_run env s cs t \<Longrightarrow> protect_command env t cmd = Ok (p, u) \<Longrightarrow> sm_run env s (cs @ [ssc_value (ssc u)]) u"
| unprotect: "sm_run env s cs t \<Longrightarrow> unprotect_response env t resp = Ok (r, u) \<Longrightarrow> sm_run env s (cs @ [ssc_value (ssc u)]) u"
| protect_failed: "sm_run env s cs t \<Longrightarrow> protect_command env t cmd = Err e \<Longrightarrow> sm_run env s cs t"
| unprotect_failed: "sm_run env s cs t \<Longrightarrow> unprotect_response env t resp = Err e \<Longrightarrow> sm_run env s cs t"

lemma protect_counter:
  "protect_command env s cmd = Ok (p, u) \<Longrightarrow> checked_next_ssc (ssc s) = Ok (ssc u) \<and> u = s\<lparr>ssc := ssc u\<rparr>"
  unfolding protect_command_def Let_def by (simp only: rbind_eq_Ok result.inject prod.inject) (elim exE conjE, hypsubst, simp)

lemma unprotect_counter:
  "unprotect_response env s resp = Ok (r, u) \<Longrightarrow> checked_next_ssc (ssc s) = Ok (ssc u) \<and> u = s\<lparr>ssc := ssc u\<rparr>"
  by (auto simp: unprotect_response_def Let_def)

lemma sm_run_extend:
  assumes "checked_next_ssc (ssc t) = Ok (ssc u) \<and> u = t\<lparr>ssc := ssc u\<rparr>"
    and "cs = [Suc (ssc_value (ssc s))..<Suc (ssc_value (ssc t))] \<and> ssc_value (ssc s) \<le> ssc_value (ssc t)
     \<and> t = s\<lparr>ssc := ssc t\<rparr> \<and> length (ssc t) = length (ssc s)"
  shows "cs @ [ssc_value (ssc u)] = [Suc (ssc_value (ssc s))..<Suc (ssc_value (ssc u))] \<and> ssc_value (ssc s) \<le> ssc_value (ssc u)
     \<and> u = s\<lparr>ssc := ssc u\<rparr> \<and> length (ssc u) = length (ssc s)"
proof -
  have n: "ssc_value (ssc u) = Suc (ssc_value (ssc t))" "length (ssc u) = length (ssc t)"
    using checked_next_ssc_Ok assms(1) by blast+
  have "u = s\<lparr>ssc := ssc u\<rparr>"
    using assms by (cases s, cases t, cases u) simp
  moreover have "cs @ [ssc_value (ssc u)] = [Suc (ssc_value (ssc s))..<Suc (ssc_value (ssc u))]"
    using assms(2) n(1) by simp
  ultimately show ?thesis using n assms(2) by simp
qed

lemma sm_run_counters:
  "sm_run env s cs t \<Longrightarrow>
     cs = [Suc (ssc_value (ssc s))..<Suc (ssc_value (ssc t))] \<and> ssc_value (ssc s) \<le> ssc_value (ssc t)
     \<and> t = s\<lparr>ssc := ssc t\<rparr> \<and> length (ssc t) = length (ssc s)"
proof (induction rule: sm_run.induct)
  case (protect s cs t cmd p u)
  show ?case by (rule sm_run_extend [OF protect_counter [OF protect.hyps(2)] protect.IH])
next
  case (unprotect s cs t resp r u)
  show ?case by (rule sm_run_extend [OF unprotect_counter [OF unprotect.hyps(2)] unprotect.IH])
qed simp_all

subsection \<open>Protected commands\<close>

definition do97_frames :: "nat option \<Rightarrow> (u8 \<times> bytes) list" where
  "do97_frames e = (case e of None \<Rightarrow> [] | Some n \<Rightarrow> [(0x97, [if n = 256 then 0 else of_nat n])])"

text \<open>The objects of a protected command, as ICAO 9303-11 lists them.\<close>

definition command_objects ::
    "(bytes \<Rightarrow> bytes \<Rightarrow> bytes) \<Rightarrow> (bytes \<Rightarrow> bytes \<Rightarrow> bytes) \<Rightarrow> BacSession \<Rightarrow> bytes \<Rightarrow> ApduCommand \<Rightarrow> (u8 \<times> bytes) list" where
  "command_objects E D s counter cmd =
     (let objects = chip_do87 E D (ks_enc s) (cmd_data cmd) @ do97_frames (le cmd);
          header = [cla cmd OR 0x0C, ins cmd, p1 cmd, p2 cmd, 0x80, 0x00, 0x00, 0x00]
      in objects @ [(0x8E, mac_alg3 E D (ks_mac s) (counter @ header @ concat (map tlv_frame objects)))])"

lemma command_do87_eq:
  assumes "tdes_laws env E D" and "session_ok s" and "length data \<le> 65511"
  shows "command_do87 env s data = Ok (concat (map tlv_frame (chip_do87 E D (ks_enc s) data)))"
    and "length (concat (map tlv_frame (chip_do87 E D (ks_enc s) data))) \<le> 65517"
proof -
  obtain c where c: "tdes_cbc_encrypt env (extend_to_24_bytes (ks_enc s)) icao_3des_cbc_iv (iso7816_pad data) = Ok c"
      "c = cbc (ede3 E D (extend_to_24_bytes (ks_enc s))) icao_3des_cbc_iv (iso7816_pad data)"
      "length c = length (iso7816_pad data)"
    using encrypt_padded [OF assms(1), of "ks_enc s" data] assms(2) by (auto simp: session_ok_def)
  have "length (iso7816_pad data) \<le> 65512"
  proof -
    have "length (iso7816_pad data) \<le> 65519" using pad_length(1) [of data] assms(3) by linarith
    with pad_length(3) [of data] show ?thesis by presburger
  qed
  then have l: "length (0x01 # c) \<le> 65513" using c(3) by simp
  show "command_do87 env s data = Ok (concat (map tlv_frame (chip_do87 E D (ks_enc s) data)))"
    using c(1) l push_ber_tlv_eq [of "0x01 # c" "0x87" "[]"]
    by (simp add: command_do87_def chip_do87_def Let_def c(2) [symmetric] del: rbind_eq_Ok)
  show "length (concat (map tlv_frame (chip_do87 E D (ks_enc s) data))) \<le> 65517"
    using l tlv_frame_length [of "0x01 # c" "0x87"] by (simp add: chip_do87_def c(2) [symmetric])
qed

lemma command_do97_eq: "command_do97 e = concat (map tlv_frame (do97_frames e))"
  by (simp add: command_do97_def do97_frames_def tlv_frame_def push_ber_tlv_def split: option.splits)

lemma protect_command_eq:
  assumes laws: "tdes_laws env E D" and s: "session_ok s"
    and data: "length (cmd_data cmd) \<le> 65511" and le: "\<forall>n. le cmd = Some n \<longrightarrow> n \<le> 256"
    and counter: "checked_next_ssc (ssc s) = Ok counter"
  shows "protect_command env s cmd =
     Ok (\<lparr>cla = cla cmd OR 0x0C, ins = ins cmd, p1 = p1 cmd, p2 = p2 cmd,
          cmd_data = concat (map tlv_frame (command_objects E D s counter cmd)), le = Some 0\<rparr>, s\<lparr>ssc := counter\<rparr>)"
    and "length (concat (map tlv_frame (command_objects E D s counter cmd))) \<le> 65535"
proof -
  let ?objects = "chip_do87 E D (ks_enc s) (cmd_data cmd) @ do97_frames (le cmd)"
  let ?input = "counter @ [cla cmd OR 0x0C, ins cmd, p1 cmd, p2 cmd, 0x80, 0x00, 0x00, 0x00] @ concat (map tlv_frame ?objects)"
  note do87 = command_do87_eq [OF laws s data]
  have m: "length (mac_alg3 E D (ks_mac s) ?input) = 8" using retail_mac_eq(2) [OF laws] s by (simp add: session_ok_def)
  then have f: "tlv_frame (0x8E, mac_alg3 E D (ks_mac s) ?input) = [0x8E, 0x08] @ mac_alg3 E D (ks_mac s) ?input"
    by (simp add: tlv_frame_def push_ber_tlv_def)
  have d97: "length (command_do97 (le cmd)) \<le> 3" by (simp add: command_do97_def split: option.splits)
  have sm: "concat (map tlv_frame (command_objects E D s counter cmd))
      = concat (map tlv_frame (chip_do87 E D (ks_enc s) (cmd_data cmd))) @ command_do97 (le cmd) @ [0x8E, 0x08] @ mac_alg3 E D (ks_mac s) ?input"
    using f by (simp add: command_objects_def Let_def command_do97_eq)
  show bound: "length (concat (map tlv_frame (command_objects E D s counter cmd))) \<le> 65535"
    unfolding sm using do87(2) d97 m by simp
  have mac: "retail_mac_3des env (ks_mac s) x = Ok (mac_alg3 E D (ks_mac s) x)" for x
    using retail_mac_3des_eq [OF laws] s by (simp add: session_ok_def)
  have le': "\<not> (case le cmd of None \<Rightarrow> False | Some n \<Rightarrow> n > 256)" using le by (auto split: option.splits)
  have input: "counter @ [cla cmd OR 0x0C, ins cmd, p1 cmd, p2 cmd, 0x80, 0x00, 0x00, 0x00]
      @ concat (map tlv_frame (chip_do87 E D (ks_enc s) (cmd_data cmd))) @ command_do97 (le cmd) = ?input"
    by (simp add: command_do97_eq)
  have g: "\<not> length (cmd_data cmd) > MAX_BAC_COMMAND_DATA_BYTES"
    "\<not> length (concat (map tlv_frame (command_objects E D s counter cmd))) > MAX_APDU_DATA_BYTES"
    using data bound by (simp_all add: MAX_BAC_COMMAND_DATA_BYTES_def MAX_APDU_DATA_BYTES_def)
  show "protect_command env s cmd =
     Ok (\<lparr>cla = cla cmd OR 0x0C, ins = ins cmd, p1 = p1 cmd, p2 = p2 cmd,
          cmd_data = concat (map tlv_frame (command_objects E D s counter cmd)), le = Some 0\<rparr>, s\<lparr>ssc := counter\<rparr>)"
    unfolding protect_command_def Let_def
    by (simp only: g(1) le' not_False_eq_True ensure_True rbind.simps counter do87(1) input mac sm [symmetric] g(2))
qed

end
