(* ===== verification/ChipSession.thy ===== *)
theory ChipSession
  imports SecureMessaging
begin

text \<open>
  What a secure messaging session with a passport chip guarantees. The chip's side of the access
  procedure and of secure messaging is specified here and in the theory \<open>SecureMessaging\<close>, after
  ICAO 9303-11; the theorems relate the reader of \<open>marty-verification/src/chip_io/mod.rs\<close> to it.
\<close>

unbundle bit_operations_syntax

subsection \<open>Mutual authentication\<close>

text \<open>
  The chip's side of EXTERNAL AUTHENTICATE (ICAO 9303-11): it checks the MAC and its own nonce,
  answers with the nonces in the other order and its key half, and derives its session.
\<close>

definition chip_authenticate ::
    "('x) chip_env_scheme \<Rightarrow> BacKeys \<Rightarrow> bytes \<Rightarrow> bytes \<Rightarrow> bytes \<Rightarrow> (bytes \<times> BacSession, SmError) result" where
  "chip_authenticate env keys rnd_ic k_ic command =
     (let k24 = extend_to_24_bytes (bk_enc keys); encrypted = take 32 command in
      rbind (ensure (length command = 40) BacKeyLength) (\<lambda>_.
      rbind (map_err SmCipher (retail_mac env (bk_mac keys) encrypted)) (\<lambda>mac.
      rbind (ensure (mac = drop 32 command) BacMacFailed) (\<lambda>_.
      rbind (map_err SmCipher (tdes_cbc_decrypt env k24 icao_3des_cbc_iv encrypted)) (\<lambda>plain.
      let rnd_ifd = take 8 plain; k_ifd = drop 16 plain in
      rbind (ensure (take 8 (drop 8 plain) = rnd_ic) BacRndIcMismatch) (\<lambda>_.
      rbind (map_err SmCipher (tdes_cbc_encrypt env k24 icao_3des_cbc_iv (rnd_ic @ rnd_ifd @ k_ic))) (\<lambda>answer.
      rbind (map_err SmCipher (retail_mac env (bk_mac keys) answer)) (\<lambda>answer_mac.
      rbind (derive_bac_session_keys env k_ifd k_ic rnd_ic rnd_ifd) (\<lambda>session.
      Ok (answer @ answer_mac, session))))))))))"

definition hash_ok :: "('x) chip_env_scheme \<Rightarrow> bool" where
  "hash_ok env \<longleftrightarrow> (\<forall>d. length (sha1 env d) = 20 \<and> length (sha256 env d) = 32)"

lemma bac_kdf_16_Ok:
  "hash_ok env \<Longrightarrow> bac_kdf_16 env seed c = Ok (adjust_parity (take 16 (sha1 env (seed @ [0, 0, 0, c]))))"
  by (simp add: bac_kdf_16_def hash_ok_def slice_def adjust_des_parity_eq)

lemma derive_session_Ok:
  assumes "hash_ok env" "length a = 16" "length b = 16" "length c = 8" "length d = 8"
  obtains s where "derive_bac_session_keys env a b c d = Ok s" "session_ok s" "ssc s = drop 4 c @ drop 4 d"
  using assms by (auto simp: derive_bac_session_keys_def Let_def bac_kdf_16_Ok session_ok_def hash_ok_def simp del: rbind_eq_Ok)

lemma derive_base_keys_lengths:
  "hash_ok env \<Longrightarrow> derive_bac_base_keys env mrz = Ok keys \<Longrightarrow> length (bk_enc keys) = 16 \<and> length (bk_mac keys) = 16"
  by (auto simp: derive_bac_base_keys_def Let_def bac_kdf_16_Ok hash_ok_def)

lemma encrypt_32:
  assumes "tdes_laws env E D" and "length k = 16" and "length p = 32"
  obtains c where "tdes_cbc_encrypt env (extend_to_24_bytes k) icao_3des_cbc_iv p = Ok c" "length c = 32"
    "tdes_cbc_decrypt env (extend_to_24_bytes k) icao_3des_cbc_iv c = Ok p"
proof -
  have p: "p \<noteq> []" "length p mod 8 = 0" using assms(3) by auto
  have iv: "length icao_3des_cbc_iv = 8" by (simp add: icao_3des_cbc_iv_def)
  note e = tdes_encrypt_Ok [OF assms(1) extend_length [OF assms(2)] iv p]
  show ?thesis by (rule that [OF e(1) _ e(3)]) (simp only: e(2) assms(3))
qed

lemma handshake_agreement:
  assumes laws: "tdes_laws env E D" and hash: "hash_ok env"
    and start: "handshake_begin env mrz rnd_ic rnd_ifd k_ifd = Ok h"
    and rnd: "length rnd_ifd = 8" and k: "length k_ifd = 16" "length k_ic = 16"
  shows "\<exists>command answer session. command_data env h = Ok command
     \<and> chip_authenticate env (base_keys h) rnd_ic k_ic command = Ok (answer, session)
     \<and> length answer = 40 \<and> handshake_complete env h answer = Ok session \<and> session_ok session"
proof -
  from start have h: "h = \<lparr>base_keys = base_keys h, hs_rnd_ifd = rnd_ifd, hs_k_ifd = k_ifd, hs_rnd_ic = rnd_ic\<rparr>"
    and ic: "length rnd_ic = 8" and "derive_bac_base_keys env mrz = Ok (base_keys h)"
    by (auto simp: handshake_begin_def)
  from derive_base_keys_lengths [OF hash this(3)] have keys: "length (bk_enc (base_keys h)) = 16" "length (bk_mac (base_keys h)) = 16"
    by auto
  let ?mac = "mac_alg3 E D (bk_mac (base_keys h))"
  have mac: "retail_mac_3des env (bk_mac (base_keys h)) x = Ok (?mac x)" "retail_mac env (bk_mac (base_keys h)) x = Ok (?mac x)"
    "length (?mac x) = 8" for x
    using retail_mac_3des_eq [OF laws keys(2)] retail_mac_eq [OF laws keys(2)] by simp_all
  let ?p = "rnd_ifd @ rnd_ic @ k_ifd" and ?q = "rnd_ic @ rnd_ifd @ k_ic"
  have pq: "length ?p = 32" "length ?q = 32" using rnd ic k by simp_all
  obtain c where c: "tdes_cbc_encrypt env (extend_to_24_bytes (bk_enc (base_keys h))) icao_3des_cbc_iv ?p = Ok c" "length c = 32"
    "tdes_cbc_decrypt env (extend_to_24_bytes (bk_enc (base_keys h))) icao_3des_cbc_iv c = Ok ?p"
    by (rule encrypt_32 [OF laws keys(1) pq(1)])
  obtain d where d: "tdes_cbc_encrypt env (extend_to_24_bytes (bk_enc (base_keys h))) icao_3des_cbc_iv ?q = Ok d" "length d = 32"
    "tdes_cbc_decrypt env (extend_to_24_bytes (bk_enc (base_keys h))) icao_3des_cbc_iv d = Ok ?q"
    by (rule encrypt_32 [OF laws keys(1) pq(2)])
  obtain s where s: "derive_bac_session_keys env k_ifd k_ic rnd_ic rnd_ifd = Ok s" "session_ok s" "ssc s = drop 4 rnd_ic @ drop 4 rnd_ifd"
    by (rule derive_session_Ok [OF hash k ic rnd])
  have hs: "hs_rnd_ifd h = rnd_ifd" "hs_k_ifd h = k_ifd" "hs_rnd_ic h = rnd_ic"
    using arg_cong [OF h, of hs_rnd_ifd] arg_cong [OF h, of hs_k_ifd] arg_cong [OF h, of hs_rnd_ic] by simp_all
  have 1: "command_data env h = Ok (c @ ?mac c)"
    using c(1) mac(1) by (simp add: command_data_def Let_def hs del: rbind_eq_Ok)
  have 2: "chip_authenticate env (base_keys h) rnd_ic k_ic (c @ ?mac c) = Ok (d @ ?mac d, s)"
    using c d s(1) mac rnd ic k by (simp add: chip_authenticate_def Let_def del: rbind_eq_Ok)
  have 3: "handshake_complete env h (d @ ?mac d) = Ok s"
    using d s(1) mac rnd ic k
    by (simp add: handshake_complete_def Let_def constant_time_eq_iff hs slice_def del: rbind_eq_Ok)
  have "length (d @ ?mac d) = 40" using d(2) mac(3) by simp
  with 1 2 3 s(2) show ?thesis by blast
qed

text \<open>A chip that answers the three commands of the access procedure.\<close>

record bac_chip =
  chip_keys :: BacKeys
  chip_rnd :: bytes
  chip_half :: bytes
  chip_session :: "BacSession option"

definition bac_chip_step ::
    "('x) chip_env_scheme \<Rightarrow> bac_chip \<Rightarrow> ApduCommand \<Rightarrow> (ApduResponse \<times> bac_chip, ApduError) result" where
  "bac_chip_step env chip cmd =
     (if ins cmd = 0xA4 then Ok (\<lparr>resp_data = [], sw1 = 0x90, sw2 = 0\<rparr>, chip)
      else if ins cmd = 0x84 then Ok (\<lparr>resp_data = chip_rnd chip, sw1 = 0x90, sw2 = 0\<rparr>, chip)
      else if ins cmd = 0x82 then
        (case chip_authenticate env (chip_keys chip) (chip_rnd chip) (chip_half chip) (cmd_data cmd) of
           Ok (answer, s) \<Rightarrow> Ok (\<lparr>resp_data = answer, sw1 = 0x90, sw2 = 0\<rparr>, chip\<lparr>chip_session := Some s\<rparr>)
         | _ \<Rightarrow> Ok (\<lparr>resp_data = [], sw1 = 0x63, sw2 = 0\<rparr>, chip))
      else Ok (\<lparr>resp_data = [], sw1 = 0x6D, sw2 = 0\<rparr>, chip))"

lemma establish_agreement:
  assumes laws: "tdes_laws env E D" and hash: "hash_ok env"
    and keys: "derive_bac_base_keys env mrz = Ok (chip_keys chip)"
    and sizes: "length (chip_rnd chip) = 8" "length (chip_half chip) = 16" "length rnd_ifd = 8" "length k_ifd = 16"
  shows "\<exists>s. establish (bac_chip_step env) env rnd_ifd k_ifd chip mrz = Ok (s, chip\<lparr>chip_session := Some s\<rparr>) \<and> session_ok s"
proof -
  let ?h = "\<lparr>base_keys = chip_keys chip, hs_rnd_ifd = rnd_ifd, hs_k_ifd = k_ifd, hs_rnd_ic = chip_rnd chip\<rparr>"
  have h: "handshake_begin env mrz (chip_rnd chip) rnd_ifd k_ifd = Ok ?h"
    using keys sizes by (simp add: handshake_begin_def del: rbind_eq_Ok)
  from handshake_agreement [OF laws hash h sizes(3,4,2)] obtain command answer s
    where *: "command_data env ?h = Ok command" "handshake_complete env ?h answer = Ok s" "session_ok s" "length answer = 40"
      and "chip_authenticate env (chip_keys chip) (chip_rnd chip) (chip_half chip) command = Ok (answer, s)"
    by auto
  then have "establish (bac_chip_step env) env rnd_ifd k_ifd chip mrz = Ok (s, chip\<lparr>chip_session := Some s\<rparr>)"
    using h sizes by (simp add: establish_def bac_chip_step_def is_success_def status_word_def del: rbind_eq_Ok)
  with *(3) show ?thesis by blast
qed

subsection \<open>Protection, completely\<close>

lemma protected_encodes:
  assumes "length d \<le> 65535" and "d \<noteq> []"
  shows "\<exists>raw. command_to_bytes \<lparr>cla = a, ins = b, p1 = c, p2 = e, cmd_data = d, le = Some 0\<rparr> = Ok raw"
  using assms by (auto simp: command_to_bytes_def encode_apdu_command_def MAX_APDU_DATA_BYTES_def Let_def)

lemma command_objects_not_empty:
  assumes "tdes_laws env E D" and "session_ok s"
  shows "concat (map tlv_frame (command_objects E D s counter cmd)) \<noteq> []"
proof -
  have "length (mac_alg3 E D (ks_mac s) x) = 8" for x
    using retail_mac_eq(2) [OF assms(1)] assms(2) by (simp add: session_ok_def)
  then show ?thesis by (simp add: command_objects_def Let_def tlv_frame_def push_ber_tlv_def)
qed

lemma next_ssc_exhausted:
  assumes "length c = 8"
  shows "checked_next_ssc c = Err SscExhausted \<longleftrightarrow> ssc_value c = 2 ^ 64 - 1"
proof (cases c rule: checked_next_ssc_cases)
  case (step t)
  have "ssc_value t < 2 ^ 64" using le_value_less [of "rev t"] step(3) assms by (simp add: ssc_value_def)
  with step show ?thesis by simp
next
  case exhausted
  with assms show ?thesis by simp
qed

subsection \<open>A cipher to compute with\<close>

text \<open>A block cipher and hash that satisfy the laws and compute: exclusive or with the key, and padding.\<close>

definition xor_env :: chip_env where
  "xor_env = \<lparr>cbc_enc = \<lambda>key iv data. Inr (cbc (ede3 xor_bytes xor_bytes key) iv data),
     cbc_dec = \<lambda>key iv data. Inr (uncbc (dec3 xor_bytes xor_bytes key) iv data),
     cbc_enc_pkcs7 = \<lambda>_ _ _. Inl [], cbc_dec_pkcs7 = \<lambda>_ _ _. Inl [],
     sha1 = \<lambda>d. take 20 (d @ replicate 20 0x5A), sha256 = \<lambda>d. take 32 (d @ replicate 32 0xA5)\<rparr>"

lemma xor_block_cipher: "block_cipher xor_bytes xor_bytes"
  unfolding block_cipher_def by (intro allI impI conjI) (simp_all add: xor_bytes_cancel)

lemma xor_env_laws: "tdes_laws xor_env xor_bytes xor_bytes"
  unfolding tdes_laws_def
  by (intro conjI allI impI xor_block_cipher) (simp_all only: xor_env_def tdes_env.simps)

lemma xor_env_hash: "hash_ok xor_env"
  by (auto simp: hash_ok_def xor_env_def)

definition sample_session :: BacSession where
  "sample_session = \<lparr>ks_enc = replicate 8 1 @ replicate 8 2, ks_mac = replicate 8 3 @ replicate 8 4, ssc = [0, 0, 0, 0, 0, 0, 0, 255]\<rparr>"

lemma sample_session_ok: "session_ok sample_session" "checked_next_ssc (ssc sample_session) = Ok [0, 0, 0, 0, 0, 0, 1, 0]"
  by (simp add: session_ok_def sample_session_def) code_simp

definition sample_key_info :: MrzKeyInfo where
  "sample_key_info = \<lparr>doc_number_with_check = lit ''L898902C<3'', dob_with_check = lit ''6908061'', expiry_with_check = lit ''9406236''\<rparr>"

lemma sample_keys: "\<exists>keys. derive_bac_base_keys xor_env sample_key_info = Ok keys"
proof -
  have "str_len (doc_number_with_check sample_key_info @ dob_with_check sample_key_info @ expiry_with_check sample_key_info) = 24"
    by (simp add: sample_key_info_def lit_def str_len_def utf8_len_def)
  then show ?thesis
    using xor_env_hash by (simp add: derive_bac_base_keys_def bac_kdf_16_Ok slice_def hash_ok_def Let_def del: rbind_eq_Ok)
qed

lemma sample_short: "length (resp_data \<lparr>resp_data = [7], sw1 = 0x90, sw2 = 0\<rparr>) \<le> 65500"
  by simp

subsection \<open>Properties\<close>

text \<open>
  C2: A response the chip protects under the next counter value is accepted, and gives back exactly
  the plain response and the session advanced to that value, whatever the outer status word.
\<close>

theorem secure_response_roundtrip:
  assumes "tdes_laws env E D" and "session_ok s" and "checked_next_ssc (ssc s) = Ok counter"
    and "length (resp_data r) \<le> 65500"
  shows "unprotect_response env s \<lparr>resp_data = concat (map tlv_frame (chip_response E D s counter r)), sw1 = x, sw2 = y\<rparr>
     = Ok (r, s\<lparr>ssc := counter\<rparr>)"
  by (rule unprotect_chip_response [OF assms])

theorem secure_response_roundtrip_witness:
  "unprotect_response xor_env sample_session
     \<lparr>resp_data = concat (map tlv_frame (chip_response xor_bytes xor_bytes sample_session [0, 0, 0, 0, 0, 0, 1, 0]
        \<lparr>resp_data = [0x60, 0x14, 0x5F], sw1 = 0x90, sw2 = 0\<rparr>)), sw1 = 0x90, sw2 = 0\<rparr>
   = Ok (\<lparr>resp_data = [0x60, 0x14, 0x5F], sw1 = 0x90, sw2 = 0\<rparr>, sample_session\<lparr>ssc := [0, 0, 0, 0, 0, 0, 1, 0]\<rparr>)"
  by (rule secure_response_roundtrip [OF xor_env_laws sample_session_ok]) simp

text \<open>
  C1: A response is accepted only if it is authentic: it is exactly a sequence of legal data objects
  with distinct tags among 87, 99 and 8E, the status returned is that of the 99 object, and the 8E
  object is the MAC, under the session's key and its next counter value, of the 87 object whose
  decryption and unpadding is the data returned and of the 99 object. The session only advances
  its counter by one.
\<close>

theorem secure_response_authentic:
  assumes "tdes_laws env E D" and "session_ok s" and "unprotect_response env s resp = Ok (r, s')"
  shows "\<exists>fs. list_all tlv_legal fs \<and> resp_data resp = concat (map tlv_frame fs)
     \<and> distinct (map fst fs) \<and> fst ` set fs \<subseteq> {0x87, 0x99, 0x8E} \<and> (0x99, [sw1 r, sw2 r]) \<in> set fs
     \<and> checked_next_ssc (ssc s) = Ok (ssc s') \<and> s' = s\<lparr>ssc := ssc s'\<rparr>
     \<and> ((\<exists>c k. (0x87, 0x01 # c) \<in> set fs
           \<and> (0x8E, mac_alg3 E D (ks_mac s) (ssc s' @ tlv_frame (0x87, 0x01 # c) @ tlv_frame (0x99, [sw1 r, sw2 r]))) \<in> set fs
           \<and> tdes_cbc_decrypt env (extend_to_24_bytes (ks_enc s)) icao_3des_cbc_iv c = Ok (resp_data r @ 0x80 # replicate k 0))
        \<or> (0x87 \<notin> fst ` set fs \<and> resp_data r = []
           \<and> (0x8E, mac_alg3 E D (ks_mac s) (ssc s' @ tlv_frame (0x99, [sw1 r, sw2 r]))) \<in> set fs))"
  by (rule unprotect_authentic [OF assms], intro exI conjI, assumption+) blast

theorem secure_response_authentic_witness:
  "\<exists>fs. list_all tlv_legal fs
     \<and> concat (map tlv_frame (chip_response xor_bytes xor_bytes sample_session [0, 0, 0, 0, 0, 0, 1, 0] \<lparr>resp_data = [7], sw1 = 0x90, sw2 = 0\<rparr>))
       = concat (map tlv_frame fs)
     \<and> distinct (map fst fs) \<and> fst ` set fs \<subseteq> {0x87, 0x99, 0x8E} \<and> (0x99, [0x90, 0]) \<in> set fs"
  using secure_response_authentic [OF xor_env_laws sample_session_ok(1)
      unprotect_chip_response [OF xor_env_laws sample_session_ok sample_short, of "0x90" "0"]]
  by (elim exE conjE) (intro exI conjI, assumption, simp_all)



text \<open>
  C4: Protecting a command succeeds exactly when its data is at most 65511 bytes, its Le at most
  256 and the counter is not at its last value, the error says which bound failed, in that order,
  and the session is then unchanged. On success the result holds the data objects of ICAO 9303-11
  under the next counter value, and always fits an extended APDU.
\<close>

theorem protect_command_exact:
  assumes "tdes_laws env E D" and "session_ok s" and "length (ssc s) = 8"
  shows "if length (cmd_data cmd) > 65511 then protect_command env s cmd = Err SmCommandTooLarge
     else if \<exists>n. le cmd = Some n \<and> n > 256 then protect_command env s cmd = Err SmLe
     else if ssc_value (ssc s) = 2 ^ 64 - 1 then protect_command env s cmd = Err SscExhausted
     else \<exists>counter p raw. ssc_value counter = Suc (ssc_value (ssc s)) \<and> length counter = 8
       \<and> p = \<lparr>cla = cla cmd OR 0x0C, ins = ins cmd, p1 = p1 cmd, p2 = p2 cmd,
             cmd_data = concat (map tlv_frame (command_objects E D s counter cmd)), le = Some 0\<rparr>
       \<and> protect_command env s cmd = Ok (p, s\<lparr>ssc := counter\<rparr>) \<and> command_to_bytes p = Ok raw"
proof (cases "length (cmd_data cmd) > 65511 \<or> (\<exists>n. le cmd = Some n \<and> n > 256)")
  case True
  then show ?thesis
    by (auto simp: protect_command_def MAX_BAC_COMMAND_DATA_BYTES_def simp del: rbind_eq_Ok)
next
  case False
  then have b: "length (cmd_data cmd) \<le> 65511" "\<forall>n. le cmd = Some n \<longrightarrow> n \<le> 256" by (auto simp: not_less)
  show ?thesis
  proof (cases "ssc s" rule: checked_next_ssc_cases)
    case (step counter)
    then have "ssc_value (ssc s) \<noteq> 2 ^ 64 - 1" using next_ssc_exhausted [OF assms(3)] by simp
    with False step assms(3) protect_command_eq [OF assms(1,2) b step(1)]
      protected_encodes [OF _ command_objects_not_empty [OF assms(1,2)]]
    show ?thesis by auto
  next
    case exhausted
    with False b next_ssc_exhausted [OF assms(3)] show ?thesis
      by (auto simp: protect_command_def MAX_BAC_COMMAND_DATA_BYTES_def simp del: rbind_eq_Ok split: option.splits)
  qed
qed

theorem protect_command_exact_witness:
  "\<exists>counter p raw. ssc_value counter = 256
     \<and> protect_command xor_env sample_session \<lparr>cla = 0, ins = 0xB0, p1 = 0, p2 = 0, cmd_data = [], le = Some 4\<rparr>
       = Ok (p, sample_session\<lparr>ssc := counter\<rparr>) \<and> command_to_bytes p = Ok raw"
proof -
  have v: "ssc_value (ssc sample_session) = 255" "length (ssc sample_session) = 8"
    by (simp_all add: sample_session_def ssc_value_def)
  show ?thesis
    using protect_command_exact [OF xor_env_laws sample_session_ok(1) v(2),
        of "\<lparr>cla = 0, ins = 0xB0, p1 = 0, p2 = 0, cmd_data = [], le = Some 4\<rparr>"] v(1) by auto
qed

text \<open>
  C5: Against a chip that follows the access procedure with the keys of the same machine readable
  zone, establishing a session succeeds, and both sides end with the same session.
\<close>

theorem bac_establish_agreement:
  assumes "tdes_laws env E D" and "hash_ok env"
    and "derive_bac_base_keys env mrz = Ok (chip_keys chip)"
    and "length (chip_rnd chip) = 8" "length (chip_half chip) = 16" "length rnd_ifd = 8" "length k_ifd = 16"
  shows "\<exists>s. establish (bac_chip_step env) env rnd_ifd k_ifd chip mrz = Ok (s, chip\<lparr>chip_session := Some s\<rparr>) \<and> session_ok s"
  by (rule establish_agreement [OF assms])

theorem bac_establish_agreement_witness:
  "\<exists>keys s. derive_bac_base_keys xor_env sample_key_info = Ok keys
     \<and> establish (bac_chip_step xor_env) xor_env (replicate 8 9) (replicate 16 10)
         \<lparr>chip_keys = keys, chip_rnd = replicate 8 11, chip_half = replicate 16 12, chip_session = None\<rparr> sample_key_info
       = Ok (s, \<lparr>chip_keys = keys, chip_rnd = replicate 8 11, chip_half = replicate 16 12, chip_session = Some s\<rparr>)"
proof -
  obtain keys where k: "derive_bac_base_keys xor_env sample_key_info = Ok keys"
    using sample_keys by blast
  from bac_establish_agreement [OF xor_env_laws xor_env_hash, of sample_key_info
      "\<lparr>chip_keys = keys, chip_rnd = replicate 8 11, chip_half = replicate 16 12, chip_session = None\<rparr>"
      "replicate 8 9" "replicate 16 10"] k
  show ?thesis by auto
qed

text \<open>
  The two retail MAC implementations, the one of the chip reader by prefix and last block and
  the one of the cryptography crate by single DES steps, compute the same function.
\<close>

theorem retail_macs_agree:
  assumes "tdes_laws env E D" and "length key = 16"
  shows "retail_mac_3des env key data = map_err SmCipher (retail_mac env key data)"
  using retail_mac_3des_eq [OF assms] retail_mac_eq(1) [OF assms] by simp

theorem retail_macs_agree_witness:
  "retail_mac_3des xor_env [1, 2, 3, 4, 5, 6, 7, 8, 9, 10, 11, 12, 13, 14, 15, 16] [1, 2, 3]
   = map_err SmCipher (retail_mac xor_env [1, 2, 3, 4, 5, 6, 7, 8, 9, 10, 11, 12, 13, 14, 15, 16] [1, 2, 3])"
  by (rule retail_macs_agree [OF xor_env_laws]) simp

end
