(* ===== verification/Flow.thy ===== *)
theory Flow
  imports RustStr "HOL-Library.AList" "HOL-Library.Multiset"
begin

text \<open>
  Flow lifecycle and graph decisions (\<open>marty-verification/src/flow.rs\<close>): the status machine of a
  flow instance, the validation of a flow graph (identifiers, uniqueness, reachability by a
  breadth-first search, acyclicity by removing roots) and the choice of the next step. A
  \<open>HashMap\<close> is an association list; the order in which it yields its keys is not specified, so it
  is an argument of the validation.
\<close>

subsection \<open>The status of a flow instance\<close>

datatype FlowInstanceStatus =
    Created | Pending | InProgress | AwaitingWallet | AwaitingApproval | AwaitingEvidence
  | Completed | Failed | Cancelled | Expired

datatype TransitionOutcome =
    Success | Failure | Timeout | UserCancel | ApprovalGranted | ApprovalDenied | ConditionMet
  | Always | QrScanned | TokenExchanged | CredentialIssued

datatype FlowError =
    TransitionNotAllowed FlowInstanceStatus FlowInstanceStatus
  | InvalidGraph ustr
  | AmbiguousTransition ustr TransitionOutcome
  | LimitExceeded ustr

fun status_name :: "FlowInstanceStatus \<Rightarrow> ustr" where
  "status_name Created = lit ''created''"
| "status_name Pending = lit ''pending''"
| "status_name InProgress = lit ''in_progress''"
| "status_name AwaitingWallet = lit ''awaiting_wallet''"
| "status_name AwaitingApproval = lit ''awaiting_approval''"
| "status_name AwaitingEvidence = lit ''awaiting_evidence''"
| "status_name Completed = lit ''completed''"
| "status_name Failed = lit ''failed''"
| "status_name Cancelled = lit ''cancelled''"
| "status_name Expired = lit ''expired''"

definition is_terminal :: "FlowInstanceStatus \<Rightarrow> bool" where
  "is_terminal s \<longleftrightarrow> s \<in> {Completed, Failed, Cancelled, Expired}"

definition can_transition_to :: "FlowInstanceStatus \<Rightarrow> FlowInstanceStatus \<Rightarrow> bool" where
  "can_transition_to s target \<longleftrightarrow>
     (case s of
        Created \<Rightarrow> target \<in> {Pending, InProgress, Cancelled}
      | Pending \<Rightarrow> target \<in> {InProgress, Cancelled}
      | InProgress \<Rightarrow> target \<in> {AwaitingWallet, AwaitingApproval, AwaitingEvidence, Completed, Failed, Cancelled, Expired}
      | AwaitingWallet \<Rightarrow> target \<in> {InProgress, Cancelled, Expired}
      | AwaitingApproval \<Rightarrow> target \<in> {InProgress, Failed, Cancelled}
      | AwaitingEvidence \<Rightarrow> target \<in> {InProgress, Cancelled, Expired}
      | _ \<Rightarrow> False)"

record FlowTransitionRequest =
  req_current :: FlowInstanceStatus
  req_target :: FlowInstanceStatus
  req_actor :: "ustr option"
  req_event :: "ustr option"

record FlowTransitionDecision =
  prior_state :: FlowInstanceStatus
  new_state :: FlowInstanceStatus
  terminal :: bool
  no_op :: bool
  dec_actor :: "ustr option"
  dec_event :: ustr

definition event_name :: "FlowTransitionRequest \<Rightarrow> ustr" where
  "event_name r = (case req_event r of Some e \<Rightarrow> e
     | None \<Rightarrow> status_name (req_current r) @ lit ''_to_'' @ status_name (req_target r))"

definition evaluate_transition :: "FlowTransitionRequest \<Rightarrow> (FlowTransitionDecision, FlowError) result" where
  "evaluate_transition r =
     (if req_current r = req_target r then
        Ok \<lparr>prior_state = req_current r, new_state = req_target r, terminal = is_terminal (req_target r),
            no_op = True, dec_actor = req_actor r, dec_event = event_name r\<rparr>
      else if \<not> can_transition_to (req_current r) (req_target r) then
        Err (TransitionNotAllowed (req_current r) (req_target r))
      else
        Ok \<lparr>prior_state = req_current r, new_state = req_target r, terminal = is_terminal (req_target r),
            no_op = False, dec_actor = req_actor r, dec_event = event_name r\<rparr>)"

subsection \<open>Flow graphs\<close>

definition MAX_STEPS :: nat where "MAX_STEPS = 1024"
definition MAX_TRANSITIONS :: nat where "MAX_TRANSITIONS = 8192"
definition MAX_STEP_ID_BYTES :: nat where "MAX_STEP_ID_BYTES = 128"

record FlowGraphTransition =
  from_step_id :: ustr
  to_step_id :: ustr
  outcome :: TransitionOutcome

record FlowGraphRequest =
  entry_step_id :: ustr
  step_ids :: "ustr list"
  transitions :: "FlowGraphTransition list"

record FlowGraphDecision =
  graph_valid :: bool
  step_count :: nat
  transition_count :: nat

definition valid_step_id :: "ustr \<Rightarrow> bool" where
  "valid_step_id s \<longleftrightarrow> \<not> (s = [] \<or> str_len s > MAX_STEP_ID_BYTES \<or> \<not> is_ascii s)
     \<and> (case s of [] \<Rightarrow> False
        | c # cs \<Rightarrow> is_ascii_alphanumeric c \<and> list_all (\<lambda>b. is_ascii_alphanumeric b \<or> b \<in> {95, 45}) cs)"

primrec check_steps :: "ustr list \<Rightarrow> ustr set \<Rightarrow> (ustr set, FlowError) result" where
  "check_steps [] seen = Ok seen"
| "check_steps (s # rest) seen =
     rbind (ensure (valid_step_id s) (InvalidGraph (lit ''invalid step_id: '' @ s))) (\<lambda>_.
     rbind (ensure (s \<notin> seen) (InvalidGraph (lit ''step_id values must be unique''))) (\<lambda>_.
     check_steps rest (insert s seen)))"

text \<open>\<open>HashMap::get_mut(k).expect(...)\<close> followed by a write.\<close>

definition modify_key :: "'k \<Rightarrow> ('v \<Rightarrow> 'v) \<Rightarrow> ('k \<times> 'v) list \<Rightarrow> (('k \<times> 'v) list, 'e) result" where
  "modify_key k f m = (case map_of m k of None \<Rightarrow> Panic | Some v \<Rightarrow> Ok (AList.update k (f v) m))"

primrec add_transitions ::
    "ustr set \<Rightarrow> FlowGraphTransition list \<Rightarrow> (ustr \<times> TransitionOutcome) set \<Rightarrow> (ustr \<times> ustr list) list
       \<Rightarrow> (ustr \<times> nat) list \<Rightarrow> ((ustr \<times> ustr list) list \<times> (ustr \<times> nat) list, FlowError) result" where
  "add_transitions ids [] decisions adjacency indegree = Ok (adjacency, indegree)"
| "add_transitions ids (t # rest) decisions adjacency indegree =
     rbind (ensure (\<not> (from_step_id t \<notin> ids \<or> to_step_id t \<notin> ids))
              (InvalidGraph (lit ''transitions must reference declared steps''))) (\<lambda>_.
     rbind (ensure ((from_step_id t, outcome t) \<notin> decisions) (AmbiguousTransition (from_step_id t) (outcome t))) (\<lambda>_.
     rbind (modify_key (from_step_id t) (\<lambda>v. v @ [to_step_id t]) adjacency) (\<lambda>adjacency'.
     rbind (modify_key (to_step_id t) (\<lambda>d. d + 1) indegree) (\<lambda>indegree'.
     add_transitions ids rest (insert (from_step_id t, outcome t) decisions) adjacency' indegree'))))"

text \<open>The search from the entry step. Every insertion removes a key from the steps still to be seen.\<close>

function reach_loop :: "(ustr \<times> ustr list) list \<Rightarrow> ustr list \<Rightarrow> ustr set \<Rightarrow> (ustr set, FlowError) result" where
  "reach_loop adjacency [] reachable = Ok reachable"
| "reach_loop adjacency (s # frontier) reachable =
     (if s \<in> reachable then reach_loop adjacency frontier reachable
      else (case map_of adjacency s of None \<Rightarrow> Panic
            | Some next_steps \<Rightarrow> reach_loop adjacency (frontier @ next_steps) (insert s reachable)))"
  by pat_completeness auto
termination
proof (relation "measures [\<lambda>(adjacency, f, r). card (fst ` set adjacency - r), \<lambda>(adjacency, f, r). length f]", goal_cases)
  case (3 adjacency s frontier reachable next_steps)
  then have "s \<in> fst ` set adjacency" by (auto dest: map_of_SomeD intro: rev_image_eqI)
  with 3 have "card (fst ` set adjacency - insert s reachable) < card (fst ` set adjacency - reachable)"
    by (intro psubset_card_mono) auto
  then show ?case by simp
qed simp_all

text \<open>Removing a root lowers the degree of its successors; a degree below zero would panic.\<close>

primrec lower_degrees :: "ustr list \<Rightarrow> (ustr \<times> nat) list \<Rightarrow> ustr list \<Rightarrow> ((ustr \<times> nat) list \<times> ustr list, FlowError) result" where
  "lower_degrees [] indegree roots = Ok (indegree, roots)"
| "lower_degrees (d # rest) indegree roots =
     (case map_of indegree d of
        None \<Rightarrow> Panic
      | Some degree \<Rightarrow>
          if degree = 0 then Panic
          else lower_degrees rest (AList.update d (degree - 1) indegree)
                 (if degree - 1 = 0 then roots @ [d] else roots))"

lemma sum_update: "map_of m k = Some v \<Longrightarrow> sum_list (map snd (AList.update k w m)) + v = sum_list (map snd m) + (w :: nat)"
  by (induction m) auto

lemma lower_degrees_measure:
  "lower_degrees ds deg roots = Ok (deg', roots')
     \<Longrightarrow> sum_list (map snd deg') + length roots' \<le> sum_list (map snd deg) + length roots"
proof (induction ds arbitrary: deg roots)
  case (Cons d ds)
  from Cons.prems obtain v where v: "map_of deg d = Some v" "0 < v" by (auto split: option.splits if_splits)
  have "sum_list (map snd (AList.update d (v - 1) deg)) + 1 = sum_list (map snd deg)"
    using sum_update [OF v(1), of "v - 1"] v(2) by simp
  with Cons.IH [of "AList.update d (v - 1) deg" "if v - 1 = 0 then roots @ [d] else roots"] Cons.prems v
  show ?case by (simp split: if_splits)
qed simp

function roots_loop :: "(ustr \<times> ustr list) list \<Rightarrow> ustr list \<Rightarrow> (ustr \<times> nat) list \<Rightarrow> nat \<Rightarrow> (nat, FlowError) result" where
  "roots_loop adjacency [] indegree visited = Ok visited"
| "roots_loop adjacency (s # roots) indegree visited =
     (case map_of adjacency s of
        None \<Rightarrow> Panic
      | Some dests \<Rightarrow>
          (case lower_degrees dests indegree roots of
             Ok (indegree', roots') \<Rightarrow> roots_loop adjacency roots' indegree' (visited + 1)
           | Err e \<Rightarrow> Err e
           | Panic \<Rightarrow> Panic))"
  by pat_completeness auto
termination
  by (relation "measure (\<lambda>(adjacency, roots, deg, v). sum_list (map snd deg) + length roots)")
    (auto dest!: lower_degrees_measure)

definition validate_graph :: "(ustr list \<Rightarrow> ustr list) \<Rightarrow> FlowGraphRequest \<Rightarrow> (FlowGraphDecision, FlowError) result" where
  "validate_graph key_order request =
     (let steps = step_ids request in
      rbind (ensure (steps \<noteq> []) (InvalidGraph (lit ''at least one step is required''))) (\<lambda>_.
      rbind (ensure (\<not> length steps > MAX_STEPS) (LimitExceeded (lit ''graph contains more than 1024 steps''))) (\<lambda>_.
      rbind (ensure (\<not> length (transitions request) > MAX_TRANSITIONS)
               (LimitExceeded (lit ''graph contains more than 8192 transitions''))) (\<lambda>_.
      rbind (ensure (valid_step_id (entry_step_id request)) (InvalidGraph (lit ''entry_step_id is invalid''))) (\<lambda>_.
      rbind (check_steps steps {}) (\<lambda>ids.
      rbind (ensure (entry_step_id request \<in> ids) (InvalidGraph (lit ''entry_step_id must reference a declared step''))) (\<lambda>_.
      rbind (add_transitions ids (transitions request) {} (map (\<lambda>s. (s, [])) steps) (map (\<lambda>s. (s, 0)) steps))
        (\<lambda>(adjacency, indegree).
      rbind (reach_loop adjacency [entry_step_id request] {}) (\<lambda>reachable.
      rbind (ensure (\<not> card reachable \<noteq> length steps)
               (InvalidGraph (lit ''every step must be reachable from entry_step_id''))) (\<lambda>_.
      let roots = filter (\<lambda>s. map_of indegree s = Some 0) (key_order (map fst indegree)) in
      rbind (roots_loop adjacency roots indegree 0) (\<lambda>visited.
      rbind (ensure (\<not> visited \<noteq> length steps) (InvalidGraph (lit ''flow graph must be acyclic''))) (\<lambda>_.
      Ok \<lparr>graph_valid = True, step_count = length steps, transition_count = length (transitions request)\<rparr>))))))))))))"

definition select_next_step ::
    "(ustr list \<Rightarrow> ustr list) \<Rightarrow> FlowGraphRequest \<Rightarrow> ustr \<Rightarrow> TransitionOutcome \<Rightarrow> (ustr option, FlowError) result" where
  "select_next_step key_order request current_step_id out =
     rbind (validate_graph key_order request) (\<lambda>_.
     rbind (ensure (\<not> \<not> list_ex (\<lambda>s. s = current_step_id) (step_ids request))
              (InvalidGraph (lit ''current_step_id must reference a declared step''))) (\<lambda>_.
     Ok (map_option to_step_id
           (List.find (\<lambda>t. from_step_id t = current_step_id \<and> outcome t = out) (transitions request)))))"

subsection \<open>The graph that a request describes\<close>

definition edges :: "FlowGraphTransition list \<Rightarrow> (ustr \<times> ustr) set" where
  "edges ts = (\<lambda>t. (from_step_id t, to_step_id t)) ` set ts"

definition successors :: "FlowGraphTransition list \<Rightarrow> ustr \<Rightarrow> ustr list" where
  "successors ts s = map to_step_id (filter (\<lambda>t. from_step_id t = s) ts)"

definition flow_graph_ok :: "FlowGraphRequest \<Rightarrow> bool" where
  "flow_graph_ok r \<longleftrightarrow> step_ids r \<noteq> [] \<and> length (step_ids r) \<le> 1024 \<and> length (transitions r) \<le> 8192
     \<and> list_all valid_step_id (step_ids r) \<and> distinct (step_ids r) \<and> entry_step_id r \<in> set (step_ids r)
     \<and> edges (transitions r) \<subseteq> set (step_ids r) \<times> set (step_ids r)
     \<and> distinct (map (\<lambda>t. (from_step_id t, outcome t)) (transitions r))
     \<and> set (step_ids r) \<subseteq> (edges (transitions r))\<^sup>* `` {entry_step_id r} \<and> acyclic (edges (transitions r))"

lemma check_steps_Ok:
  "check_steps ss seen = Ok ids \<longleftrightarrow> list_all valid_step_id ss \<and> distinct ss \<and> set ss \<inter> seen = {} \<and> ids = set ss \<union> seen"
  by (induction ss arbitrary: seen) auto

lemma check_steps_not_Panic: "check_steps ss seen \<noteq> Panic"
  by (induction ss arbitrary: seen) (auto simp: rbind_eq_Panic ensure_def)

lemma edges_simps [simp]: "edges [] = {}" "edges (t # ts) = insert (from_step_id t, to_step_id t) (edges ts)"
  "edges (ts @ us) = edges ts \<union> edges us"
  by (auto simp: edges_def)

lemma successors_snoc: "successors (ts @ [t]) s = successors ts s @ (if from_step_id t = s then [to_step_id t] else [])"
  by (simp add: successors_def)

lemma set_successors: "set (successors ts s) = edges ts `` {s}"
  by (auto simp: successors_def edges_def)

definition in_count :: "FlowGraphTransition list \<Rightarrow> ustr \<Rightarrow> nat" where
  "in_count ts s = length (filter (\<lambda>t. to_step_id t = s) ts)"

definition adj_of :: "ustr set \<Rightarrow> FlowGraphTransition list \<Rightarrow> (ustr \<times> ustr list) list \<Rightarrow> bool" where
  "adj_of ids ts m \<longleftrightarrow> map_of m = (\<lambda>s. if s \<in> ids then Some (successors ts s) else None)"

definition deg_of :: "ustr set \<Rightarrow> FlowGraphTransition list \<Rightarrow> (ustr \<times> nat) list \<Rightarrow> bool" where
  "deg_of ids ts m \<longleftrightarrow> map_of m = (\<lambda>s. if s \<in> ids then Some (in_count ts s) else None)"

lemma modify_adj:
  assumes "adj_of ids ts m" and "from_step_id t \<in> ids"
  shows "\<exists>m'. modify_key (from_step_id t) (\<lambda>v. v @ [to_step_id t]) m = (Ok m' :: (_, FlowError) result) \<and> adj_of ids (ts @ [t]) m'"
  using assms by (auto simp: modify_key_def adj_of_def update_conv' successors_snoc fun_eq_iff)

lemma modify_deg:
  assumes "deg_of ids ts m" and "to_step_id t \<in> ids"
  shows "\<exists>m'. modify_key (to_step_id t) (\<lambda>d. d + 1) m = (Ok m' :: (_, FlowError) result) \<and> deg_of ids (ts @ [t]) m' \<and> map fst m' = map fst m"
proof -
  have "to_step_id t \<in> fst ` set m" using assms map_of_SomeD [of m "to_step_id t"] by (auto simp: deg_of_def intro: rev_image_eqI)
  then show ?thesis
    using assms by (auto simp: modify_key_def deg_of_def update_conv' in_count_def fun_eq_iff update_keys)
qed

lemma add_transitions_cases:
  assumes "adj_of ids ts adj" and "deg_of ids ts deg" and "decisions = (\<lambda>t. (from_step_id t, outcome t)) ` set ts"
  shows "if edges us \<subseteq> ids \<times> ids \<and> distinct (map (\<lambda>t. (from_step_id t, outcome t)) us)
           \<and> (\<lambda>t. (from_step_id t, outcome t)) ` set us \<inter> decisions = {}
         then \<exists>adj' deg'. add_transitions ids us decisions adj deg = Ok (adj', deg')
                \<and> adj_of ids (ts @ us) adj' \<and> deg_of ids (ts @ us) deg' \<and> map fst deg' = map fst deg
         else \<exists>e. add_transitions ids us decisions adj deg = Err e"
  using assms
proof (induction us arbitrary: ts decisions adj deg)
  case (Cons t us)
  show ?case
  proof (cases "from_step_id t \<in> ids \<and> to_step_id t \<in> ids \<and> (from_step_id t, outcome t) \<notin> decisions")
    case True
    then obtain adj1 deg1 where
      a: "modify_key (from_step_id t) (\<lambda>v. v @ [to_step_id t]) adj = (Ok adj1 :: (_, FlowError) result)" "adj_of ids (ts @ [t]) adj1" and
      d: "modify_key (to_step_id t) (\<lambda>d. d + 1) deg = (Ok deg1 :: (_, FlowError) result)" "deg_of ids (ts @ [t]) deg1" "map fst deg1 = map fst deg"
      using modify_adj [OF Cons.prems(1)] modify_deg [OF Cons.prems(2)] by metis
    have eq: "add_transitions ids (t # us) decisions adj deg
        = add_transitions ids us (insert (from_step_id t, outcome t) decisions) adj1 deg1"
      using True a(1) d(1) by (simp del: rbind_eq_Ok)
    have dec: "insert (from_step_id t, outcome t) decisions = (\<lambda>t. (from_step_id t, outcome t)) ` set (ts @ [t])"
      using Cons.prems(3) by simp
    show ?thesis
      using Cons.IH [OF a(2) d(2) dec] True d(3) unfolding eq by (auto split: if_splits)
  next
    case False
    then show ?thesis by (auto simp: ensure_def)
  qed
qed simp

subsection \<open>The search finds the reachable steps\<close>

lemma reach_loop_correct:
  assumes "adj_of ids ts adj" and "edges ts \<subseteq> ids \<times> ids" and "set frontier \<subseteq> ids"
    and "\<forall>x \<in> reachable. edges ts `` {x} \<subseteq> reachable \<union> set frontier"
  shows "\<exists>r. reach_loop adj frontier reachable = Ok r \<and> reachable \<union> set frontier \<subseteq> r
     \<and> r \<subseteq> reachable \<union> (edges ts)\<^sup>* `` set frontier \<and> edges ts `` r \<subseteq> r"
  using assms
proof (induction adj frontier reachable rule: reach_loop.induct)
  case (1 adj reachable)
  then show ?case by auto
next
  case (2 adj s frontier reachable)
  show ?case
  proof (cases "s \<in> reachable")
    case True
    then have "\<forall>x \<in> reachable. edges ts `` {x} \<subseteq> reachable \<union> set frontier" using 2(6) by auto
    with 2(1) [OF True] 2(3-5) obtain r where r: "reach_loop adj frontier reachable = Ok r" "reachable \<union> set frontier \<subseteq> r"
        "r \<subseteq> reachable \<union> (edges ts)\<^sup>* `` set frontier" "edges ts `` r \<subseteq> r"
      by auto
    then show ?thesis using True by (intro exI [of _ r]) auto
  next
    case False
    have m: "map_of adj s = Some (successors ts s)" using 2(3,5) by (simp add: adj_of_def)
    have "set (frontier @ successors ts s) \<subseteq> ids" using 2(4,5) by (auto simp: set_successors)
    moreover have "\<forall>x \<in> insert s reachable. edges ts `` {x} \<subseteq> insert s reachable \<union> set (frontier @ successors ts s)"
      using 2(6) by (auto simp: set_successors)
    ultimately obtain r where r: "reach_loop adj (frontier @ successors ts s) (insert s reachable) = Ok r"
        "insert s reachable \<union> set (frontier @ successors ts s) \<subseteq> r"
        "r \<subseteq> insert s reachable \<union> (edges ts)\<^sup>* `` set (frontier @ successors ts s)" "edges ts `` r \<subseteq> r"
      using 2(2) [OF False m] 2(3,4) by auto
    have "(edges ts)\<^sup>* `` set (frontier @ successors ts s) \<subseteq> (edges ts)\<^sup>* `` set (s # frontier)"
      by (auto simp: set_successors intro: converse_rtrancl_into_rtrancl)
    moreover have "s \<in> (edges ts)\<^sup>* `` set (s # frontier)" by auto
    ultimately have "r \<subseteq> reachable \<union> (edges ts)\<^sup>* `` set (s # frontier)" using r(3) by blast
    with r m False show ?thesis by (intro exI [of _ r]) auto
  qed
qed

lemma closed_rtrancl: "E `` r \<subseteq> r \<Longrightarrow> x \<in> r \<Longrightarrow> E\<^sup>* `` {x} \<subseteq> r"
proof
  fix y assume "E `` r \<subseteq> r" "x \<in> r" "y \<in> E\<^sup>* `` {x}"
  then have "(x, y) \<in> E\<^sup>*" by simp
  then show "y \<in> r" using \<open>E `` r \<subseteq> r\<close> \<open>x \<in> r\<close> by (induction rule: rtrancl_induct) auto
qed

lemma reach_loop_entry:
  assumes "adj_of ids ts adj" and "edges ts \<subseteq> ids \<times> ids" and "entry \<in> ids"
  shows "reach_loop adj [entry] {} = Ok ((edges ts)\<^sup>* `` {entry})"
proof -
  obtain r where r: "reach_loop adj [entry] {} = Ok r" "entry \<in> r" "r \<subseteq> (edges ts)\<^sup>* `` {entry}" "edges ts `` r \<subseteq> r"
    using reach_loop_correct [OF assms(1,2), of "[entry]" "{}"] assms(3) by auto
  with closed_rtrancl [OF r(4,2)] show ?thesis by auto
qed

subsection \<open>Removing roots decides acyclicity\<close>

text \<open>The state of the removal: the pending edges are those of the steps still in the graph and of the root just taken.\<close>

definition pending :: "FlowGraphTransition list \<Rightarrow> ustr set \<Rightarrow> ustr \<Rightarrow> nat" where
  "pending ts U s = length (filter (\<lambda>t. to_step_id t = s \<and> from_step_id t \<in> U) ts)"

definition removal_inv :: "ustr set \<Rightarrow> FlowGraphTransition list \<Rightarrow> ustr list \<Rightarrow> ustr set \<Rightarrow> (ustr \<times> nat) list \<Rightarrow> ustr list \<Rightarrow> bool" where
  "removal_inv ids ts ds U deg roots \<longleftrightarrow>
     map_of deg = (\<lambda>s. if s \<in> ids then Some (count_list ds s + pending ts U s) else None)
     \<and> U \<subseteq> ids \<and> set ds \<subseteq> ids \<and> distinct roots
     \<and> set roots = {u \<in> U. count_list ds u + pending ts U u = 0}
     \<and> (\<forall>s \<in> ids - U. count_list ds s + pending ts U s = 0)"

lemma lower_degrees_inv:
  "removal_inv ids ts ds U deg roots \<Longrightarrow>
     \<exists>deg' roots'. lower_degrees ds deg roots = Ok (deg', roots') \<and> removal_inv ids ts [] U deg' roots'"
proof (induction ds arbitrary: deg roots)
  case (Cons d ds)
  have d: "d \<in> ids" "map_of deg d = Some (Suc (count_list ds d + pending ts U d))"
    using Cons.prems by (auto simp: removal_inv_def)
  have "d \<in> U"
  proof (rule ccontr)
    assume "d \<notin> U"
    with Cons.prems d(1) have "count_list (d # ds) d + pending ts U d = 0" unfolding removal_inv_def by blast
    then show False by simp
  qed
  then have U: "d \<in> U" "d \<notin> set roots" using Cons.prems by (auto simp: removal_inv_def)
  let ?deg = "AList.update d (count_list ds d + pending ts U d) deg"
  let ?roots = "if count_list ds d + pending ts U d = 0 then roots @ [d] else roots"
  have "removal_inv ids ts ds U ?deg ?roots"
    using Cons.prems U d unfolding removal_inv_def
    by (auto simp: update_conv' fun_eq_iff split: if_splits)
  from Cons.IH [OF this] d show ?case by (auto split: if_splits)
qed auto

lemma pending_remove:
  "s \<in> U \<Longrightarrow> pending ts U x = count_list (successors ts s) x + pending ts (U - {s}) x"
  by (induction ts) (auto simp: pending_def successors_def)

lemma pending_zero: "pending ts U x = 0 \<longleftrightarrow> (\<forall>u \<in> U. (u, x) \<notin> edges ts)"
  by (auto simp: pending_def edges_def filter_empty_conv)

lemma take_root:
  assumes "removal_inv ids ts [] U deg (s # roots)" and "edges ts \<subseteq> ids \<times> ids"
  shows "removal_inv ids ts (successors ts s) (U - {s}) deg roots" "s \<in> U" "pending ts U s = 0"
proof -
  show s: "s \<in> U" "pending ts U s = 0" using assms(1) by (auto simp: removal_inv_def)
  have eq: "count_list (successors ts s) x + pending ts (U - {s}) x = pending ts U x" for x
    using pending_remove [OF s(1)] by simp
  have "set (successors ts s) \<subseteq> ids" using assms(2) by (auto simp: set_successors)
  moreover have "count_list (successors ts s) s + pending ts (U - {s}) s = 0" using eq s by simp
  ultimately show "removal_inv ids ts (successors ts s) (U - {s}) deg roots"
    using assms(1) s unfolding removal_inv_def eq by (auto simp: eq)
qed

lemma acyclic_remove:
  assumes "acyclic {(x, y) \<in> E. y \<notin> U}" and "\<forall>(x, y) \<in> E. y \<notin> U \<longrightarrow> x \<notin> U" and "s \<in> U" and "\<forall>u \<in> U. (u, s) \<notin> E"
  shows "acyclic {(x, y) \<in> E. y \<notin> U - {s}}" "\<forall>(x, y) \<in> E. y \<notin> U - {s} \<longrightarrow> x \<notin> U - {s}"
proof -
  let ?A = "{(x, y) \<in> E. y \<notin> U}" and ?B = "{(x, y) \<in> E. y \<notin> U - {s}}"
  show "\<forall>(x, y) \<in> E. y \<notin> U - {s} \<longrightarrow> x \<notin> U - {s}" using assms(2,4) by auto
  have no_out: "(s, y) \<notin> ?A" for y using assms(2,3) by auto
  have step: "(x, y) \<in> ?B \<Longrightarrow> (x, y) \<in> ?A \<or> (y = s \<and> x \<noteq> s)" for x y using assms(3,4) by auto
  have path: "(x, y) \<in> ?B\<^sup>+ \<Longrightarrow> x \<noteq> s \<and> ((x, y) \<in> ?A\<^sup>+ \<or> y = s)" for x y
  proof (induction rule: trancl_induct)
    case (base y) then show ?case using step no_out by blast
  next
    case (step y z)
    show ?case
    proof (cases "y = s")
      case True
      then have "(s, z) \<in> ?B" using step.hyps(2) by simp
      then show ?thesis using assms(2,3,4) by auto
    next
      case False
      with step.IH have "(x, y) \<in> ?A\<^sup>+" by simp
      moreover have "(y, z) \<in> ?A \<or> z = s" using step.hyps(2) by auto
      ultimately show ?thesis using step.IH by (blast intro: trancl_into_trancl)
    qed
  qed
  show "acyclic ?B"
    using path assms(1) unfolding acyclic_def by blast
qed

lemma acyclic_iff_removed:
  assumes "finite E" and "finite U" and "\<forall>(x, y) \<in> E. y \<notin> U \<longrightarrow> x \<notin> U" and "acyclic {(x, y) \<in> E. y \<notin> U}"
    and "\<forall>u \<in> U. \<exists>x \<in> U. (x, u) \<in> E"
  shows "U = {} \<longleftrightarrow> acyclic E"
proof
  assume "U = {}"
  then show "acyclic E" using assms(4) by simp
next
  assume "acyclic E"
  then have wf: "wf E" using assms(1) by (rule finite_acyclic_wf [rotated])
  show "U = {}"
  proof (rule ccontr)
    assume "U \<noteq> {}"
    then obtain z where "z \<in> U" "\<And>y. (y, z) \<in> E \<Longrightarrow> y \<notin> U" using wfE_min [OF wf] by blast
    with assms(5) show False by blast
  qed
qed

lemma roots_loop_correct:
  assumes "adj_of ids ts adj" and "edges ts \<subseteq> ids \<times> ids" and "finite ids"
    and "removal_inv ids ts [] U deg roots"
    and "acyclic {(x, y) \<in> edges ts. y \<notin> U}" and "\<forall>(x, y) \<in> edges ts. y \<notin> U \<longrightarrow> x \<notin> U"
  shows "\<exists>n. roots_loop adj roots deg visited = Ok n \<and> n \<le> visited + card U \<and> (n = visited + card U \<longleftrightarrow> acyclic (edges ts))"
  using assms
proof (induction adj roots deg visited arbitrary: U rule: roots_loop.induct)
  case (1 adj deg visited)
  have fin: "finite U" using 1 finite_subset by (auto simp: removal_inv_def)
  have "\<forall>u \<in> U. \<exists>x \<in> U. (x, u) \<in> edges ts"
    using 1(4) pending_zero [of ts U] by (auto simp: removal_inv_def)
  then have "U = {} \<longleftrightarrow> acyclic (edges ts)"
    using acyclic_iff_removed [OF _ fin 1(6,5)] by (simp add: edges_def)
  with fin show ?case by auto
next
  case (2 adj s roots deg visited)
  note root = take_root [OF 2(5,3)]
  have m: "map_of adj s = Some (successors ts s)" using 2(2,5) root(2) by (auto simp: adj_of_def removal_inv_def)
  from lower_degrees_inv [OF root(1)] obtain deg' roots'
    where l: "lower_degrees (successors ts s) deg roots = Ok (deg', roots')" "removal_inv ids ts [] (U - {s}) deg' roots'"
    by auto
  have U: "finite U" using 2(4,5) finite_subset by (auto simp: removal_inv_def)
  then have c: "card U = Suc (card (U - {s}))" using root(2) by (rule card_Suc_Diff1 [symmetric])
  have "\<forall>u \<in> U. (u, s) \<notin> edges ts" using root(3) by (simp add: pending_zero)
  note removed = acyclic_remove [OF 2(6,7) root(2) this]
  from 2(1) [OF m l(1) refl 2(2,3,4) l(2) removed] obtain n
    where "roots_loop adj roots' deg' (visited + 1) = Ok n" "n \<le> visited + 1 + card (U - {s})"
      "n = visited + 1 + card (U - {s}) \<longleftrightarrow> acyclic (edges ts)" by auto
  with m l(1) show ?case unfolding c by simp
qed

lemma initial_inv:
  assumes "deg_of ids ts deg" and "mset ks = mset (map fst deg)" and "distinct (map fst deg)" and "edges ts \<subseteq> ids \<times> ids"
  shows "removal_inv ids ts [] ids deg (filter (\<lambda>s. map_of deg s = Some 0) ks)"
proof -
  have "pending ts ids s = in_count ts s" for s
    using assms(4) unfolding pending_def in_count_def edges_def
    by (intro arg_cong [of _ _ length] filter_cong) auto
  moreover have "set ks = ids"
  proof -
    have "set ks = fst ` set deg" using arg_cong [OF assms(2), of set_mset] by simp
    also have "\<dots> = dom (map_of deg)" by (simp add: dom_map_of_conv_image_fst)
    also have "\<dots> = ids" using assms(1) by (auto simp: deg_of_def split: if_splits)
    finally show ?thesis .
  qed
  moreover have "distinct ks" using assms(2,3) by (metis mset_eq_imp_distinct_iff)
  ultimately show ?thesis using assms(1) by (auto simp: removal_inv_def deg_of_def)
qed

text \<open>The two loops of the validation, replaced by what they decide.\<close>

lemma validate_loops:
  assumes "\<forall>ks. mset (key_order ks) = mset ks" and "distinct steps" and "entry \<in> set steps"
    and "edges ts \<subseteq> set steps \<times> set steps" and "distinct (map (\<lambda>t. (from_step_id t, outcome t)) ts)"
  shows "\<exists>adj deg n. add_transitions (set steps) ts {} (map (\<lambda>s. (s, [])) steps) (map (\<lambda>s. (s, 0)) steps) = Ok (adj, deg)
     \<and> reach_loop adj [entry] {} = Ok ((edges ts)\<^sup>* `` {entry})
     \<and> roots_loop adj (filter (\<lambda>s. map_of deg s = Some 0) (key_order (map fst deg))) deg 0 = Ok n
     \<and> (n = length steps \<longleftrightarrow> acyclic (edges ts))"
proof -
  have "adj_of (set steps) [] (map (\<lambda>s. (s, [])) steps)" "deg_of (set steps) [] (map (\<lambda>s. (s, 0)) steps)"
    by (auto simp: adj_of_def deg_of_def map_of_map_restrict successors_def in_count_def restrict_map_def fun_eq_iff)
  from add_transitions_cases [OF this, of "{}" ts] assms(4,5) obtain adj deg where
    t: "add_transitions (set steps) ts {} (map (\<lambda>s. (s, [])) steps) (map (\<lambda>s. (s, 0)) steps) = Ok (adj, deg)"
      "adj_of (set steps) ts adj" "deg_of (set steps) ts deg" "map fst deg = steps"
    by (auto simp: comp_def)
  have inv: "removal_inv (set steps) ts [] (set steps) deg (filter (\<lambda>s. map_of deg s = Some 0) (key_order (map fst deg)))"
    by (rule initial_inv [OF t(3) _ _ assms(4)]) (use assms(1,2) t(4) in auto)
  have none: "{(x, y) \<in> edges ts. y \<notin> set steps} = {}" using assms(4) by auto
  have "\<forall>(x, y) \<in> edges ts. y \<notin> set steps \<longrightarrow> x \<notin> set steps" using assms(4) by auto
  from roots_loop_correct [OF t(2) assms(4) _ inv _ this, of 0, unfolded none]
  obtain n where "roots_loop adj (filter (\<lambda>s. map_of deg s = Some 0) (key_order (map fst deg))) deg 0 = Ok n"
    "n = length steps \<longleftrightarrow> acyclic (edges ts)"
    by (auto simp: distinct_card [OF assms(2)] acyclic_def [of "{}"])
  with t(1) reach_loop_entry [OF t(2) assms(4,3)] show ?thesis by blast
qed

lemma add_transitions_Err:
  assumes "\<not> (edges ts \<subseteq> set steps \<times> set steps \<and> distinct (map (\<lambda>t. (from_step_id t, outcome t)) ts))"
  shows "\<exists>e. add_transitions (set steps) ts {} (map (\<lambda>s. (s, [])) steps) (map (\<lambda>s. (s, 0)) steps) = Err e"
proof -
  have "adj_of (set steps) [] (map (\<lambda>s. (s, [])) steps)" "deg_of (set steps) [] (map (\<lambda>s. (s, 0)) steps)"
    by (auto simp: adj_of_def deg_of_def map_of_map_restrict successors_def in_count_def restrict_map_def fun_eq_iff)
  from add_transitions_cases [OF this, of "{}" ts] assms show ?thesis by (auto split: if_splits)
qed

lemma all_reachable_card:
  assumes "distinct steps" and "entry \<in> set steps" and "E \<subseteq> set steps \<times> set steps"
  shows "card (E\<^sup>* `` {entry}) = length steps \<longleftrightarrow> set steps \<subseteq> E\<^sup>* `` {entry}"
proof -
  have sub: "E\<^sup>* `` {entry} \<subseteq> set steps" using closed_rtrancl [of E "set steps" entry] assms(2,3) by auto
  have "card (E\<^sup>* `` {entry}) = card (set steps) \<longleftrightarrow> E\<^sup>* `` {entry} = set steps"
    using card_subset_eq [OF _ sub] by auto
  with sub show ?thesis by (auto simp: distinct_card [OF assms(1)])
qed

definition graph_decision :: "FlowGraphRequest \<Rightarrow> (FlowGraphDecision, FlowError) result" where
  "graph_decision r =
     (let steps = step_ids r; ts = transitions r; E = edges ts in
      rbind (ensure (steps \<noteq> []) (InvalidGraph (lit ''at least one step is required''))) (\<lambda>_.
      rbind (ensure (length steps \<le> 1024) (LimitExceeded (lit ''graph contains more than 1024 steps''))) (\<lambda>_.
      rbind (ensure (length ts \<le> 8192) (LimitExceeded (lit ''graph contains more than 8192 transitions''))) (\<lambda>_.
      rbind (ensure (valid_step_id (entry_step_id r)) (InvalidGraph (lit ''entry_step_id is invalid''))) (\<lambda>_.
      rbind (check_steps steps {}) (\<lambda>ids.
      rbind (ensure (entry_step_id r \<in> ids) (InvalidGraph (lit ''entry_step_id must reference a declared step''))) (\<lambda>_.
      rbind (add_transitions ids ts {} (map (\<lambda>s. (s, [])) steps) (map (\<lambda>s. (s, 0)) steps)) (\<lambda>_.
      rbind (ensure (set steps \<subseteq> E\<^sup>* `` {entry_step_id r}) (InvalidGraph (lit ''every step must be reachable from entry_step_id''))) (\<lambda>_.
      rbind (ensure (acyclic E) (InvalidGraph (lit ''flow graph must be acyclic''))) (\<lambda>_.
      Ok \<lparr>graph_valid = True, step_count = length steps, transition_count = length ts\<rparr>))))))))))"

lemma validate_core:
  assumes "\<forall>ks. mset (key_order ks) = mset ks" and "check_steps steps {} = Ok ids" and "entry \<in> ids"
  shows "rbind (add_transitions ids ts {} (map (\<lambda>s. (s, [])) steps) (map (\<lambda>s. (s, 0)) steps)) (\<lambda>(adjacency, indegree).
      rbind (reach_loop adjacency [entry] {}) (\<lambda>reachable.
      rbind (ensure (\<not> card reachable \<noteq> length steps) e1) (\<lambda>_.
      rbind (roots_loop adjacency (filter (\<lambda>s. map_of indegree s = Some 0) (key_order (map fst indegree))) indegree 0) (\<lambda>visited.
      rbind (ensure (\<not> visited \<noteq> length steps) e2) (\<lambda>_. Ok d)))))
    = rbind (add_transitions ids ts {} (map (\<lambda>s. (s, [])) steps) (map (\<lambda>s. (s, 0)) steps)) (\<lambda>_.
      rbind (ensure (set steps \<subseteq> (edges ts)\<^sup>* `` {entry}) e1) (\<lambda>_. rbind (ensure (acyclic (edges ts)) e2) (\<lambda>_. Ok d)))"
proof -
  from assms(2) have ids: "ids = set steps" "distinct steps" by (auto simp: check_steps_Ok)
  show ?thesis
  proof (cases "edges ts \<subseteq> set steps \<times> set steps \<and> distinct (map (\<lambda>t. (from_step_id t, outcome t)) ts)")
    case True
    then obtain adj deg n where
      "add_transitions ids ts {} (map (\<lambda>s. (s, [])) steps) (map (\<lambda>s. (s, 0)) steps) = Ok (adj, deg)"
      "reach_loop adj [entry] {} = Ok ((edges ts)\<^sup>* `` {entry})"
      "roots_loop adj (filter (\<lambda>s. map_of deg s = Some 0) (key_order (map fst deg))) deg 0 = Ok n"
      "n = length steps \<longleftrightarrow> acyclic (edges ts)"
      using validate_loops [OF assms(1) ids(2), of entry ts] assms(3) ids(1) by auto
    then show ?thesis
      using all_reachable_card [OF ids(2), of entry "edges ts"] True assms(3) ids(1) by simp
  next
    case False
    from add_transitions_Err [OF False] ids(1) show ?thesis by auto
  qed
qed

lemma validate_graph_eq:
  assumes "\<forall>ks. mset (key_order ks) = mset ks"
  shows "validate_graph key_order r = graph_decision r"
  unfolding validate_graph_def graph_decision_def Let_def MAX_STEPS_def MAX_TRANSITIONS_def
  apply (rule rbind_cong_Ok [OF refl])
  apply (rule rbind_cong_Ok, simp only: not_less)
  apply (rule rbind_cong_Ok, simp only: not_less)
  apply (rule rbind_cong_Ok [OF refl])
  apply (rule rbind_cong_Ok [OF refl])
  apply (rule rbind_cong_Ok [OF refl])
  apply (rule validate_core [OF assms])
  apply assumption
  apply (simp add: ensure_def split: if_splits)
  done

lemma graph_decision_cases:
  "if flow_graph_ok r
   then graph_decision r = Ok \<lparr>graph_valid = True, step_count = length (step_ids r), transition_count = length (transitions r)\<rparr>
   else \<exists>e. graph_decision r = Err e"
proof (cases "list_all valid_step_id (step_ids r) \<and> distinct (step_ids r)")
  case True
  then have c: "check_steps (step_ids r) {} = Ok (set (step_ids r))" by (simp add: check_steps_Ok)
  show ?thesis
  proof (cases "edges (transitions r) \<subseteq> set (step_ids r) \<times> set (step_ids r)
      \<and> distinct (map (\<lambda>t. (from_step_id t, outcome t)) (transitions r)) \<and> entry_step_id r \<in> set (step_ids r)")
    case ok: True
    then have "valid_step_id (entry_step_id r)" using True by (auto simp: list_all_iff)
    moreover obtain adj deg where
      "add_transitions (set (step_ids r)) (transitions r) {} (map (\<lambda>s. (s, [])) (step_ids r)) (map (\<lambda>s. (s, 0)) (step_ids r)) = Ok (adj, deg)"
      using validate_loops [of "\<lambda>ks. ks" "step_ids r" "entry_step_id r" "transitions r"] ok True by auto
    ultimately show ?thesis
      using c True ok by (simp add: graph_decision_def flow_graph_ok_def Let_def ensure_def del: rbind_eq_Ok)
  next
    case False
    with c add_transitions_Err [of "transitions r" "step_ids r"] show ?thesis
      by (cases "entry_step_id r \<in> set (step_ids r)") (auto simp: graph_decision_def flow_graph_ok_def Let_def ensure_def)
  qed
next
  case False
  then obtain e where "check_steps (step_ids r) {} = Err e"
    using check_steps_Ok [of "step_ids r" "{}"] check_steps_not_Panic [of "step_ids r" "{}"] by (cases "check_steps (step_ids r) {}") auto
  with False show ?thesis by (auto simp: graph_decision_def flow_graph_ok_def Let_def ensure_def)
qed

subsection \<open>Runs\<close>

text \<open>The decisions taken on one flow instance, each from the status the previous one left.\<close>

inductive flow_history :: "FlowInstanceStatus \<Rightarrow> FlowTransitionDecision list \<Rightarrow> FlowInstanceStatus \<Rightarrow> bool" where
  start: "flow_history s [] s"
| accepted: "flow_history s ds t \<Longrightarrow> req_current q = t \<Longrightarrow> evaluate_transition q = Ok d \<Longrightarrow> flow_history s (ds @ [d]) (new_state d)"
| refused: "flow_history s ds t \<Longrightarrow> req_current q = t \<Longrightarrow> evaluate_transition q = Err e \<Longrightarrow> flow_history s ds t"

lemma evaluate_transition_Ok:
  "evaluate_transition q = Ok d \<Longrightarrow> prior_state d = req_current q \<and> new_state d = req_target q
     \<and> terminal d = is_terminal (req_target q) \<and> no_op d = (req_current q = req_target q)
     \<and> (no_op d \<or> can_transition_to (req_current q) (req_target q))"
  by (auto simp: evaluate_transition_def split: if_splits)

lemma terminal_no_exit: "is_terminal s \<Longrightarrow> \<not> can_transition_to s t"
  by (cases s) (simp_all add: is_terminal_def can_transition_to_def)

lemma completed_from: "can_transition_to s Completed \<Longrightarrow> s = InProgress"
  by (cases s) (simp_all add: can_transition_to_def)

lemma history_terminal: "flow_history s ds t \<Longrightarrow> is_terminal s \<Longrightarrow> t = s \<and> list_all no_op ds"
  by (induction rule: flow_history.induct) (auto dest!: evaluate_transition_Ok simp: terminal_no_exit)

lemma history_completed: "flow_history s ds t \<Longrightarrow> t = Completed \<Longrightarrow> s \<noteq> Completed \<Longrightarrow> \<exists>d \<in> set ds. prior_state d = InProgress \<and> new_state d = Completed"
  by (induction rule: flow_history.induct) (auto dest!: evaluate_transition_Ok completed_from)

lemma history_chain: "flow_history s ds t \<Longrightarrow> map prior_state ds @ [t] = s # map new_state ds \<and> list_all (\<lambda>d. terminal d = is_terminal (new_state d)) ds"
  by (induction rule: flow_history.induct) (auto dest!: evaluate_transition_Ok)

text \<open>The steps a flow goes through when outcomes select them.\<close>

inductive flow_path :: "(ustr list \<Rightarrow> ustr list) \<Rightarrow> FlowGraphRequest \<Rightarrow> ustr list \<Rightarrow> bool" for key_order r where
  entry: "flow_path key_order r [entry_step_id r]"
| step: "flow_path key_order r p \<Longrightarrow> select_next_step key_order r (last p) out = Ok (Some s) \<Longrightarrow> flow_path key_order r (p @ [s])"

lemma select_next_step_edge:
  assumes "\<forall>ks. mset (key_order ks) = mset ks" and "select_next_step key_order r s out = Ok (Some t)"
  shows "flow_graph_ok r" "(s, t) \<in> edges (transitions r)"
proof -
  show "flow_graph_ok r"
    using assms graph_decision_cases [of r] by (auto simp: select_next_step_def validate_graph_eq split: if_splits)
  show "(s, t) \<in> edges (transitions r)"
    using assms(2) by (auto simp: select_next_step_def find_Some_iff edges_def image_iff intro!: bexI [OF _ nth_mem])
qed

lemma flow_path_trancl:
  assumes "\<forall>ks. mset (key_order ks) = mset ks" and "flow_path key_order r p"
  shows "p \<noteq> [] \<and> (\<forall>x \<in> set p. (x, last p) \<in> (edges (transitions r))\<^sup>*) \<and> (length p > 1 \<longrightarrow> flow_graph_ok r)
     \<and> (flow_graph_ok r \<longrightarrow> distinct p \<and> set p \<subseteq> set (step_ids r))"
  using assms(2)
proof (induction rule: flow_path.induct)
  case entry
  then show ?case by (simp add: flow_graph_ok_def)
next
  case (step p out s)
  note e = select_next_step_edge [OF assms(1) step.hyps(2)]
  have path: "(x, s) \<in> (edges (transitions r))\<^sup>+" if "x \<in> set p" for x
    using step.IH that e(2) by (auto intro: rtrancl_into_trancl1)
  have "acyclic (edges (transitions r))" "edges (transitions r) \<subseteq> set (step_ids r) \<times> set (step_ids r)"
    using e(1) by (simp_all add: flow_graph_ok_def)
  then have "s \<notin> set p" "s \<in> set (step_ids r)" using path e(2) by (auto simp: acyclic_def)
  then show ?case using step.IH e(1) path by (auto intro: trancl_into_rtrancl)
qed

definition sample_graph :: FlowGraphRequest where
  "sample_graph = \<lparr>entry_step_id = lit ''start'', step_ids = [lit ''start'', lit ''end''],
     transitions = [\<lparr>from_step_id = lit ''start'', to_step_id = lit ''end'', outcome = Success\<rparr>]\<rparr>"

lemma sample_graph_ok: "flow_graph_ok sample_graph"
  by (simp add: flow_graph_ok_def sample_graph_def lit_def valid_step_id_def MAX_STEP_ID_BYTES_def str_len_def utf8_len_def
      is_ascii_def is_ascii_alphanumeric_def is_ascii_digit_def is_ascii_lowercase_def acyclic_insert acyclic_def Image_singleton)
    (auto simp: trancl_insert)

lemma select_next_step_sample:
  "select_next_step rev sample_graph (lit ''start'') Success = Ok (Some (lit ''end''))"
proof -
  have "validate_graph rev sample_graph = Ok \<lparr>graph_valid = True, step_count = 2, transition_count = 1\<rparr>"
    using graph_decision_cases [of sample_graph] sample_graph_ok by (simp add: validate_graph_eq sample_graph_def)
  then show ?thesis by (simp add: select_next_step_def sample_graph_def ensure_def del: rbind_eq_Ok)
qed

subsection \<open>Properties\<close>

text \<open>
  C17: Whatever order the hash map yields its keys in, a flow graph is accepted exactly when it is
  within its limits, its identifiers are valid and unique, its transitions are deterministic and
  join declared steps, every step is reachable from the entry and there is no cycle; otherwise it
  is refused with an error, never a panic.
\<close>

theorem validate_graph_exact:
  assumes "\<forall>ks. mset (key_order ks) = mset ks"
  shows "if flow_graph_ok r
     then validate_graph key_order r
       = Ok \<lparr>graph_valid = True, step_count = length (step_ids r), transition_count = length (transitions r)\<rparr>
     else \<exists>e. validate_graph key_order r = Err e"
  using graph_decision_cases [of r] unfolding validate_graph_eq [OF assms] .

theorem validate_graph_exact_witness:
  "validate_graph rev sample_graph = Ok \<lparr>graph_valid = True, step_count = 2, transition_count = 1\<rparr>"
  using validate_graph_exact [of rev sample_graph] sample_graph_ok by (simp add: sample_graph_def)

text \<open>
  The decision on a graph, its error included, does not depend on the iteration order of the
  hash map.
\<close>

theorem validate_graph_order_independent:
  assumes "\<forall>ks. mset (order1 ks) = mset ks" and "\<forall>ks. mset (order2 ks) = mset ks"
  shows "validate_graph order1 r = validate_graph order2 r"
  by (simp only: validate_graph_eq [OF assms(1)] validate_graph_eq [OF assms(2)])

theorem validate_graph_order_independent_witness:
  "validate_graph rev sample_graph = validate_graph (\<lambda>ks. ks) sample_graph"
  by (rule validate_graph_order_independent) simp_all

text \<open>
  C20: Selection is deterministic: on a valid graph and a declared step it returns the target of
  the one transition with that source and outcome, or nothing when there is none, and it refuses
  everything else.
\<close>

theorem select_next_step_exact:
  assumes "\<forall>ks. mset (key_order ks) = mset ks"
  shows "if flow_graph_ok r \<and> s \<in> set (step_ids r)
     then \<exists>x. select_next_step key_order r s out = Ok x
       \<and> (\<forall>t \<in> set (transitions r). from_step_id t = s \<and> outcome t = out \<longrightarrow> x = Some (to_step_id t))
       \<and> ((\<forall>t \<in> set (transitions r). \<not> (from_step_id t = s \<and> outcome t = out)) \<longrightarrow> x = None)
     else \<exists>e. select_next_step key_order r s out = Err e"
proof (cases "flow_graph_ok r \<and> s \<in> set (step_ids r)")
  case True
  then have v: "validate_graph key_order r = Ok \<lparr>graph_valid = True, step_count = length (step_ids r), transition_count = length (transitions r)\<rparr>"
    using graph_decision_cases [of r] by (simp add: validate_graph_eq [OF assms])
  let ?f = "List.find (\<lambda>t. from_step_id t = s \<and> outcome t = out) (transitions r)"
  have sel: "select_next_step key_order r s out = Ok (map_option to_step_id ?f)"
    using v True by (simp add: select_next_step_def list_ex_iff ensure_def del: rbind_eq_Ok)
  have inj: "inj_on (\<lambda>t. (from_step_id t, outcome t)) (set (transitions r))"
    using True by (simp add: flow_graph_ok_def distinct_map)
  have "?f = Some t" if "t \<in> set (transitions r)" "from_step_id t = s" "outcome t = out" for t
  proof (cases ?f)
    case None
    with that show ?thesis by (auto simp: find_None_iff)
  next
    case (Some u)
    then have "u \<in> set (transitions r)" "from_step_id u = s" "outcome u = out" by (auto simp: find_Some_iff)
    with that inj Some show ?thesis by (auto simp: inj_on_def)
  qed
  moreover have "?f = None" if "\<forall>t \<in> set (transitions r). \<not> (from_step_id t = s \<and> outcome t = out)"
    using that by (simp add: find_None_iff)
  ultimately show ?thesis using True sel by simp
next
  case False
  then show ?thesis
    using graph_decision_cases [of r] by (auto simp: select_next_step_def validate_graph_eq [OF assms] ensure_def list_ex_iff split: if_splits)
qed

theorem select_next_step_exact_witness:
  "select_next_step rev sample_graph (lit ''start'') Success = Ok (Some (lit ''end''))"
  using select_next_step_exact [of rev sample_graph "lit ''start''" Success] sample_graph_ok by (auto simp: sample_graph_def)



text \<open>
  C18: In every history of a flow instance the decisions chain, a terminal status is never left, the
  terminal flag is right, completion is only reached from \<open>InProgress\<close>, and as long as the status
  is not terminal the instance can be cancelled.
\<close>

theorem flow_lifecycle:
  assumes "flow_history s ds t"
  shows "map prior_state ds @ [t] = s # map new_state ds
     \<and> list_all (\<lambda>d. terminal d = is_terminal (new_state d)) ds
     \<and> (is_terminal s \<longrightarrow> t = s \<and> list_all no_op ds)
     \<and> (t = Completed \<and> s \<noteq> Completed \<longrightarrow> (\<exists>d \<in> set ds. prior_state d = InProgress \<and> new_state d = Completed))
     \<and> (\<not> is_terminal t \<longrightarrow> (\<exists>d. evaluate_transition \<lparr>req_current = t, req_target = Cancelled, req_actor = a, req_event = e\<rparr> = Ok d
           \<and> flow_history s (ds @ [d]) Cancelled))"
proof (intro conjI impI)
  show "map prior_state ds @ [t] = s # map new_state ds" "list_all (\<lambda>d. terminal d = is_terminal (new_state d)) ds"
    using history_chain [OF assms] by auto
  show "t = s" "list_all no_op ds" if "is_terminal s" using history_terminal [OF assms that] by auto
  show "\<exists>d \<in> set ds. prior_state d = InProgress \<and> new_state d = Completed" if "t = Completed \<and> s \<noteq> Completed"
    using history_completed [OF assms] that by blast
  assume "\<not> is_terminal t"
  then have "can_transition_to t Cancelled" "t \<noteq> Cancelled" by (cases t; simp add: is_terminal_def can_transition_to_def)+
  then obtain d where d: "evaluate_transition \<lparr>req_current = t, req_target = Cancelled, req_actor = a, req_event = e\<rparr> = Ok d" "new_state d = Cancelled"
    by (simp add: evaluate_transition_def)
  from flow_history.accepted [OF assms _ d(1)] d show "\<exists>d. evaluate_transition \<lparr>req_current = t, req_target = Cancelled, req_actor = a, req_event = e\<rparr> = Ok d
      \<and> flow_history s (ds @ [d]) Cancelled" by auto
qed

theorem flow_lifecycle_witness:
  "\<exists>d. evaluate_transition \<lparr>req_current = Created, req_target = Cancelled, req_actor = None, req_event = None\<rparr> = Ok d
     \<and> flow_history Created [d] Cancelled"
  using flow_lifecycle [OF flow_history.start, of Created] by (simp add: is_terminal_def)

end
