(* ===== verification/Json.thy ===== *)
theory Json
  imports RustStr "HOL-Library.List_Lexorder" "HOL-Library.Multiset"
begin

text \<open>
  JSON values (\<open>serde_json::Value\<close>) and their canonical text
  (\<open>canonical_json\<close> of \<open>marty-verification/src/governance.rs\<close>). The text of scalars and of object
  keys is produced by serde and is an argument, and so is the type of numbers. The lemmas show
  that the canonical text neither depends on the order of object entries nor confuses two
  different values.
\<close>

datatype 'n json =
    JNull | JBool bool | JNumber 'n | JString ustr
  | JArray "'n json list"
  | JObject "(ustr \<times> 'n json) list"

record 'n text_env =
  scalar_text :: "'n json \<Rightarrow> string + ustr"
  key_text :: "ustr \<Rightarrow> string + ustr"

datatype canonical_error = NotCanonical

text \<open>\<open>Iterator::collect\<close> into a \<open>Result\<close>, and \<open>join(",")\<close>.\<close>

primrec collect_results :: "('a, 'e) result list \<Rightarrow> ('a list, 'e) result" where
  "collect_results [] = Ok []"
| "collect_results (x # xs) = rbind x (\<lambda>y. rbind (collect_results xs) (\<lambda>ys. Ok (y # ys)))"

fun join_comma :: "ustr list \<Rightarrow> ustr" where
  "join_comma [] = []"
| "join_comma [x] = x"
| "join_comma (x # y # zs) = x @ 44 # join_comma (y # zs)"

declare rbind_cong_Ok [fundef_cong]

fun canonical_json :: "('n, 'x) text_env_scheme \<Rightarrow> 'n json \<Rightarrow> (ustr, canonical_error) result" where
  "canonical_json env (JArray vs) =
     rbind (collect_results (map (canonical_json env) vs)) (\<lambda>parts. Ok (91 # join_comma parts @ [93]))"
| "canonical_json env (JObject kvs) =
     rbind (collect_results (map (\<lambda>(k, v).
         rbind (lift_err (\<lambda>_. NotCanonical) (key_text env k)) (\<lambda>encoded_key.
         rbind (canonical_json env v) (\<lambda>c. Ok (encoded_key @ 58 # c)))) (sort_key fst kvs)))
       (\<lambda>parts. Ok (123 # join_comma parts @ [125]))"
| "canonical_json env v = lift_err (\<lambda>_. NotCanonical) (scalar_text env v)"

subsection \<open>The order of entries does not matter\<close>

lemma sort_key_unique:
  assumes "mset xs = mset ys" and "distinct (map f xs)"
  shows "sort_key f xs = sort_key f ys"
proof (rule properties_for_sort_key)
  show "mset (sort_key f ys) = mset xs" using assms(1) by simp
  show "sorted (map f (sort_key f ys))" by simp
  have d: "distinct (map f (sort_key f ys))"
    using assms by (metis mset_map mset_sort mset_eq_imp_distinct_iff)
  show "filter (\<lambda>x. f k = f x) (sort_key f ys) = filter (\<lambda>x. f k = f x) xs" if "k \<in> set (sort_key f ys)" for k
  proof -
    have one: "filter (\<lambda>x. f k = f x) zs = [k]" if "distinct (map f zs)" "k \<in> set zs" for zs
      using that
    proof (induction zs)
      case (Cons z zs)
      have "filter (\<lambda>x. f z = f x) zs = []"
        using Cons.prems(1) by (auto simp: filter_empty_conv image_iff)
      with Cons show ?case by (auto simp: image_iff)
    qed simp
    have "k \<in> set xs" using that assms(1) by (metis mset_eq_setD set_sort)
    with one [OF d that] one [OF assms(2)] show ?thesis by simp
  qed
qed

lemma canonical_json_order:
  assumes "mset kvs = mset kvs'" and "distinct (map fst kvs)"
  shows "canonical_json env (JObject kvs) = canonical_json env (JObject kvs')"
  using sort_key_unique [OF assms] by simp

subsection \<open>Different values have different texts\<close>

definition scalar :: "'n json \<Rightarrow> bool" where
  "scalar v \<longleftrightarrow> (case v of JArray _ \<Rightarrow> False | JObject _ \<Rightarrow> False | _ \<Rightarrow> True)"

definition delimited :: "ustr \<Rightarrow> bool" where
  "delimited r \<longleftrightarrow> r = [] \<or> hd r \<in> {44, 93, 125}"

text \<open>
  What JSON texts of scalars and keys promise: a scalar starts with none of the brackets and is
  determined by a text that continues with a delimiter, a key by a text that continues with a
  colon.
\<close>

definition text_laws :: "('n, 'x) text_env_scheme \<Rightarrow> bool" where
  "text_laws env \<longleftrightarrow>
     (\<forall>v a. scalar v \<and> scalar_text env v = Inr a \<longrightarrow> a \<noteq> [] \<and> hd a \<notin> {91, 93, 123})
     \<and> (\<forall>v w a b r r'. scalar v \<and> scalar w \<and> scalar_text env v = Inr a \<and> scalar_text env w = Inr b
          \<and> delimited r \<and> delimited r' \<and> a @ r = b @ r' \<longrightarrow> v = w \<and> r = r')
     \<and> (\<forall>k a. key_text env k = Inr a \<longrightarrow> a \<noteq> [] \<and> hd a \<noteq> 125)
     \<and> (\<forall>k l a b r r'. key_text env k = Inr a \<and> key_text env l = Inr b \<and> a @ 58 # r = b @ 58 # r' \<longrightarrow> k = l \<and> r = r')"

fun normal :: "'n json \<Rightarrow> 'n json" where
  "normal (JArray vs) = JArray (map normal vs)"
| "normal (JObject kvs) = JObject (map (\<lambda>(k, v). (k, normal v)) (sort_key fst kvs))"
| "normal v = v"

lemma collect_results_Ok: "collect_results xs = Ok ys \<longleftrightarrow> xs = map Ok ys"
  by (induction xs arbitrary: ys) auto

text \<open>A joined list followed by its closing bracket determines its elements.\<close>

lemma join_comma_Cons: "join_comma (x # xs) = x @ concat (map (\<lambda>y. 44 # y) xs)"
  by (induction xs arbitrary: x) auto

lemma tail_inj:
  assumes "c \<in> {93, 125}"
    and "\<And>x y r r'. x \<in> set xs \<Longrightarrow> y \<in> set ys \<Longrightarrow> delimited r \<Longrightarrow> delimited r' \<Longrightarrow> f x @ r = f y @ r' \<Longrightarrow> g x = g y \<and> r = r'"
    and "concat (map (\<lambda>x. 44 # f x) xs) @ c # r = concat (map (\<lambda>y. 44 # f y) ys) @ c # r'"
  shows "map g xs = map g ys \<and> r = r'"
  using assms(2,3)
proof (induction xs arbitrary: ys)
  case Nil
  then show ?case using assms(1) by (cases ys) auto
next
  case (Cons x xs)
  show ?case
  proof (cases ys)
    case Nil
    with Cons.prems(2) assms(1) show ?thesis by auto
  next
    case (Cons y ys')
    let ?a = "concat (map (\<lambda>x. 44 # f x) xs) @ c # r" and ?b = "concat (map (\<lambda>y. 44 # f y) ys') @ c # r'"
    have "delimited ?a" using assms(1) by (cases xs) (auto simp: delimited_def)
    moreover have "delimited ?b" using assms(1) by (cases ys') (auto simp: delimited_def)
    moreover have "f x @ ?a = f y @ ?b" using Cons.prems(2) Cons by simp
    ultimately have "g x = g y" "?a = ?b" using Cons.prems(1) [of x y ?a ?b] Cons by auto
    with Cons.IH [of ys'] Cons.prems(1) Cons show ?thesis by auto
  qed
qed

lemma join_inj:
  assumes "c \<in> {93, 125}"
    and "\<And>x y r r'. x \<in> set xs \<Longrightarrow> y \<in> set ys \<Longrightarrow> delimited r \<Longrightarrow> delimited r' \<Longrightarrow> f x @ r = f y @ r' \<Longrightarrow> g x = g y \<and> r = r'"
    and "\<And>x. x \<in> set xs \<union> set ys \<Longrightarrow> f x \<noteq> [] \<and> hd (f x) \<noteq> c"
    and "join_comma (map f xs) @ c # r = join_comma (map f ys) @ c # r'"
  shows "map g xs = map g ys \<and> r = r'"
proof (cases "xs = [] \<or> ys = []")
  case True
  have first: "hd (join_comma (map f zs) @ z) = hd (f (hd zs))" if "zs \<noteq> []" "f (hd zs) \<noteq> []" for zs z
    using that by (cases zs) (auto simp: join_comma_Cons)
  have "xs = [] \<longleftrightarrow> ys = []"
    using assms(3) [of "hd xs"] assms(3) [of "hd ys"] first [of xs "c # r"] first [of ys "c # r'"] arg_cong [OF assms(4), of hd]
    by (cases xs; cases ys) auto
  with True assms(4) show ?thesis by auto
next
  case False
  then obtain x xs' y ys' where l: "xs = x # xs'" "ys = y # ys'" by (auto simp: neq_Nil_conv)
  have eq: "concat (map (\<lambda>x. 44 # f x) xs) @ c # r = concat (map (\<lambda>y. 44 # f y) ys) @ c # r'"
    using assms(4) unfolding l by (simp add: join_comma_Cons comp_def)
  from assms(1,2) eq show ?thesis by (rule tail_inj)
qed

definition ctext :: "('n, 'x) text_env_scheme \<Rightarrow> 'n json \<Rightarrow> ustr" where
  "ctext env v = (case canonical_json env v of Ok a \<Rightarrow> a | _ \<Rightarrow> [])"

definition entry_text :: "('n, 'x) text_env_scheme \<Rightarrow> ustr \<times> 'n json \<Rightarrow> ustr" where
  "entry_text env kv = (case key_text env (fst kv) of Inr a \<Rightarrow> a | Inl _ \<Rightarrow> []) @ 58 # ctext env (snd kv)"

lemma canonical_array:
  "canonical_json env (JArray vs) = Ok a \<longleftrightarrow>
     (\<forall>v \<in> set vs. \<exists>t. canonical_json env v = Ok t) \<and> a = 91 # join_comma (map (ctext env) vs) @ [93]"
proof -
  have "map (canonical_json env) vs = map Ok ts \<longleftrightarrow> (\<forall>v \<in> set vs. \<exists>t. canonical_json env v = Ok t) \<and> ts = map (ctext env) vs" for ts
    by (induction vs arbitrary: ts) (auto simp: ctext_def Cons_eq_map_conv)
  then show ?thesis by (auto simp: collect_results_Ok)
qed

lemma canonical_object:
  "canonical_json env (JObject kvs) = Ok a \<longleftrightarrow>
     (\<forall>(k, v) \<in> set kvs. (\<exists>t. key_text env k = Inr t) \<and> (\<exists>t. canonical_json env v = Ok t))
     \<and> a = 123 # join_comma (map (entry_text env) (sort_key fst kvs)) @ [125]"
proof -
  let ?F = "\<lambda>(k, v). rbind (lift_err (\<lambda>_. NotCanonical) (key_text env k)) (\<lambda>e. rbind (canonical_json env v) (\<lambda>c. Ok (e @ 58 # c)))"
  have "map ?F xs = map Ok ts \<longleftrightarrow>
      (\<forall>(k, v) \<in> set xs. (\<exists>t. key_text env k = Inr t) \<and> (\<exists>t. canonical_json env v = Ok t)) \<and> ts = map (entry_text env) xs" for xs ts
    by (induction xs arbitrary: ts) (auto simp: ctext_def entry_text_def lift_err_eq_Ok Cons_eq_map_conv)
  from this [of "sort_key fst kvs"] show ?thesis by (auto simp: collect_results_Ok)
qed

lemma canonical_scalar: "scalar v \<Longrightarrow> canonical_json env v = Ok a \<longleftrightarrow> scalar_text env v = Inr a"
  by (cases v) (simp_all add: scalar_def lift_err_eq_Ok)

lemma canonical_first:
  assumes "text_laws env" and "canonical_json env v = Ok a"
  shows "a \<noteq> [] \<and> hd a \<noteq> 93 \<and> (scalar v \<longrightarrow> hd a \<notin> {91, 123})"
proof (cases "scalar v")
  case True
  then show ?thesis using assms canonical_scalar [OF True] unfolding text_laws_def by blast
next
  case False
  then show ?thesis using assms(2) by (cases v) (auto simp: scalar_def)
qed

lemma canonical_shape:
  assumes "text_laws env" and "canonical_json env v = Ok a" and "canonical_json env w = Ok b" and "a @ r = b @ r'"
  obtains (scalars) "scalar v" "scalar w" | (arrays) vs ws where "v = JArray vs" "w = JArray ws"
    | (objects) kvs lws where "v = JObject kvs" "w = JObject lws"
proof -
  have "hd a = hd b" using canonical_first [OF assms(1,2)] canonical_first [OF assms(1,3)] assms(4) by (metis hd_append2)
  then show ?thesis
    using canonical_first [OF assms(1,2)] canonical_first [OF assms(1,3)] assms(2,3) that
    by (cases v; cases w) (auto simp: scalar_def simp del: canonical_json.simps(3-6))
qed

lemma entry_first:
  assumes "text_laws env" and "key_text env k = Inr t"
  shows "entry_text env (k, v) \<noteq> [] \<and> hd (entry_text env (k, v)) \<noteq> 125"
proof -
  have "t \<noteq> [] \<and> hd t \<noteq> 125" using assms unfolding text_laws_def by blast
  then show ?thesis using assms(2) by (simp add: entry_text_def)
qed

lemma entry_inj:
  assumes "text_laws env" and "\<exists>t. key_text env (fst x) = Inr t" and "\<exists>t. key_text env (fst y) = Inr t"
    and "entry_text env x @ r = entry_text env y @ r'"
  shows "fst x = fst y \<and> ctext env (snd x) @ r = ctext env (snd y) @ r'"
proof -
  from assms(2,3) obtain t u where tu: "key_text env (fst x) = Inr t" "key_text env (fst y) = Inr u" by blast
  have "\<forall>k l a b r r'. key_text env k = Inr a \<and> key_text env l = Inr b \<and> a @ 58 # r = b @ 58 # r' \<longrightarrow> k = l \<and> r = r'"
    using assms(1) unfolding text_laws_def by (elim conjE)
  from this [rule_format, of "fst x" t "fst y" u "ctext env (snd x) @ r" "ctext env (snd y) @ r'"] tu assms(4) show ?thesis by (simp add: entry_text_def)
qed

lemma scalar_inj:
  assumes laws: "text_laws env" and v: "scalar v" and ok: "canonical_json env v = Ok a" "canonical_json env w = Ok b"
    and r: "delimited r" "delimited r'" and eq: "a @ r = b @ r'"
  shows "normal v = normal w \<and> r = r'"
proof -
  have w: "scalar w"
    by (rule canonical_shape [OF laws ok eq]) (use v in \<open>simp_all add: scalar_def\<close>)
  have "\<forall>v w a b r r'. scalar v \<and> scalar w \<and> scalar_text env v = Inr a \<and> scalar_text env w = Inr b
      \<and> delimited r \<and> delimited r' \<and> a @ r = b @ r' \<longrightarrow> v = w \<and> r = r'"
    using laws unfolding text_laws_def by (elim conjE)
  from this [rule_format, of v w a b r r'] v w ok r eq show ?thesis by (simp add: canonical_scalar)
qed

text \<open>What is to be shown of one value, for the induction.\<close>

definition determined :: "('n, 'x) text_env_scheme \<Rightarrow> 'n json \<Rightarrow> bool" where
  "determined env v \<longleftrightarrow> (\<forall>w a b r r'. canonical_json env v = Ok a \<longrightarrow> canonical_json env w = Ok b \<longrightarrow> delimited r \<longrightarrow> delimited r'
     \<longrightarrow> a @ r = b @ r' \<longrightarrow> normal v = normal w \<and> r = r')"

lemma determinedD:
  assumes "determined env v" and "\<exists>t. canonical_json env v = Ok t" and "\<exists>t. canonical_json env w = Ok t"
    and "delimited r" and "delimited r'" and "ctext env v @ r = ctext env w @ r'"
  shows "normal v = normal w \<and> r = r'"
proof -
  from assms(2,3) obtain a b where ab: "canonical_json env v = Ok a" "canonical_json env w = Ok b" by blast
  then have "a @ r = b @ r'" using assms(6) by (simp add: ctext_def)
  with assms(1,4,5) ab show ?thesis unfolding determined_def by blast
qed

lemma determined_array:
  assumes laws: "text_laws env" and IH: "\<And>v. v \<in> set vs \<Longrightarrow> determined env v"
  shows "determined env (JArray vs)"
  unfolding determined_def
proof (intro allI impI)
  fix w a b r r'
  assume v: "canonical_json env (JArray vs) = Ok a" and b: "canonical_json env w = Ok b" and r: "delimited r" "delimited r'"
    and eq: "a @ r = b @ r'"
  have "\<exists>ws. w = JArray ws" by (rule canonical_shape [OF laws v b eq]) (simp_all add: scalar_def)
  then obtain ws where w: "w = JArray ws" by blast
  from iffD1 [OF canonical_array v] have v_ok: "\<forall>v \<in> set vs. \<exists>t. canonical_json env v = Ok t"
    and a: "a = 91 # join_comma (map (ctext env) vs) @ [93]" by blast+
  from iffD1 [OF canonical_array b [unfolded w]] have w_ok: "\<forall>v \<in> set ws. \<exists>t. canonical_json env v = Ok t"
    and b': "b = 91 # join_comma (map (ctext env) ws) @ [93]" by blast+
  have "map normal vs = map normal ws \<and> r = r'"
  proof (rule join_inj [where c = 93 and f = "ctext env" and xs = vs and ys = ws])
    show "normal x = normal y \<and> s = s'" if "x \<in> set vs" "y \<in> set ws" "delimited s" "delimited s'"
      "ctext env x @ s = ctext env y @ s'" for x y s s'
      using determinedD [OF IH [OF that(1)] _ _ that(3-5)] v_ok w_ok that(1,2) by blast
    show "ctext env x \<noteq> [] \<and> hd (ctext env x) \<noteq> 93" if "x \<in> set vs \<union> set ws" for x
      using v_ok w_ok that canonical_first [OF laws, of x] by (auto simp: ctext_def)
    show "join_comma (map (ctext env) vs) @ 93 # r = join_comma (map (ctext env) ws) @ 93 # r'"
      using a b' eq by simp
  qed simp
  then show "normal (JArray vs) = normal w \<and> r = r'" by (simp add: w)
qed

lemma determined_object:
  assumes laws: "text_laws env" and IH: "\<And>k v. (k, v) \<in> set kvs \<Longrightarrow> determined env v"
  shows "determined env (JObject kvs)"
  unfolding determined_def
proof (intro allI impI)
  fix w a b r r'
  assume v: "canonical_json env (JObject kvs) = Ok a" and b: "canonical_json env w = Ok b" and r: "delimited r" "delimited r'"
    and eq: "a @ r = b @ r'"
  have "\<exists>lws. w = JObject lws" by (rule canonical_shape [OF laws v b eq]) (simp_all add: scalar_def)
  then obtain lws where w: "w = JObject lws" by blast
  let ?ok = "\<lambda>kvs. \<forall>(k, v) \<in> set kvs. (\<exists>t. key_text env k = Inr t) \<and> (\<exists>t. canonical_json env v = Ok t)"
  from iffD1 [OF canonical_object v] have v_ok: "?ok kvs"
    and a: "a = 123 # join_comma (map (entry_text env) (sort_key fst kvs)) @ [125]" by blast+
  from iffD1 [OF canonical_object b [unfolded w]] have w_ok: "?ok lws"
    and b': "b = 123 # join_comma (map (entry_text env) (sort_key fst lws)) @ [125]" by blast+
  let ?g = "\<lambda>(k, v). (k, normal v)"
  have "map ?g (sort_key fst kvs) = map ?g (sort_key fst lws) \<and> r = r'"
  proof (rule join_inj [where c = 125 and f = "entry_text env" and xs = "sort_key fst kvs" and ys = "sort_key fst lws"])
    show "?g x = ?g y \<and> s = s'" if xy: "x \<in> set (sort_key fst kvs)" "y \<in> set (sort_key fst lws)" "delimited s" "delimited s'"
        "entry_text env x @ s = entry_text env y @ s'" for x y s s'
    proof -
      have t: "\<exists>t. key_text env (fst x) = Inr t" "\<exists>t. key_text env (fst y) = Inr t"
        "\<exists>t. canonical_json env (snd x) = Ok t" "\<exists>t. canonical_json env (snd y) = Ok t"
        using v_ok w_ok xy by auto
      note e = entry_inj [OF laws t(1,2) xy(5)]
      have "determined env (snd x)" using IH [of "fst x" "snd x"] xy(1) by simp
      from determinedD [OF this t(3,4) xy(3,4)] e show ?thesis by (simp add: case_prod_beta)
    qed
    show "entry_text env x \<noteq> [] \<and> hd (entry_text env x) \<noteq> 125" if "x \<in> set (sort_key fst kvs) \<union> set (sort_key fst lws)" for x
      using v_ok w_ok that entry_first [OF laws, of "fst x" _ "snd x"] by auto
    show "join_comma (map (entry_text env) (sort_key fst kvs)) @ 125 # r = join_comma (map (entry_text env) (sort_key fst lws)) @ 125 # r'"
      using a b' eq by simp
  qed simp
  then show "normal (JObject kvs) = normal w \<and> r = r'" by (simp add: w)
qed

lemma determined_scalar: "text_laws env \<Longrightarrow> scalar v \<Longrightarrow> determined env v"
  unfolding determined_def by (intro allI impI) (rule scalar_inj)

lemma all_determined:
  assumes "text_laws env"
  shows "determined env v"
proof (induction v)
  case (JArray vs)
  then show ?case by (rule determined_array [OF assms])
next
  case (JObject kvs)
  show ?case by (rule determined_object [OF assms]) (use JObject in \<open>force simp: snds.simps\<close>)
qed (rule determined_scalar [OF assms], simp add: scalar_def)+

lemma sorted_sort_key: "sorted (map f xs) \<Longrightarrow> sort_key f xs = xs"
  by (rule properties_for_sort_key) simp_all

lemma canonical_normal: "canonical_json env (normal v) = canonical_json env v"
proof (induction v)
  case (JArray vs)
  then have "map (canonical_json env) (map normal vs) = map (canonical_json env) vs" by simp
  then show ?case by (simp only: normal.simps canonical_json.simps)
next
  case (JObject kvs)
  let ?F = "\<lambda>(k, v). rbind (lift_err (\<lambda>_. NotCanonical) (key_text env k)) (\<lambda>e. rbind (canonical_json env v) (\<lambda>c. Ok (e @ 58 # c)))"
  have same: "map ?F (map (\<lambda>(k, v). (k, normal v)) (sort_key fst kvs)) = map ?F (sort_key fst kvs)"
    using JObject by (fastforce simp: snds.simps)
  have keys: "map fst (map (\<lambda>(k, v). (k, normal v)) (sort_key fst kvs)) = map fst (sort_key fst kvs)"
    by (simp add: comp_def case_prod_beta)
  have "sorted (map fst (map (\<lambda>(k, v). (k, normal v)) (sort_key fst kvs)))" unfolding keys by simp
  note id = sorted_sort_key [OF this]
  show ?case unfolding normal.simps canonical_json.simps id same ..
qed simp_all

text \<open>JSON texts to compute with: numbers in unary, strings quoted with escapes.\<close>

definition quoted :: "ustr \<Rightarrow> ustr" where
  "quoted s = 34 # concat (map (\<lambda>c. if c = 34 \<or> c = 92 then [92, c] else [c]) s) @ [34]"

definition sample_texts :: "nat text_env" where
  "sample_texts =
     \<lparr>scalar_text = \<lambda>v. (case v of
          JNull \<Rightarrow> Inr (lit ''null'') | JBool b \<Rightarrow> Inr (lit (if b then ''true'' else ''false''))
        | JNumber n \<Rightarrow> Inr (replicate (Suc n) 49) | JString s \<Rightarrow> Inr (quoted s) | _ \<Rightarrow> Inl ''not a scalar''),
      key_text = \<lambda>k. Inr (quoted k)\<rparr>"

lemma quoted_inj:
  assumes "quoted s @ r = quoted t @ r'"
  shows "s = t \<and> r = r'"
proof -
  let ?e = "\<lambda>s. concat (map (\<lambda>c. if c = 34 \<or> c = 92 then [92, c] else [c]) s)"
  have "?e s @ 34 # r = ?e t @ 34 # r' \<Longrightarrow> s = t \<and> r = r'"
  proof (induction s arbitrary: t)
    case Nil
    then show ?case by (cases t) (auto split: if_splits)
  next
    case (Cons c s)
    then show ?case by (cases t) (auto split: if_splits)
  qed
  with assms show ?thesis by (simp add: quoted_def)
qed

lemma ones_inj:
  assumes "replicate m (49 :: nat) @ r = replicate n 49 @ r'" and "delimited r" and "delimited r'"
  shows "m = n \<and> r = r'"
  using assms(1)
proof (induction m arbitrary: n)
  case 0
  then show ?case using assms(2) by (cases n) (auto simp: delimited_def)
next
  case (Suc m)
  then show ?case using assms(3) by (cases n) (auto simp: delimited_def)
qed

lemmas sample_text_simps = sample_texts_def scalar_def lit_def quoted_def

lemma sample_scalar_inj:
  assumes "scalar v" "scalar w" "scalar_text sample_texts v = Inr a" "scalar_text sample_texts w = Inr b"
    and r: "delimited r" "delimited r'" and "a @ r = b @ r'"
  shows "v = w \<and> r = r'"
proof (cases v)
  case (JNumber m)
  with assms obtain n where "w = JNumber n" by (cases w) (auto simp: sample_text_simps split: if_splits)
  then show ?thesis using ones_inj [OF _ r, of "Suc m" "Suc n"] JNumber assms(3,4,7) by (auto simp: sample_texts_def)
next
  case (JString s)
  with assms obtain t where "w = JString t" by (cases w) (auto simp: sample_text_simps split: if_splits)
  then show ?thesis using quoted_inj [of s r t r'] JString assms(3,4,7) by (auto simp: sample_texts_def)
next
  case (JBool c)
  with assms obtain d where "w = JBool d" by (cases w) (auto simp: sample_text_simps split: if_splits)
  then show ?thesis using JBool assms(3,4,7) by (cases c; cases d) (auto simp: sample_text_simps)
next
  case JNull
  with assms have "w = JNull" by (cases w) (auto simp: sample_text_simps split: if_splits)
  then show ?thesis using JNull assms(3,4,7) by (simp add: sample_texts_def)
qed (use assms(1) in \<open>simp_all add: scalar_def\<close>)

lemma sample_first:
  "scalar v \<Longrightarrow> scalar_text sample_texts v = Inr a \<Longrightarrow> a \<noteq> [] \<and> hd a \<notin> {91, 93, 123}"
  by (cases v) (auto simp: sample_text_simps split: if_splits)

lemma sample_texts_laws: "text_laws sample_texts"
  unfolding text_laws_def
proof (intro conjI allI impI; (elim conjE)?)
  fix k l :: ustr and a b r r'
  assume "key_text sample_texts k = Inr a" "key_text sample_texts l = Inr b" "a @ 58 # r = b @ 58 # r'"
  then have "k = l \<and> 58 # r = 58 # r'" using quoted_inj [of k "58 # r" l "58 # r'"] by (simp add: sample_texts_def)
  then show "k = l" "r = r'" by simp_all
next
  fix k a assume "key_text sample_texts k = Inr a"
  then show "a \<noteq> []" "hd a \<noteq> 125" by (auto simp: sample_text_simps)
qed (use sample_scalar_inj sample_first in blast)+

subsection \<open>Properties\<close>

text \<open>
  C25: Two values have the same canonical text exactly when they differ at most in the order of
  object entries, so that a digest of the text identifies the value up to collisions of the hash.
\<close>

theorem canonical_json_identifies:
  assumes "text_laws env" and "canonical_json env v = Ok a" and "canonical_json env w = Ok b"
  shows "a = b \<longleftrightarrow> normal v = normal w"
proof
  assume "a = b"
  moreover have "determined env v" by (rule all_determined [OF assms(1)])
  ultimately show "normal v = normal w"
    using assms(2,3) determinedD [of env v w "[]" "[]"] by (simp add: ctext_def delimited_def)
next
  assume "normal v = normal w"
  then show "a = b" using canonical_normal [of env v] canonical_normal [of env w] assms(2,3) by simp
qed

theorem canonical_json_identifies_witness:
  "\<exists>a b. canonical_json sample_texts (JObject [(lit ''b'', JNumber 1), (lit ''a'', JArray [])]) = Ok a
     \<and> canonical_json sample_texts (JObject [(lit ''a'', JArray []), (lit ''b'', JNumber 1)]) = Ok b
     \<and> (a = b \<longleftrightarrow> normal (JObject [(lit ''b'', JNumber 1), (lit ''a'', JArray [])])
                 = normal (JObject [(lit ''a'', JArray []), (lit ''b'', JNumber (1 :: nat))]))"
proof -
  have "\<exists>a. canonical_json sample_texts (JObject [(lit ''b'', JNumber 1), (lit ''a'', JArray [])]) = Ok a"
    "\<exists>b. canonical_json sample_texts (JObject [(lit ''a'', JArray []), (lit ''b'', JNumber 1)]) = Ok b"
    unfolding canonical_object by (simp_all add: sample_texts_def)
  then obtain a b where "canonical_json sample_texts (JObject [(lit ''b'', JNumber 1), (lit ''a'', JArray [])]) = Ok a"
    "canonical_json sample_texts (JObject [(lit ''a'', JArray []), (lit ''b'', JNumber 1)]) = Ok b" by blast
  with canonical_json_identifies [OF sample_texts_laws this] show ?thesis by blast
qed

end
