(* ===== verification/Governance.thy ===== *)
theory Governance
  imports Json
begin

text \<open>
  Verification governance (\<open>marty-verification/src/governance.rs\<close>): parsing and validating the
  registered clients, policies and trust profiles, authorizing an API key for a purpose, resuming
  a persisted snapshot against the current configuration, and checking a request against its
  snapshot. Errors are strings, as in the code. SHA-256, UUID parsing and serde's conversion
  between texts and records are arguments.
\<close>

unbundle bit_operations_syntax

subsection \<open>Formatting\<close>

definition hex_digit :: "nat \<Rightarrow> nat" where
  "hex_digit d = (if d < 10 then 48 + d else 87 + d)"

definition hex_text :: "bytes \<Rightarrow> ustr" where
  "hex_text bs = concat (map (\<lambda>b. [hex_digit (unat b div 16), hex_digit (unat b mod 16)]) bs)"

text \<open>\<open>{:?}\<close> of a list of strings, for the printable ASCII names of checks that it is used with.\<close>

fun debug_items :: "ustr list \<Rightarrow> ustr" where
  "debug_items [] = []"
| "debug_items [x] = quoted x"
| "debug_items (x # y # zs) = quoted x @ lit '', '' @ debug_items (y # zs)"

definition debug_strings :: "ustr list \<Rightarrow> ustr" where
  "debug_strings xs = lit ''['' @ debug_items xs @ lit '']''"

subsection \<open>Documents\<close>

definition CREDENTIALS_COMPONENT_ID :: ustr where "CREDENTIALS_COMPONENT_ID = lit ''marty-credentials''"
definition VERIFICATION_ADAPTER_ID :: ustr where "VERIFICATION_ADAPTER_ID = lit ''verification-service''"
definition SESSION_CREATE_PURPOSE :: ustr where "SESSION_CREATE_PURPOSE = lit ''verification.session.create''"
definition DIRECT_VERIFY_PURPOSE :: ustr where "DIRECT_VERIFY_PURPOSE = lit ''verification.direct''"
definition VDS_NC_VERIFY_PURPOSE :: ustr where "VDS_NC_VERIFY_PURPOSE = lit ''verification.vds-nc''"

definition ALL_PRESENTATION_CHECKS :: "ustr list" where
  "ALL_PRESENTATION_CHECKS = map lit
     [''presentation.structure'', ''presentation.proof'', ''credential.proof'', ''issuer.trust'',
      ''credential.status'', ''holder.binding'', ''transaction.binding'', ''claim.constraints'']"

definition VDS_CHECKS :: "ustr list" where
  "VDS_CHECKS = map lit [''credential.proof'', ''issuer.trust'']"

record ProfileReference =
  ref_id :: ustr
  ref_version :: ustr
  ref_digest :: ustr

record ComponentReference =
  component_id :: ustr
  component_version :: ustr
  artifact_digest :: ustr
  adapter_id :: ustr
  adapter_version :: ustr

record PolicyContent =
  verifier_id :: ustr
  presentation_definition_digest :: ustr
  policy_checks :: "ustr list"

record TrustContent =
  trusted_issuers :: "ustr list"
  allow_public_did_fallback :: bool

record PolicyDocument =
  pol_organization :: ustr
  pol_id :: ustr
  pol_version :: ustr
  pol_digest :: ustr
  pol_content :: PolicyContent

record TrustDocument =
  tru_organization :: ustr
  tru_id :: ustr
  tru_version :: ustr
  tru_digest :: ustr
  tru_content :: TrustContent

record PurposeAuthorization =
  auth_policy_id :: ustr
  auth_trust_profile_id :: ustr

record ClientAuthorization =
  client_id :: ustr
  api_key_sha256 :: ustr
  client_organization :: ustr
  purposes :: "(ustr \<times> PurposeAuthorization) list"

record GovernanceDocument =
  gov_component :: ComponentReference
  policies :: "PolicyDocument list"
  trust_profiles :: "TrustDocument list"
  clients :: "ClientAuthorization list"

record SnapshotPolicy =
  sp_reference :: ProfileReference
  sp_content :: PolicyContent

record SnapshotTrustProfile =
  st_reference :: ProfileReference
  st_content :: TrustContent

record GovernanceSnapshot =
  snap_client_id :: ustr
  snap_purpose :: ustr
  snap_organization :: ustr
  snap_policy :: SnapshotPolicy
  snap_trust_profile :: SnapshotTrustProfile
  snap_component :: ComponentReference

text \<open>
  What serde, the hash and the UUID parser compute: the derived conversions between texts, values
  and records, the SHA-256 digest, and the text of a parsed UUID.
\<close>

record 'n gov_env = "'n text_env" +
  gov_sha256 :: "bytes \<Rightarrow> bytes"
  uuid_text :: "ustr \<Rightarrow> ustr option"
  de_value :: "ustr \<Rightarrow> ustr + 'n json"
  value_text :: "'n json \<Rightarrow> ustr + ustr"
  de_governance :: "ustr \<Rightarrow> ustr + GovernanceDocument"
  de_snapshot :: "'n json \<Rightarrow> ustr + GovernanceSnapshot"
  snapshot_text :: "GovernanceSnapshot \<Rightarrow> ustr + ustr"
  de_authorization_request :: "ustr \<Rightarrow> ustr + 'n json \<times> ustr \<times> ustr"
  de_resume_request :: "ustr \<Rightarrow> ustr + 'n json \<times> 'n json"
  de_snapshot_request :: "ustr \<Rightarrow> ustr + 'n json"
  de_purpose_request :: "ustr \<Rightarrow> ustr + ustr \<times> ustr list \<times> ustr"
  de_validate_request :: "ustr \<Rightarrow> ustr + ustr \<times> ustr \<times> ustr \<times> 'n json"

subsection \<open>Checks\<close>

definition required_checks :: "ustr \<Rightarrow> (ustr list, ustr) result" where
  "required_checks purpose =
     (if purpose = SESSION_CREATE_PURPOSE \<or> purpose = DIRECT_VERIFY_PURPOSE then Ok ALL_PRESENTATION_CHECKS
      else if purpose = VDS_NC_VERIFY_PURPOSE then Ok VDS_CHECKS
      else Err (lit ''Unsupported verification purpose''))"

definition require_purpose_checks :: "ustr \<Rightarrow> ustr list \<Rightarrow> (unit, ustr list) result" where
  "require_purpose_checks purpose checks =
     rbind (map_err (\<lambda>e. [e]) (required_checks purpose)) (\<lambda>required.
     let missing = filter (\<lambda>c. c \<notin> set checks) required in
     if missing = [] then Ok () else Err missing)"

definition bounded_text :: "ustr \<Rightarrow> ustr \<Rightarrow> (unit, ustr) result" where
  "bounded_text v field =
     (if v = [] \<or> str_len v > 255 then Err (field @ lit '' must be non-empty bounded text'') else Ok ())"

definition lowercase_sha256 :: "ustr \<Rightarrow> ustr \<Rightarrow> bool \<Rightarrow> (unit, ustr) result" where
  "lowercase_sha256 v field prefixed =
     rbind (if prefixed then ok_or (strip_prefix (lit ''sha256:'') v) (field @ lit '' must be a lowercase SHA-256 digest'')
            else Ok v) (\<lambda>v.
     if str_len v = 64 \<and> list_all (\<lambda>b. (48 \<le> b \<and> b \<le> 57) \<or> (97 \<le> b \<and> b \<le> 102)) (as_bytes v)
     then Ok () else Err (field @ lit '' must be lowercase SHA-256''))"

definition canonical_uuid :: "('n, 'x) gov_env_scheme \<Rightarrow> ustr \<Rightarrow> ustr \<Rightarrow> (unit, ustr) result" where
  "canonical_uuid env v field =
     rbind (ok_or (uuid_text env v) (field @ lit '' must be a canonical UUID'')) (\<lambda>parsed.
     ensure (\<not> parsed \<noteq> v) (field @ lit '' must be a canonical UUID''))"

fun is_sorted_unique :: "ustr list \<Rightarrow> bool" where
  "is_sorted_unique (x # y # zs) \<longleftrightarrow> x < y \<and> is_sorted_unique (y # zs)"
| "is_sorted_unique _ \<longleftrightarrow> True"

definition to_digit16 :: "u8 \<Rightarrow> nat option" where
  "to_digit16 b =
     (let c = unat b in
      if 48 \<le> c \<and> c \<le> 57 then Some (c - 48)
      else if 97 \<le> c \<and> c \<le> 102 then Some (c - 87)
      else if 65 \<le> c \<and> c \<le> 70 then Some (c - 55) else None)"

fun decode_pairs :: "bytes \<Rightarrow> bytes option" where
  "decode_pairs (h # l # rest) =
     (case (to_digit16 h, to_digit16 l) of
        (Some a, Some b) \<Rightarrow> map_option (\<lambda>bs. (push_bit 4 (of_nat a) OR of_nat b) # bs) (decode_pairs rest)
      | _ \<Rightarrow> None)"
| "decode_pairs _ = Some []"

definition decode_hex :: "ustr \<Rightarrow> bytes option" where
  "decode_hex v = (if str_len v mod 2 \<noteq> 0 then None else decode_pairs (as_bytes v))"

definition constant_time_equal :: "bytes \<Rightarrow> bytes \<Rightarrow> bool" where
  "constant_time_equal left right \<longleftrightarrow>
     foldl (\<lambda>difference i. difference OR
         unat ((case get_at left i of Some b \<Rightarrow> b | None \<Rightarrow> 0) XOR (case get_at right i of Some b \<Rightarrow> b | None \<Rightarrow> 0)))
       (length left XOR length right) [0..<max (length left) (length right)] = 0"

definition canonical_digest :: "('n, 'x) gov_env_scheme \<Rightarrow> 'n json \<Rightarrow> (ustr, ustr) result" where
  "canonical_digest env v =
     rbind (map_err (\<lambda>_. lit ''value is not canonical JSON'') (canonical_json env v)) (\<lambda>canonical.
     Ok (lit ''sha256:'' @ hex_text (gov_sha256 env (as_bytes canonical))))"

text \<open>The value of a policy or trust content, as its derived \<open>Serialize\<close> lists the fields.\<close>

definition policy_content_value :: "PolicyContent \<Rightarrow> 'n json" where
  "policy_content_value c = JObject
     [(lit ''verifier_id'', JString (verifier_id c)),
      (lit ''presentation_definition_digest'', JString (presentation_definition_digest c)),
      (lit ''required_checks'', JArray (map JString (policy_checks c)))]"

definition trust_content_value :: "TrustContent \<Rightarrow> 'n json" where
  "trust_content_value c = JObject
     [(lit ''trusted_issuers'', JArray (map JString (trusted_issuers c))),
      (lit ''allow_public_did_fallback'', JBool (allow_public_did_fallback c))]"

subsection \<open>Validation\<close>

definition validate_component :: "ComponentReference \<Rightarrow> ustr \<Rightarrow> (unit, ustr) result" where
  "validate_component c field =
     rbind (bounded_text (component_id c) (field @ lit ''.component_id'')) (\<lambda>_.
     rbind (bounded_text (component_version c) (field @ lit ''.version'')) (\<lambda>_.
     rbind (lowercase_sha256 (artifact_digest c) (field @ lit ''.artifact_digest'') True) (\<lambda>_.
     rbind (bounded_text (adapter_id c) (field @ lit ''.adapter_id'')) (\<lambda>_.
     rbind (bounded_text (adapter_version c) (field @ lit ''.adapter_version'')) (\<lambda>_.
     rbind (ensure (\<not> component_id c \<noteq> CREDENTIALS_COMPONENT_ID)
              (field @ lit ''.component_id must be '' @ CREDENTIALS_COMPONENT_ID)) (\<lambda>_.
     ensure (\<not> adapter_id c \<noteq> VERIFICATION_ADAPTER_ID)
       (field @ lit ''.adapter_id must be '' @ VERIFICATION_ADAPTER_ID)))))))"

definition validate_policy_content :: "PolicyContent \<Rightarrow> ustr \<Rightarrow> (unit, ustr) result" where
  "validate_policy_content c field =
     rbind (bounded_text (verifier_id c) (field @ lit ''.content.verifier_id'')) (\<lambda>_.
     rbind (lowercase_sha256 (presentation_definition_digest c)
              (field @ lit ''.content.presentation_definition_digest'') True) (\<lambda>_.
     rbind (ensure (policy_checks c \<noteq> []) (field @ lit ''.content.required_checks must be non-empty'')) (\<lambda>_.
     rbind (ensure (\<not> list_ex (\<lambda>check. check \<notin> set ALL_PRESENTATION_CHECKS) (policy_checks c))
              (field @ lit ''.content.required_checks is unsupported'')) (\<lambda>_.
     ensure (\<not> card (set (policy_checks c)) \<noteq> length (policy_checks c))
       (field @ lit ''.content.required_checks contains duplicates'')))))"

definition validate_policy :: "('n, 'x) gov_env_scheme \<Rightarrow> PolicyDocument \<Rightarrow> ustr \<Rightarrow> (unit, ustr) result" where
  "validate_policy env p field =
     rbind (canonical_uuid env (pol_organization p) (field @ lit ''.organization_id'')) (\<lambda>_.
     rbind (bounded_text (pol_id p) (field @ lit ''.id'')) (\<lambda>_.
     rbind (bounded_text (pol_version p) (field @ lit ''.version'')) (\<lambda>_.
     rbind (lowercase_sha256 (pol_digest p) (field @ lit ''.content_digest'') True) (\<lambda>_.
     rbind (validate_policy_content (pol_content p) field) (\<lambda>_.
     rbind (canonical_digest env (policy_content_value (pol_content p))) (\<lambda>digest.
     ensure (\<not> digest \<noteq> pol_digest p) (field @ lit ''.content_digest does not match content'')))))))"

definition validate_trust_content :: "TrustContent \<Rightarrow> ustr \<Rightarrow> (unit, ustr) result" where
  "validate_trust_content c field =
     rbind (ensure (\<not> (trusted_issuers c = []
                \<or> list_ex (\<lambda>issuer. strip_prefix (lit ''did:'') issuer = None \<or> str_len issuer > 255) (trusted_issuers c)
                \<or> \<not> is_sorted_unique (trusted_issuers c)))
              (field @ lit ''.content.trusted_issuers must be a non-empty sorted unique list'')) (\<lambda>_.
     ensure (\<not> allow_public_did_fallback c) (field @ lit ''.content.allow_public_did_fallback must be false''))"

definition validate_trust :: "('n, 'x) gov_env_scheme \<Rightarrow> TrustDocument \<Rightarrow> ustr \<Rightarrow> (unit, ustr) result" where
  "validate_trust env t field =
     rbind (canonical_uuid env (tru_organization t) (field @ lit ''.organization_id'')) (\<lambda>_.
     rbind (bounded_text (tru_id t) (field @ lit ''.id'')) (\<lambda>_.
     rbind (bounded_text (tru_version t) (field @ lit ''.version'')) (\<lambda>_.
     rbind (lowercase_sha256 (tru_digest t) (field @ lit ''.content_digest'') True) (\<lambda>_.
     rbind (validate_trust_content (tru_content t) field) (\<lambda>_.
     rbind (canonical_digest env (trust_content_value (tru_content t))) (\<lambda>digest.
     ensure (\<not> digest \<noteq> tru_digest t) (field @ lit ''.content_digest does not match content'')))))))"

definition validate_snapshot_policy :: "('n, 'x) gov_env_scheme \<Rightarrow> SnapshotPolicy \<Rightarrow> ustr \<Rightarrow> (unit, ustr) result" where
  "validate_snapshot_policy env p org =
     validate_policy env \<lparr>pol_organization = org, pol_id = ref_id (sp_reference p), pol_version = ref_version (sp_reference p),
       pol_digest = ref_digest (sp_reference p), pol_content = sp_content p\<rparr> (lit ''governance_snapshot.policy'')"

definition validate_snapshot_trust :: "('n, 'x) gov_env_scheme \<Rightarrow> SnapshotTrustProfile \<Rightarrow> ustr \<Rightarrow> (unit, ustr) result" where
  "validate_snapshot_trust env t org =
     validate_trust env \<lparr>tru_organization = org, tru_id = ref_id (st_reference t), tru_version = ref_version (st_reference t),
       tru_digest = ref_digest (st_reference t), tru_content = st_content t\<rparr> (lit ''governance_snapshot.trust_profile'')"

subsection \<open>The configuration\<close>

primrec check_policies :: "('n, 'x) gov_env_scheme \<Rightarrow> nat \<Rightarrow> PolicyDocument list \<Rightarrow> (ustr \<times> ustr) set \<Rightarrow> (unit, ustr) result" where
  "check_policies env i [] keys = Ok ()"
| "check_policies env i (p # rest) keys =
     rbind (validate_policy env p (lit ''policies['' @ dec_text i @ lit '']'')) (\<lambda>_.
     rbind (ensure ((pol_organization p, pol_id p) \<notin> keys) (lit ''duplicate organization policy profile'')) (\<lambda>_.
     check_policies env (i + 1) rest (insert (pol_organization p, pol_id p) keys)))"

primrec check_trusts :: "('n, 'x) gov_env_scheme \<Rightarrow> nat \<Rightarrow> TrustDocument list \<Rightarrow> (ustr \<times> ustr) set \<Rightarrow> (unit, ustr) result" where
  "check_trusts env i [] keys = Ok ()"
| "check_trusts env i (t # rest) keys =
     rbind (validate_trust env t (lit ''trust_profiles['' @ dec_text i @ lit '']'')) (\<lambda>_.
     rbind (ensure ((tru_organization t, tru_id t) \<notin> keys) (lit ''duplicate organization trust profile'')) (\<lambda>_.
     check_trusts env (i + 1) rest (insert (tru_organization t, tru_id t) keys)))"

definition find_policy :: "GovernanceDocument \<Rightarrow> ustr \<Rightarrow> ustr \<Rightarrow> PolicyDocument option" where
  "find_policy g org pid = List.find (\<lambda>p. pol_organization p = org \<and> pol_id p = pid) (policies g)"

definition find_trust :: "GovernanceDocument \<Rightarrow> ustr \<Rightarrow> ustr \<Rightarrow> TrustDocument option" where
  "find_trust g org tid = List.find (\<lambda>t. tru_organization t = org \<and> tru_id t = tid) (trust_profiles g)"

primrec check_purposes ::
    "GovernanceDocument \<Rightarrow> ClientAuthorization \<Rightarrow> ustr \<Rightarrow> (ustr \<times> PurposeAuthorization) list \<Rightarrow> (unit, ustr) result" where
  "check_purposes g client field [] = Ok ()"
| "check_purposes g client field (entry # rest) =
     (let purpose = fst entry; authorization = snd entry;
          about = lit ''client '' @ client_id client @ lit '' purpose '' @ purpose in
      rbind (required_checks purpose) (\<lambda>_.
      rbind (bounded_text (auth_policy_id authorization) (field @ lit ''.purposes['' @ purpose @ lit ''].policy_id'')) (\<lambda>_.
      rbind (bounded_text (auth_trust_profile_id authorization) (field @ lit ''.purposes['' @ purpose @ lit ''].trust_profile_id'')) (\<lambda>_.
      rbind (ok_or (find_policy g (client_organization client) (auth_policy_id authorization))
               (about @ lit '' references an unknown organization policy'')) (\<lambda>policy.
      rbind (ensure (\<not> \<not> list_ex (\<lambda>t. tru_organization t = client_organization client \<and> tru_id t = auth_trust_profile_id authorization)
                           (trust_profiles g))
               (about @ lit '' references an unknown organization trust profile'')) (\<lambda>_.
      rbind (map_err (\<lambda>missing. lit ''client '' @ client_id client @ lit '' policy is missing mandatory checks for ''
                        @ purpose @ lit '': '' @ debug_strings missing)
               (require_purpose_checks purpose (policy_checks (pol_content policy)))) (\<lambda>_.
      check_purposes g client field rest)))))))"

primrec check_clients ::
    "('n, 'x) gov_env_scheme \<Rightarrow> GovernanceDocument \<Rightarrow> nat \<Rightarrow> ClientAuthorization list \<Rightarrow> ustr set \<Rightarrow> ustr set \<Rightarrow> (unit, ustr) result" where
  "check_clients env g i [] ids digests = Ok ()"
| "check_clients env g i (client # rest) ids digests =
     (let field = lit ''clients['' @ dec_text i @ lit '']'' in
      rbind (bounded_text (client_id client) (field @ lit ''.client_id'')) (\<lambda>_.
      rbind (canonical_uuid env (client_organization client) (field @ lit ''.organization_id'')) (\<lambda>_.
      rbind (lowercase_sha256 (api_key_sha256 client) (field @ lit ''.api_key_sha256'') False) (\<lambda>_.
      rbind (ensure (purposes client \<noteq> []) (field @ lit ''.purposes is invalid'')) (\<lambda>_.
      rbind (ensure (client_id client \<notin> ids) (lit ''duplicate client id'')) (\<lambda>_.
      rbind (ensure (api_key_sha256 client \<notin> digests) (lit ''duplicate client API key digest'')) (\<lambda>_.
      rbind (check_purposes g client field (purposes client)) (\<lambda>_.
      check_clients env g (i + 1) rest (insert (client_id client) ids) (insert (api_key_sha256 client) digests)))))))))"

definition parse_governance :: "('n, 'x) gov_env_scheme \<Rightarrow> ustr \<Rightarrow> (GovernanceDocument, ustr) result" where
  "parse_governance env raw =
     rbind (lift_err (\<lambda>e. lit ''VERIFICATION_GOVERNANCE_JSON must be valid JSON: '' @ e) (de_governance env raw)) (\<lambda>g.
     rbind (validate_component (gov_component g) (lit ''component'')) (\<lambda>_.
     rbind (ensure (\<not> (policies g = [] \<or> trust_profiles g = [] \<or> clients g = []))
              (lit ''policies, trust_profiles, and clients must be non-empty lists'')) (\<lambda>_.
     rbind (check_policies env 0 (policies g) {}) (\<lambda>_.
     rbind (check_trusts env 0 (trust_profiles g) {}) (\<lambda>_.
     rbind (check_clients env g 0 (clients g) {} {}) (\<lambda>_.
     Ok g))))))"

subsection \<open>Authorization\<close>

definition snapshot :: "GovernanceDocument \<Rightarrow> ClientAuthorization \<Rightarrow> ustr \<Rightarrow> PolicyDocument \<Rightarrow> TrustDocument \<Rightarrow> GovernanceSnapshot" where
  "snapshot g client purpose policy trust =
     \<lparr>snap_client_id = client_id client, snap_purpose = purpose, snap_organization = client_organization client,
      snap_policy = \<lparr>sp_reference = \<lparr>ref_id = pol_id policy, ref_version = pol_version policy, ref_digest = pol_digest policy\<rparr>,
                     sp_content = pol_content policy\<rparr>,
      snap_trust_profile = \<lparr>st_reference = \<lparr>ref_id = tru_id trust, ref_version = tru_version trust, ref_digest = tru_digest trust\<rparr>,
                            st_content = tru_content trust\<rparr>,
      snap_component = gov_component g\<rparr>"

definition matched_client :: "bytes \<Rightarrow> ClientAuthorization list \<Rightarrow> ClientAuthorization option" where
  "matched_client supplied cs =
     foldl (\<lambda>matched client.
         let expected = (case decode_hex (api_key_sha256 client) of Some bs \<Rightarrow> bs | None \<Rightarrow> []) in
         if constant_time_equal supplied expected then Some client else matched) None cs"

definition expect :: "'a option \<Rightarrow> ('a, 'e) result" where
  "expect x = (case x of Some v \<Rightarrow> Ok v | None \<Rightarrow> Panic)"

definition authorize :: "('n, 'x) gov_env_scheme \<Rightarrow> GovernanceDocument \<Rightarrow> ustr \<Rightarrow> ustr \<Rightarrow> (GovernanceSnapshot, ustr) result" where
  "authorize env g api_key purpose =
     rbind (map_err (\<lambda>_. lit ''Unsupported verification purpose'') (required_checks purpose)) (\<lambda>_.
     rbind (ensure (\<not> (api_key = [] \<or> str_len api_key > 4096)) (lit ''Invalid or unauthorized API key'')) (\<lambda>_.
     let supplied = gov_sha256 env (as_bytes api_key) in
     rbind (ok_or (matched_client supplied (clients g)) (lit ''Invalid or unauthorized API key'')) (\<lambda>client.
     rbind (ok_or (map_of (purposes client) purpose) (lit ''Invalid or unauthorized API key'')) (\<lambda>authorization.
     rbind (expect (find_policy g (client_organization client) (auth_policy_id authorization))) (\<lambda>policy.
     rbind (expect (find_trust g (client_organization client) (auth_trust_profile_id authorization))) (\<lambda>trust.
     Ok (snapshot g client purpose policy trust)))))))"

definition resume :: "GovernanceDocument \<Rightarrow> GovernanceSnapshot \<Rightarrow> (GovernanceSnapshot, ustr) result" where
  "resume g frozen =
     rbind (ok_or (case List.find (\<lambda>c. client_id c = snap_client_id frozen) (clients g) of
                     Some c \<Rightarrow> if client_organization c = snap_organization frozen then Some c else None
                   | None \<Rightarrow> None)
              (lit ''governance_snapshot client is not registered for its organization'')) (\<lambda>client.
     rbind (ok_or (map_of (purposes client) (snap_purpose frozen))
              (lit ''governance_snapshot client is not authorized for its purpose'')) (\<lambda>authorization.
     rbind (ensure (\<not> (auth_policy_id authorization \<noteq> ref_id (sp_reference (snap_policy frozen))
                     \<or> auth_trust_profile_id authorization \<noteq> ref_id (st_reference (snap_trust_profile frozen))))
              (lit ''governance_snapshot profiles are not authorized for its purpose'')) (\<lambda>_.
     rbind (ok_or (find_policy g (snap_organization frozen) (auth_policy_id authorization))
              (lit ''governance_snapshot profiles do not match the registered authority'')) (\<lambda>policy.
     rbind (ok_or (find_trust g (snap_organization frozen) (auth_trust_profile_id authorization))
              (lit ''governance_snapshot profiles do not match the registered authority'')) (\<lambda>trust.
     let expected = snapshot g client (snap_purpose frozen) policy trust in
     rbind (ensure (\<not> (snap_policy frozen \<noteq> snap_policy expected \<or> snap_trust_profile frozen \<noteq> snap_trust_profile expected))
              (lit ''governance_snapshot profiles do not match the registered authority'')) (\<lambda>_.
     Ok expected))))))"

definition parse_snapshot :: "('n, 'x) gov_env_scheme \<Rightarrow> 'n json \<Rightarrow> (GovernanceSnapshot, ustr) result" where
  "parse_snapshot env v =
     rbind (lift_err (\<lambda>e. lit ''governance_snapshot is invalid: '' @ e) (de_snapshot env v)) (\<lambda>s.
     rbind (bounded_text (snap_client_id s) (lit ''governance_snapshot.client_id'')) (\<lambda>_.
     rbind (required_checks (snap_purpose s)) (\<lambda>_.
     rbind (canonical_uuid env (snap_organization s) (lit ''governance_snapshot.organization_id'')) (\<lambda>_.
     rbind (validate_component (snap_component s) (lit ''governance_snapshot.component'')) (\<lambda>_.
     rbind (validate_snapshot_policy env (snap_policy s) (snap_organization s)) (\<lambda>_.
     rbind (validate_snapshot_trust env (snap_trust_profile s) (snap_organization s)) (\<lambda>_.
     rbind (map_err (\<lambda>missing. lit ''governance_snapshot policy is missing mandatory purpose checks: '' @ debug_strings missing)
              (require_purpose_checks (snap_purpose s) (policy_checks (sp_content (snap_policy s))))) (\<lambda>_.
     Ok s))))))))"

subsection \<open>The JSON boundary\<close>

definition canonical_digest_json :: "('n, 'x) gov_env_scheme \<Rightarrow> ustr \<Rightarrow> (ustr, ustr) result" where
  "canonical_digest_json env t =
     rbind (lift_err (\<lambda>_. lit ''value is not canonical JSON'') (de_value env t)) (canonical_digest env)"

definition validate_governance_json :: "('n, 'x) gov_env_scheme \<Rightarrow> ustr \<Rightarrow> (unit, ustr) result" where
  "validate_governance_json env raw = rbind (parse_governance env raw) (\<lambda>_. Ok ())"

definition authorize_governance_json :: "('n, 'x) gov_env_scheme \<Rightarrow> ustr \<Rightarrow> (ustr, ustr) result" where
  "authorize_governance_json env request_json =
     rbind (lift_err (\<lambda>e. lit ''invalid governance authorization request: '' @ e) (de_authorization_request env request_json))
       (\<lambda>(governance, api_key, purpose).
     rbind (lift_err (\<lambda>_. lit ''VERIFICATION_GOVERNANCE_JSON must be valid JSON'') (value_text env governance)) (\<lambda>raw.
     rbind (parse_governance env raw) (\<lambda>g.
     rbind (authorize env g api_key purpose) (\<lambda>s.
     lift_err (\<lambda>e. e) (snapshot_text env s)))))"

definition governance_from_snapshot_json :: "('n, 'x) gov_env_scheme \<Rightarrow> ustr \<Rightarrow> (ustr, ustr) result" where
  "governance_from_snapshot_json env request_json =
     rbind (lift_err (\<lambda>e. lit ''invalid governance snapshot request: '' @ e) (de_snapshot_request env request_json)) (\<lambda>v.
     rbind (parse_snapshot env v) (\<lambda>s.
     lift_err (\<lambda>e. e) (snapshot_text env s)))"

definition resume_governance_json :: "('n, 'x) gov_env_scheme \<Rightarrow> ustr \<Rightarrow> (ustr, ustr) result" where
  "resume_governance_json env request_json =
     rbind (lift_err (\<lambda>e. lit ''invalid governance resume request: '' @ e) (de_resume_request env request_json))
       (\<lambda>(governance, frozen).
     rbind (lift_err (\<lambda>_. lit ''VERIFICATION_GOVERNANCE_JSON must be valid JSON'') (value_text env governance)) (\<lambda>raw.
     rbind (parse_governance env raw) (\<lambda>g.
     rbind (parse_snapshot env frozen) (\<lambda>s.
     rbind (resume g s) (\<lambda>resumed.
     lift_err (\<lambda>e. e) (snapshot_text env resumed))))))"

definition require_governance_purpose_json :: "('n, 'x) gov_env_scheme \<Rightarrow> ustr \<Rightarrow> (unit, ustr) result" where
  "require_governance_purpose_json env request_json =
     rbind (lift_err (\<lambda>e. lit ''invalid governance purpose request: '' @ e) (de_purpose_request env request_json))
       (\<lambda>(snapshot_purpose, checks, purpose).
     rbind (ensure (\<not> snapshot_purpose \<noteq> purpose)
              (lit ''verification governance context is not authorized for this purpose'')) (\<lambda>_.
     map_err (\<lambda>_. lit ''verification policy is missing mandatory purpose checks'') (require_purpose_checks purpose checks)))"

definition validate_governance_request_json :: "('n, 'x) gov_env_scheme \<Rightarrow> ustr \<Rightarrow> (unit, ustr) result" where
  "validate_governance_request_json env request_json =
     rbind (lift_err (\<lambda>e. lit ''invalid governed verification request: '' @ e) (de_validate_request env request_json))
       (\<lambda>(bound_verifier, bound_digest, verifier, definition_value).
     rbind (ensure (\<not> verifier \<noteq> bound_verifier)
              (lit ''verifier_id does not match the caller-bound verification policy'')) (\<lambda>_.
     rbind (map_err (\<lambda>_. lit ''presentation_definition is not canonical JSON'') (canonical_digest env definition_value)) (\<lambda>digest.
     ensure (\<not> digest \<noteq> bound_digest)
       (lit ''presentation_definition does not match the caller-bound verification policy''))))"

subsection \<open>What the checks accept\<close>

definition policy_ok :: "('n, 'x) gov_env_scheme \<Rightarrow> PolicyDocument \<Rightarrow> bool" where
  "policy_ok env p \<longleftrightarrow> validate_policy env p [] = Ok ()"

definition trust_ok :: "('n, 'x) gov_env_scheme \<Rightarrow> TrustDocument \<Rightarrow> bool" where
  "trust_ok env t \<longleftrightarrow> validate_trust env t [] = Ok ()"

definition component_ok :: "ComponentReference \<Rightarrow> bool" where
  "component_ok c \<longleftrightarrow> validate_component c [] = Ok ()"

lemma bounded_text_Ok: "bounded_text v f = Ok () \<longleftrightarrow> bounded_text v [] = Ok ()"
  by (simp add: bounded_text_def)

lemma lowercase_sha256_Ok: "lowercase_sha256 v f b = Ok () \<longleftrightarrow> lowercase_sha256 v [] b = Ok ()"
  by (simp add: lowercase_sha256_def ok_or_def split: option.splits)

lemma canonical_uuid_Ok: "canonical_uuid env v f = Ok () \<longleftrightarrow> uuid_text env v = Some v"
  by (auto simp: canonical_uuid_def ok_or_def ensure_def split: option.splits if_splits)

lemma validate_component_Ok: "validate_component c f = Ok () \<longleftrightarrow> component_ok c"
  unfolding component_ok_def validate_component_def
  by (simp add: ensure_eq_Ok bounded_text_Ok [of _ "_ @ _"] lowercase_sha256_Ok [of _ "_ @ _"] bounded_text_Ok [of _ "lit _"] lowercase_sha256_Ok [of _ "lit _"])

lemma validate_policy_content_Ok: "validate_policy_content c f = Ok () \<longleftrightarrow> validate_policy_content c [] = Ok ()"
  unfolding validate_policy_content_def
  by (simp add: ensure_eq_Ok bounded_text_Ok [of _ "_ @ _"] lowercase_sha256_Ok [of _ "_ @ _"] bounded_text_Ok [of _ "lit _"] lowercase_sha256_Ok [of _ "lit _"])

lemma validate_policy_Ok: "validate_policy env p f = Ok () \<longleftrightarrow> policy_ok env p"
  unfolding policy_ok_def validate_policy_def
  by (simp add: ensure_eq_Ok canonical_uuid_Ok bounded_text_Ok [of _ "_ @ _"] lowercase_sha256_Ok [of _ "_ @ _"] bounded_text_Ok [of _ "lit _"]
      lowercase_sha256_Ok [of _ "lit _"] validate_policy_content_Ok [of _ f])

lemma validate_trust_Ok: "validate_trust env t f = Ok () \<longleftrightarrow> trust_ok env t"
  unfolding trust_ok_def validate_trust_def validate_trust_content_def
  by (simp add: ensure_eq_Ok canonical_uuid_Ok bounded_text_Ok [of _ "_ @ _"] lowercase_sha256_Ok [of _ "_ @ _"] bounded_text_Ok [of _ "lit _"]
      lowercase_sha256_Ok [of _ "lit _"])

lemmas field_free = bounded_text_Ok [of _ "_ @ _"] lowercase_sha256_Ok [of _ "_ @ _"] bounded_text_Ok [of _ "lit _"]
  lowercase_sha256_Ok [of _ "lit _"] canonical_uuid_Ok ensure_eq_Ok validate_component_Ok validate_policy_Ok validate_trust_Ok

lemma check_policies_Ok:
  "check_policies env i ps keys = Ok () \<longleftrightarrow> list_all (policy_ok env) ps
     \<and> distinct (map (\<lambda>p. (pol_organization p, pol_id p)) ps) \<and> (\<lambda>p. (pol_organization p, pol_id p)) ` set ps \<inter> keys = {}"
  by (induction ps arbitrary: i keys) (auto simp: field_free)

lemma check_trusts_Ok:
  "check_trusts env i ts keys = Ok () \<longleftrightarrow> list_all (trust_ok env) ts
     \<and> distinct (map (\<lambda>t. (tru_organization t, tru_id t)) ts) \<and> (\<lambda>t. (tru_organization t, tru_id t)) ` set ts \<inter> keys = {}"
  by (induction ts arbitrary: i keys) (auto simp: field_free)

definition purpose_ok :: "GovernanceDocument \<Rightarrow> ustr \<Rightarrow> ustr \<times> PurposeAuthorization \<Rightarrow> bool" where
  "purpose_ok g org entry \<longleftrightarrow>
     (\<exists>p. find_policy g org (auth_policy_id (snd entry)) = Some p
        \<and> require_purpose_checks (fst entry) (policy_checks (pol_content p)) = Ok ())
     \<and> (\<exists>t. find_trust g org (auth_trust_profile_id (snd entry)) = Some t)"

lemma find_ex: "list_ex P xs \<Longrightarrow> \<exists>x. List.find P xs = Some x"
  by (induction xs) auto

lemma check_purposes_Ok: "check_purposes g c f es = Ok () \<Longrightarrow> list_all (purpose_ok g (client_organization c)) es"
proof (induction es)
  case (Cons e es)
  from Cons.prems obtain p where "find_policy g (client_organization c) (auth_policy_id (snd e)) = Some p"
      "list_ex (\<lambda>t. tru_organization t = client_organization c \<and> tru_id t = auth_trust_profile_id (snd e)) (trust_profiles g)"
      "require_purpose_checks (fst e) (policy_checks (pol_content p)) = Ok ()" "check_purposes g c f es = Ok ()"
    by (auto simp: Let_def map_err_eq_Ok ok_or_def ensure_eq_Ok split: option.splits)
  with Cons.IH find_ex show ?case by (auto simp: purpose_ok_def find_trust_def)
qed simp

definition client_ok :: "('n, 'x) gov_env_scheme \<Rightarrow> GovernanceDocument \<Rightarrow> ClientAuthorization \<Rightarrow> bool" where
  "client_ok env g c \<longleftrightarrow> bounded_text (client_id c) [] = Ok () \<and> uuid_text env (client_organization c) = Some (client_organization c)
     \<and> lowercase_sha256 (api_key_sha256 c) [] False = Ok () \<and> list_all (purpose_ok g (client_organization c)) (purposes c)"

lemma check_clients_Ok:
  "check_clients env g i cs ids digests = Ok () \<Longrightarrow> list_all (client_ok env g) cs
     \<and> distinct (map client_id cs) \<and> distinct (map api_key_sha256 cs)
     \<and> client_id ` set cs \<inter> ids = {} \<and> api_key_sha256 ` set cs \<inter> digests = {}"
proof (induction cs arbitrary: i ids digests)
  case (Cons c cs)
  from Cons.prems have "check_clients env g (i + 1) cs (insert (client_id c) ids) (insert (api_key_sha256 c) digests) = Ok ()"
    and c: "client_ok env g c" "client_id c \<notin> ids" "api_key_sha256 c \<notin> digests"
    by (auto simp: Let_def field_free client_ok_def check_purposes_Ok)
  from Cons.IH [OF this(1)] c show ?case by auto
qed simp

definition governance_ok :: "('n, 'x) gov_env_scheme \<Rightarrow> GovernanceDocument \<Rightarrow> bool" where
  "governance_ok env g \<longleftrightarrow> component_ok (gov_component g)
     \<and> list_all (policy_ok env) (policies g) \<and> distinct (map (\<lambda>p. (pol_organization p, pol_id p)) (policies g))
     \<and> list_all (trust_ok env) (trust_profiles g) \<and> distinct (map (\<lambda>t. (tru_organization t, tru_id t)) (trust_profiles g))
     \<and> list_all (client_ok env g) (clients g) \<and> distinct (map client_id (clients g)) \<and> distinct (map api_key_sha256 (clients g))"

lemma parse_governance_ok: "parse_governance env raw = Ok g \<Longrightarrow> governance_ok env g"
  by (auto simp: parse_governance_def governance_ok_def field_free check_policies_Ok check_trusts_Ok dest!: check_clients_Ok)

subsection \<open>Digests\<close>

definition lower_hex :: "nat \<Rightarrow> bool" where
  "lower_hex c \<longleftrightarrow> (48 \<le> c \<and> c \<le> 57) \<or> (97 \<le> c \<and> c \<le> 102)"

lemma non_ascii_byte: "128 \<le> c \<Longrightarrow> \<exists>b \<in> set (utf8_encode c). 128 \<le> unat b"
proof -
  assume "128 \<le> c"
  have "unat (of_nat (0x80 + c mod 64) :: u8) = 0x80 + c mod 64"
  proof -
    have "c mod 64 < 64" by simp
    then have "0x80 + c mod 64 \<le> 255" by linarith
    then show ?thesis by (rule u8_of_nat)
  qed
  then have "128 \<le> unat (of_nat (0x80 + c mod 64) :: u8)" by linarith
  moreover have "(of_nat (0x80 + c mod 64) :: u8) \<in> set (utf8_encode c)"
    using \<open>128 \<le> c\<close> by (simp add: utf8_encode_def)
  ultimately show ?thesis by blast
qed

lemma byte_le: "(b :: u8) \<le> c \<longleftrightarrow> unat b \<le> unat c"
  by (rule word_le_nat_alt)

lemma digest_chars:
  assumes "lowercase_sha256 v f False = Ok ()"
  shows "list_all lower_hex v \<and> length v = 64"
proof -
  have b: "(48 \<le> unat b \<and> unat b \<le> 57) \<or> (97 \<le> unat b \<and> unat b \<le> 102)" if "b \<in> set (as_bytes v)" for b
    using assms that by (auto simp: lowercase_sha256_def list_all_iff byte_le split: if_splits)
  have small: "c < 128" if "c \<in> set v" for c
  proof (rule ccontr)
    assume "\<not> c < 128"
    then obtain b where "b \<in> set (utf8_encode c)" "128 \<le> unat b" using non_ascii_byte [of c] by auto
    moreover from this(1) that have "b \<in> set (as_bytes v)" by (auto simp: as_bytes_def)
    ultimately show False using b [of b] by linarith
  qed
  then have asc: "is_ascii v" by (simp add: is_ascii_def list_all_iff)
  have "lower_hex c" if "c \<in> set v" for c
  proof -
    have "of_nat c \<in> set (as_bytes v)" using ascii_bytes [OF asc] that by auto
    from b [OF this] small [OF that] show ?thesis by (simp add: lower_hex_def unat_of_nat take_bit_nat_def)
  qed
  moreover have "length v = 64" using assms ascii_len [OF asc] by (auto simp: lowercase_sha256_def split: if_splits)
  ultimately show ?thesis by (simp add: list_all_iff)
qed

definition hex_value :: "nat \<Rightarrow> nat" where
  "hex_value c = (if c \<le> 57 then c - 48 else c - 87)"

lemma hex_value_bound: "lower_hex c \<Longrightarrow> hex_value c < 16 \<and> hex_digit (hex_value c) = c"
  by (auto simp: lower_hex_def hex_value_def hex_digit_def)

lemma to_digit16_lower: "lower_hex c \<Longrightarrow> to_digit16 (of_nat c) = Some (hex_value c)"
  by (auto simp: lower_hex_def to_digit16_def hex_value_def Let_def unat_of_nat take_bit_nat_def)

lemma hex_digit_lower: "d < 16 \<Longrightarrow> lower_hex (hex_digit d) \<and> hex_value (hex_digit d) = d"
  by (cases "d < 10") (simp_all add: lower_hex_def hex_value_def hex_digit_def)

lemma join_nibbles:
  assumes "a < 16" and "b < 16"
  shows "unat (push_bit 4 (of_nat a :: u8) OR of_nat b) = 16 * a + b"
proof -
  have high: "\<not> bit b n" if "4 \<le> n" for n
  proof -
    have "(2 :: nat) ^ 4 \<le> 2 ^ n" using that by (intro power_increasing) simp_all
    then have "b < 2 ^ n" using assms(2) by simp
    then show ?thesis by (simp add: bit_iff_odd)
  qed
  have "push_bit 4 (of_nat a :: u8) AND of_nat b = 0"
    using high by (intro bit_eqI) (auto simp: bit_simps)
  then have "push_bit 4 (of_nat a :: u8) OR of_nat b = push_bit 4 (of_nat a) + of_nat b"
    by (rule disjunctive_add_eq_or [symmetric])
  also have "\<dots> = of_nat (16 * a + b)" by (simp add: push_bit_eq_mult)
  finally show ?thesis using assms u8_of_nat [of "16 * a + b"] by simp
qed

lemma decode_encoded: "decode_pairs (map of_nat (hex_text bs)) = Some bs"
proof (induction bs)
  case (Cons b bs)
  have b: "unat b div 16 < 16" "unat b mod 16 < 16" using unsigned_less [of b, where ?'a = nat] by simp_all
  have "unat (push_bit 4 (of_nat (unat b div 16) :: u8) OR of_nat (unat b mod 16)) = unat b"
    by (simp only: join_nibbles [OF b] mult_div_mod_eq)
  then have "push_bit 4 (of_nat (unat b div 16)) OR of_nat (unat b mod 16) = b" by (rule unsigned_word_eqI)
  with Cons b show ?case
    by (simp add: hex_text_def to_digit16_lower hex_digit_lower)
qed (simp add: hex_text_def)

lemma encode_decoded:
  "list_all lower_hex v \<Longrightarrow> even (length v) \<Longrightarrow> \<exists>bs. decode_pairs (map of_nat v) = Some bs \<and> hex_text bs = v"
proof (induction v rule: induct_list012)
  case (3 h l v)
  then obtain bs where bs: "decode_pairs (map of_nat v) = Some bs" "hex_text bs = v" by auto
  have hl: "hex_value h < 16" "hex_value l < 16" "hex_digit (hex_value h) = h" "hex_digit (hex_value l) = l"
    using 3 hex_value_bound by auto
  let ?b = "push_bit 4 (of_nat (hex_value h)) OR of_nat (hex_value l) :: u8"
  have "unat ?b = 16 * hex_value h + hex_value l" by (rule join_nibbles [OF hl(1,2)])
  then have "unat ?b div 16 = hex_value h" "unat ?b mod 16 = hex_value l" using hl(2) by simp_all
  with 3 bs hl show ?case by (simp add: to_digit16_lower hex_text_def)
qed (simp_all add: hex_text_def)

lemma decode_digest:
  assumes "lowercase_sha256 v f False = Ok ()"
  shows "\<exists>bs. decode_hex v = Some bs \<and> v = hex_text bs"
proof -
  have v: "list_all lower_hex v" "length v = 64" using digest_chars [OF assms] by auto
  then have asc: "is_ascii v" by (auto simp: is_ascii_def list_all_iff lower_hex_def)
  from encode_decoded [OF v(1)] v(2) obtain bs where "decode_pairs (map of_nat v) = Some bs" "hex_text bs = v" by auto
  then show ?thesis using v(2) by (simp add: decode_hex_def ascii_len [OF asc] ascii_bytes [OF asc])
qed

lemma foldl_or_zero: "foldl (\<lambda>d i. d OR f i) a xs = (0 :: nat) \<longleftrightarrow> a = 0 \<and> (\<forall>i \<in> set xs. f i = 0)"
  by (induction xs arbitrary: a) (auto simp: or_eq_0_iff)

lemma xor_nat_zero: "(a :: nat) XOR b = 0 \<longleftrightarrow> a = b"
  by (metis xor_self_eq xor.assoc xor.right_neutral xor.left_neutral)

lemma constant_time_equal_iff: "constant_time_equal a b \<longleftrightarrow> a = b"
proof -
  have "constant_time_equal a b \<longleftrightarrow> length a = length b
      \<and> (\<forall>i < max (length a) (length b). (case get_at a i of Some b \<Rightarrow> b | None \<Rightarrow> 0) = (case get_at b i of Some b \<Rightarrow> b | None \<Rightarrow> 0))"
    unfolding constant_time_equal_def foldl_or_zero by (simp add: xor_nat_zero xor_byte_zero unsigned_eq_0_iff Ball_def)
  also have "\<dots> \<longleftrightarrow> a = b" by (auto simp: get_at_def list_eq_iff_nth_eq)
  finally show ?thesis .
qed

subsection \<open>Authorization\<close>

text \<open>In a validated configuration a digest belongs to one client, a profile identifier to one profile.\<close>

lemma hex_text_inj: "hex_text a = hex_text b \<Longrightarrow> a = b"
  by (metis decode_encoded option.inject)

lemma digest_matches:
  assumes "lowercase_sha256 v f False = Ok ()"
  shows "constant_time_equal supplied (case decode_hex v of Some bs \<Rightarrow> bs | None \<Rightarrow> []) \<longleftrightarrow> v = hex_text supplied"
  using decode_digest [OF assms] by (auto simp: constant_time_equal_iff dest: hex_text_inj)

lemma matched_client_iff:
  "list_all (\<lambda>c. lowercase_sha256 (api_key_sha256 c) [] False = Ok ()) cs \<Longrightarrow> distinct (map api_key_sha256 cs) \<Longrightarrow>
     matched_client supplied cs = Some c \<longleftrightarrow> c \<in> set cs \<and> api_key_sha256 c = hex_text supplied"
proof (induction cs rule: rev_induct)
  case (snoc x cs)
  have "matched_client supplied (cs @ [x]) = (if api_key_sha256 x = hex_text supplied then Some x else matched_client supplied cs)"
    using snoc.prems digest_matches [of "api_key_sha256 x" "[]" supplied] by (simp add: matched_client_def Let_def)
  with snoc show ?case by (auto simp: image_iff)
qed (simp add: matched_client_def)

lemma find_unique: "distinct (map k xs) \<Longrightarrow> List.find (\<lambda>x. k x = v) xs = Some x \<longleftrightarrow> x \<in> set xs \<and> k x = v"
  by (induction xs) (auto simp: image_iff)

lemma find_policy_iff:
  assumes "governance_ok env g"
  shows "find_policy g org i = Some p \<longleftrightarrow> p \<in> set (policies g) \<and> pol_organization p = org \<and> pol_id p = i"
  using find_unique [of "\<lambda>p. (pol_organization p, pol_id p)" "policies g" "(org, i)" p] assms
  by (simp add: find_policy_def governance_ok_def)

lemma find_trust_iff:
  assumes "governance_ok env g"
  shows "find_trust g org i = Some t \<longleftrightarrow> t \<in> set (trust_profiles g) \<and> tru_organization t = org \<and> tru_id t = i"
  using find_unique [of "\<lambda>t. (tru_organization t, tru_id t)" "trust_profiles g" "(org, i)" t] assms
  by (simp add: find_trust_def governance_ok_def)

lemma matched_client_ok:
  assumes "governance_ok env g"
  shows "matched_client supplied (clients g) = Some c \<longleftrightarrow> c \<in> set (clients g) \<and> api_key_sha256 c = hex_text supplied"
  using matched_client_iff [of "clients g"] assms by (auto simp: governance_ok_def client_ok_def list_all_iff)

lemma purpose_entry:
  assumes "governance_ok env g" and "c \<in> set (clients g)" and "map_of (purposes c) purpose = Some a"
  obtains p t where "find_policy g (client_organization c) (auth_policy_id a) = Some p"
    "find_trust g (client_organization c) (auth_trust_profile_id a) = Some t"
    "require_purpose_checks purpose (policy_checks (pol_content p)) = Ok ()"
proof -
  have "purpose_ok g (client_organization c) (purpose, a)"
    using assms map_of_SomeD [OF assms(3)] by (auto simp: governance_ok_def client_ok_def list_all_iff)
  then show ?thesis using that by (auto simp: purpose_ok_def)
qed

lemma supported_purpose: "require_purpose_checks purpose checks = Ok () \<Longrightarrow> \<exists>cs. required_checks purpose = Ok cs"
  by (auto simp: require_purpose_checks_def map_err_eq_Ok)

text \<open>Who is authorized for what, declaratively.\<close>

definition authorized :: "('n, 'x) gov_env_scheme \<Rightarrow> GovernanceDocument \<Rightarrow> ustr \<Rightarrow> ustr \<Rightarrow> GovernanceSnapshot \<Rightarrow> bool" where
  "authorized env g api_key purpose s \<longleftrightarrow> api_key \<noteq> [] \<and> str_len api_key \<le> 4096
     \<and> (\<exists>c a p t. c \<in> set (clients g) \<and> api_key_sha256 c = hex_text (gov_sha256 env (as_bytes api_key))
          \<and> map_of (purposes c) purpose = Some a
          \<and> p \<in> set (policies g) \<and> pol_organization p = client_organization c \<and> pol_id p = auth_policy_id a
          \<and> t \<in> set (trust_profiles g) \<and> tru_organization t = client_organization c \<and> tru_id t = auth_trust_profile_id a
          \<and> s = snapshot g c purpose p t)"

lemma authorized_snapshot:
  assumes "governance_ok env g" and "api_key \<noteq> []" "str_len api_key \<le> 4096"
    and c: "c \<in> set (clients g)" "api_key_sha256 c = hex_text (gov_sha256 env (as_bytes api_key))"
    and a: "map_of (purposes c) purpose = Some a"
    and pt: "find_policy g (client_organization c) (auth_policy_id a) = Some p"
      "find_trust g (client_organization c) (auth_trust_profile_id a) = Some t"
  shows "authorized env g api_key purpose s \<longleftrightarrow> s = snapshot g c purpose p t"
proof
  assume "authorized env g api_key purpose s"
  then obtain d b q r where d: "d \<in> set (clients g)" "api_key_sha256 d = hex_text (gov_sha256 env (as_bytes api_key))"
      "map_of (purposes d) purpose = Some b"
      "q \<in> set (policies g)" "pol_organization q = client_organization d" "pol_id q = auth_policy_id b"
      "r \<in> set (trust_profiles g)" "tru_organization r = client_organization d" "tru_id r = auth_trust_profile_id b"
      "s = snapshot g d purpose q r" unfolding authorized_def by blast
  have "d = c" using d(1,2) c matched_client_ok [OF assms(1)] by (metis option.inject)
  with d(3) a have "b = a" by simp
  with \<open>d = c\<close> d have "find_policy g (client_organization c) (auth_policy_id a) = Some q"
    "find_trust g (client_organization c) (auth_trust_profile_id a) = Some r"
    unfolding find_policy_iff [OF assms(1)] find_trust_iff [OF assms(1)] by auto
  with pt d(10) \<open>d = c\<close> show "s = snapshot g c purpose p t" by simp
next
  assume "s = snapshot g c purpose p t"
  then show "authorized env g api_key purpose s"
    using assms unfolding authorized_def find_policy_iff [OF assms(1)] find_trust_iff [OF assms(1)] by blast
qed

lemma authorize_refused:
  assumes "governance_ok env g" and "api_key = [] \<or> str_len api_key > 4096 \<or> (\<nexists>cs. required_checks purpose = Ok cs)
     \<or> matched_client (gov_sha256 env (as_bytes api_key)) (clients g) = None"
  shows "(\<exists>e. authorize env g api_key purpose = Err e) \<and> \<not> authorized env g api_key purpose s"
proof
  have "required_checks purpose \<noteq> Panic" by (simp add: required_checks_def)
  with assms(2) show "\<exists>e. authorize env g api_key purpose = Err e"
    by (cases "required_checks purpose") (auto simp: authorize_def ensure_def ok_or_def Let_def)
  show "\<not> authorized env g api_key purpose s"
  proof
    assume "authorized env g api_key purpose s"
    then obtain c a where "c \<in> set (clients g)" "api_key_sha256 c = hex_text (gov_sha256 env (as_bytes api_key))"
        "map_of (purposes c) purpose = Some a" "api_key \<noteq> []" "str_len api_key \<le> 4096"
      by (auto simp: authorized_def)
    with assms(2) matched_client_ok [OF assms(1), of "gov_sha256 env (as_bytes api_key)" c] supported_purpose show False
      by (auto elim!: purpose_entry [OF assms(1)])
  qed
qed

lemma authorize_iff:
  assumes "governance_ok env g"
  shows "(authorize env g api_key purpose = Ok s \<longleftrightarrow> authorized env g api_key purpose s) \<and> authorize env g api_key purpose \<noteq> Panic"
proof -
  let ?supplied = "gov_sha256 env (as_bytes api_key)"
  consider (none) "api_key = [] \<or> str_len api_key > 4096 \<or> (\<nexists>cs. required_checks purpose = Ok cs)
        \<or> matched_client ?supplied (clients g) = None"
    | (client) c cs where "api_key \<noteq> []" "str_len api_key \<le> 4096" "required_checks purpose = Ok cs"
        "matched_client ?supplied (clients g) = Some c"
    by (meson not_None_eq not_less)
  then show ?thesis
  proof cases
    case none
    with authorize_refused [OF assms none, of s] show ?thesis by auto
  next
    case client
    then have c: "c \<in> set (clients g)" "api_key_sha256 c = hex_text ?supplied" using matched_client_ok [OF assms] by auto
    show ?thesis
    proof (cases "map_of (purposes c) purpose")
      case None
      with client have "\<exists>e. authorize env g api_key purpose = Err e" by (auto simp: authorize_def ok_or_def Let_def)
      moreover have "\<not> authorized env g api_key purpose s"
        using None c matched_client_ok [OF assms] unfolding authorized_def by (metis option.distinct(1) option.inject)
      ultimately show ?thesis by auto
    next
      case (Some a)
      from purpose_entry [OF assms c(1) Some] obtain p t where
        pt: "find_policy g (client_organization c) (auth_policy_id a) = Some p"
          "find_trust g (client_organization c) (auth_trust_profile_id a) = Some t" by blast
      have "authorize env g api_key purpose = Ok (snapshot g c purpose p t)"
        using client Some pt by (simp add: authorize_def ok_or_def expect_def Let_def del: rbind_eq_Ok)
      with authorized_snapshot [OF assms client(1,2) c Some pt] show ?thesis by auto
    qed
  qed
qed

subsection \<open>Snapshots\<close>

lemma snapshot_simps [simp]:
  "snap_client_id (snapshot g c u p t) = client_id c" "snap_purpose (snapshot g c u p t) = u"
  "snap_organization (snapshot g c u p t) = client_organization c" "snap_component (snapshot g c u p t) = gov_component g"
  "sp_content (snap_policy (snapshot g c u p t)) = pol_content p" "st_content (snap_trust_profile (snapshot g c u p t)) = tru_content t"
  "ref_id (sp_reference (snap_policy (snapshot g c u p t))) = pol_id p"
  "ref_id (st_reference (snap_trust_profile (snapshot g c u p t))) = tru_id t"
  by (simp_all add: snapshot_def)

lemma find_client:
  assumes "governance_ok env g"
  shows "List.find (\<lambda>c. client_id c = i) (clients g) = Some c \<longleftrightarrow> c \<in> set (clients g) \<and> client_id c = i"
  using find_unique [of client_id "clients g" i c] assms by (simp add: governance_ok_def)

text \<open>A snapshot that the configuration still grants.\<close>

definition granted :: "GovernanceDocument \<Rightarrow> GovernanceSnapshot \<Rightarrow> bool" where
  "granted g s \<longleftrightarrow> (\<exists>c a p t. c \<in> set (clients g) \<and> client_id c = snap_client_id s \<and> client_organization c = snap_organization s
     \<and> map_of (purposes c) (snap_purpose s) = Some a
     \<and> p \<in> set (policies g) \<and> pol_organization p = client_organization c \<and> pol_id p = auth_policy_id a
     \<and> t \<in> set (trust_profiles g) \<and> tru_organization t = client_organization c \<and> tru_id t = auth_trust_profile_id a
     \<and> snap_policy s = snap_policy (snapshot g c (snap_purpose s) p t)
     \<and> snap_trust_profile s = snap_trust_profile (snapshot g c (snap_purpose s) p t))"

lemma resume_Ok:
  assumes "governance_ok env g"
  shows "resume g frozen = Ok s \<longleftrightarrow> granted g frozen \<and> s = frozen\<lparr>snap_component := gov_component g\<rparr>"
proof
  assume "resume g frozen = Ok s"
  then obtain c a p t where
    "List.find (\<lambda>c. client_id c = snap_client_id frozen) (clients g) = Some c" "client_organization c = snap_organization frozen"
    "map_of (purposes c) (snap_purpose frozen) = Some a"
    "find_policy g (snap_organization frozen) (auth_policy_id a) = Some p"
    "find_trust g (snap_organization frozen) (auth_trust_profile_id a) = Some t"
    and s: "s = snapshot g c (snap_purpose frozen) p t"
    "snap_policy frozen = snap_policy s" "snap_trust_profile frozen = snap_trust_profile s"
    by (auto simp: resume_def Let_def ok_or_def ensure_eq_Ok split: option.splits if_splits)
  then have f: "c \<in> set (clients g)" "client_id c = snap_client_id frozen" "client_organization c = snap_organization frozen"
    "map_of (purposes c) (snap_purpose frozen) = Some a"
    "p \<in> set (policies g)" "pol_organization p = client_organization c" "pol_id p = auth_policy_id a"
    "t \<in> set (trust_profiles g)" "tru_organization t = client_organization c" "tru_id t = auth_trust_profile_id a"
    unfolding find_client [OF assms] find_policy_iff [OF assms] find_trust_iff [OF assms] by auto
  from s f have "s = frozen\<lparr>snap_component := gov_component g\<rparr>"
    by (cases frozen) (simp add: snapshot_def)
  with f s show "granted g frozen \<and> s = frozen\<lparr>snap_component := gov_component g\<rparr>"
    unfolding granted_def by blast
next
  assume r: "granted g frozen \<and> s = frozen\<lparr>snap_component := gov_component g\<rparr>"
  then obtain c a p t where f: "c \<in> set (clients g)" "client_id c = snap_client_id frozen" "client_organization c = snap_organization frozen"
    "map_of (purposes c) (snap_purpose frozen) = Some a"
    "p \<in> set (policies g)" "pol_organization p = client_organization c" "pol_id p = auth_policy_id a"
    "t \<in> set (trust_profiles g)" "tru_organization t = client_organization c" "tru_id t = auth_trust_profile_id a"
    and e: "snap_policy frozen = snap_policy (snapshot g c (snap_purpose frozen) p t)"
      "snap_trust_profile frozen = snap_trust_profile (snapshot g c (snap_purpose frozen) p t)"
    unfolding granted_def by blast
  have "List.find (\<lambda>c. client_id c = snap_client_id frozen) (clients g) = Some c"
    "find_policy g (snap_organization frozen) (auth_policy_id a) = Some p"
    "find_trust g (snap_organization frozen) (auth_trust_profile_id a) = Some t"
    unfolding find_client [OF assms] find_policy_iff [OF assms] find_trust_iff [OF assms] using f by auto
  with f e have "resume g frozen = Ok (snapshot g c (snap_purpose frozen) p t)"
    by (simp add: resume_def Let_def ok_or_def ensure_def del: rbind_eq_Ok)
  moreover have "snapshot g c (snap_purpose frozen) p t = frozen\<lparr>snap_component := gov_component g\<rparr>"
    using f e by (cases frozen) (simp add: snapshot_def)
  ultimately show "resume g frozen = Ok s" using r by simp
qed

lemma authorized_granted:
  "authorized env g api_key purpose s \<Longrightarrow> granted g s \<and> snap_component s = gov_component g"
  unfolding authorized_def granted_def by force

lemma granted_accepted:
  assumes g: "governance_ok env g" and s: "granted g s" and c: "snap_component s = gov_component g" and v: "de_snapshot env v = Inr s"
  shows "parse_snapshot env v = Ok s"
proof -
  from s obtain cl a p t where f: "cl \<in> set (clients g)" "client_id cl = snap_client_id s" "client_organization cl = snap_organization s"
    "map_of (purposes cl) (snap_purpose s) = Some a"
    "p \<in> set (policies g)" "pol_organization p = client_organization cl" "pol_id p = auth_policy_id a"
    "t \<in> set (trust_profiles g)" "tru_organization t = client_organization cl"
    and e: "snap_policy s = snap_policy (snapshot g cl (snap_purpose s) p t)"
      "snap_trust_profile s = snap_trust_profile (snapshot g cl (snap_purpose s) p t)"
    unfolding granted_def by blast
  have p: "validate_snapshot_policy env (snap_policy s) (snap_organization s) = Ok ()"
    using g f e(1) validate_policy_Ok [of env p "lit ''governance_snapshot.policy''"]
    by (cases p) (auto simp: validate_snapshot_policy_def snapshot_def governance_ok_def list_all_iff)
  have t: "validate_snapshot_trust env (snap_trust_profile s) (snap_organization s) = Ok ()"
    using g f e(2) validate_trust_Ok [of env t "lit ''governance_snapshot.trust_profile''"]
    by (cases t) (auto simp: validate_snapshot_trust_def snapshot_def governance_ok_def list_all_iff)
  have cl: "bounded_text (snap_client_id s) (lit ''governance_snapshot.client_id'') = Ok ()"
    "canonical_uuid env (snap_organization s) (lit ''governance_snapshot.organization_id'') = Ok ()"
    using g f(1-3) by (auto simp: field_free governance_ok_def client_ok_def list_all_iff)
  have co: "validate_component (snap_component s) (lit ''governance_snapshot.component'') = Ok ()"
    using g c by (simp add: validate_component_Ok governance_ok_def)
  have r: "require_purpose_checks (snap_purpose s) (policy_checks (sp_content (snap_policy s))) = Ok ()"
    using purpose_entry [OF g f(1,4)] f(5-7) e(1) find_policy_iff [OF g] by (metis snapshot_simps(5) option.inject)
  from supported_purpose [OF r] obtain cs where "required_checks (snap_purpose s) = Ok cs" by blast
  then show ?thesis using p t cl co r v by (simp add: parse_snapshot_def del: rbind_eq_Ok)
qed

lemma sorted_unique_iff: "is_sorted_unique xs \<longleftrightarrow> sorted_wrt (<) xs"
  by (induction xs rule: is_sorted_unique.induct) (auto dest: less_trans)

lemma required_subset: "require_purpose_checks purpose checks = Ok () \<longleftrightarrow> (\<exists>cs. required_checks purpose = Ok cs \<and> set cs \<subseteq> set checks)"
  by (auto simp: require_purpose_checks_def map_err_eq_Ok Let_def filter_empty_conv split: if_splits)

lemma policy_ok_digest: "policy_ok env p \<Longrightarrow> canonical_digest env (policy_content_value (pol_content p)) = Ok (pol_digest p)"
  by (auto simp: policy_ok_def validate_policy_def ensure_eq_Ok)

lemma trust_ok_content:
  "trust_ok env t \<Longrightarrow> canonical_digest env (trust_content_value (tru_content t)) = Ok (tru_digest t)
     \<and> \<not> allow_public_did_fallback (tru_content t) \<and> trusted_issuers (tru_content t) \<noteq> []
     \<and> sorted_wrt (<) (trusted_issuers (tru_content t))"
  by (auto simp: trust_ok_def validate_trust_def validate_trust_content_def ensure_eq_Ok sorted_unique_iff)

subsection \<open>A configuration to compute with\<close>

definition sample_digest :: ustr where
  "sample_digest = lit ''sha256:'' @ replicate 64 49"

definition sample_governance :: GovernanceDocument where
  "sample_governance =
     \<lparr>gov_component = \<lparr>component_id = lit ''marty-credentials'', component_version = lit ''1'', artifact_digest = sample_digest,
                      adapter_id = lit ''verification-service'', adapter_version = lit ''1''\<rparr>,
      policies = [\<lparr>pol_organization = lit ''org'', pol_id = lit ''policy'', pol_version = lit ''1'', pol_digest = sample_digest,
                   pol_content = \<lparr>verifier_id = lit ''v'', presentation_definition_digest = sample_digest,
                                  policy_checks = VDS_CHECKS\<rparr>\<rparr>],
      trust_profiles = [\<lparr>tru_organization = lit ''org'', tru_id = lit ''trust'', tru_version = lit ''1'', tru_digest = sample_digest,
                         tru_content = \<lparr>trusted_issuers = [lit ''did:a''], allow_public_did_fallback = False\<rparr>\<rparr>],
      clients = [\<lparr>client_id = lit ''client'', api_key_sha256 = replicate 64 49, client_organization = lit ''org'',
                  purposes = [(VDS_NC_VERIFY_PURPOSE, \<lparr>auth_policy_id = lit ''policy'', auth_trust_profile_id = lit ''trust''\<rparr>)]\<rparr>]\<rparr>"

definition sample_snapshot :: GovernanceSnapshot where
  "sample_snapshot = snapshot sample_governance (hd (clients sample_governance)) VDS_NC_VERIFY_PURPOSE
     (hd (policies sample_governance)) (hd (trust_profiles sample_governance))"

definition sample_gov_env :: "nat gov_env" where
  "sample_gov_env =
     \<lparr>scalar_text = scalar_text sample_texts, key_text = key_text sample_texts,
      gov_sha256 = \<lambda>_. replicate 32 0x11, uuid_text = Some, de_value = \<lambda>_. Inr JNull, value_text = \<lambda>_. Inr [],
      de_governance = \<lambda>_. Inr sample_governance, de_snapshot = \<lambda>_. Inr sample_snapshot, snapshot_text = \<lambda>_. Inr [],
      de_authorization_request = \<lambda>_. Inl [], de_resume_request = \<lambda>_. Inl [], de_snapshot_request = \<lambda>_. Inl [],
      de_purpose_request = \<lambda>_. Inl [], de_validate_request = \<lambda>_. Inl []\<rparr>"

lemma sample_governance_parses: "parse_governance sample_gov_env [] = Ok sample_governance"
  by code_simp

lemma sample_authorizes: "authorize sample_gov_env sample_governance (lit ''key'') VDS_NC_VERIFY_PURPOSE = Ok sample_snapshot"
proof -
  have "api_key_sha256 (hd (clients sample_governance)) = hex_text (gov_sha256 sample_gov_env (as_bytes (lit ''key'')))"
    by code_simp
  moreover have "str_len (lit ''key'') \<le> 4096" "lit ''key'' \<noteq> []" by (simp_all add: lit_def str_len_def utf8_len_def)
  ultimately have "authorized sample_gov_env sample_governance (lit ''key'') VDS_NC_VERIFY_PURPOSE sample_snapshot"
    by (simp add: authorized_def sample_snapshot_def sample_governance_def)
  then show ?thesis using authorize_iff [OF parse_governance_ok [OF sample_governance_parses]] by blast
qed

subsection \<open>Properties\<close>

text \<open>
  C21: Against a configuration that parsed, an API key is authorized for a purpose exactly when it is
  non-empty, at most 4096 bytes, its digest is that of a registered client and the client holds
  the purpose; the snapshot then names that client and the policy and trust profile of its own
  organization. The profile look-ups never panic.
\<close>

theorem authorize_exact:
  assumes "parse_governance env raw = Ok g"
  shows "(authorize env g api_key purpose = Ok s \<longleftrightarrow> authorized env g api_key purpose s) \<and> authorize env g api_key purpose \<noteq> Panic"
  by (rule authorize_iff [OF parse_governance_ok [OF assms]])

theorem authorize_exact_witness:
  "authorized sample_gov_env sample_governance (lit ''key'') VDS_NC_VERIFY_PURPOSE sample_snapshot"
  using authorize_exact [OF sample_governance_parses] sample_authorizes by blast

text \<open>
  C22: A snapshot that was issued round-trips: as long as the configuration is the same, its
  persisted form is accepted again and resuming it gives it back unchanged.
\<close>

theorem issued_snapshot_resumes:
  assumes "parse_governance env raw = Ok g" and "authorize env g api_key purpose = Ok s" and "de_snapshot env v = Inr s"
  shows "parse_snapshot env v = Ok s \<and> resume g s = Ok s"
proof -
  note g = parse_governance_ok [OF assms(1)]
  have s: "granted g s" "snap_component s = gov_component g"
    using authorized_granted authorize_iff [OF g] assms(2) by blast+
  have "s = s\<lparr>snap_component := gov_component g\<rparr>" using s(2) by (cases s) simp
  with s granted_accepted [OF g s assms(3)] resume_Ok [OF g] show ?thesis by blast
qed

theorem issued_snapshot_resumes_witness:
  "parse_snapshot sample_gov_env JNull = Ok sample_snapshot \<and> resume sample_governance sample_snapshot = Ok sample_snapshot"
  by (rule issued_snapshot_resumes [OF sample_governance_parses sample_authorizes]) (simp add: sample_gov_env_def)

text \<open>
  C23: Resuming succeeds exactly for snapshots the current configuration still grants, with the
  same client, organization, purpose, policy and trust profile; only the component reference is
  replaced by the current one.
\<close>

theorem resume_exact:
  assumes "parse_governance env raw = Ok g"
  shows "resume g frozen = Ok s \<longleftrightarrow> granted g frozen \<and> s = frozen\<lparr>snap_component := gov_component g\<rparr>"
  by (rule resume_Ok [OF parse_governance_ok [OF assms]])

theorem resume_exact_witness:
  "resume sample_governance sample_snapshot = Ok sample_snapshot \<longleftrightarrow>
     granted sample_governance sample_snapshot \<and> sample_snapshot = sample_snapshot\<lparr>snap_component := gov_component sample_governance\<rparr>"
  by (rule resume_exact [OF sample_governance_parses])

text \<open>
  C24: Every authorized snapshot is well formed: its policy contains all checks its purpose
  requires, both content digests are the canonical digests of the contents, public DID fallback
  is off, and the trusted issuers are non-empty, sorted and distinct.
\<close>

theorem authorized_snapshot_wellformed:
  assumes "parse_governance env raw = Ok g" and "authorize env g api_key purpose = Ok s"
  shows "snap_purpose s = purpose
     \<and> (\<exists>cs. required_checks purpose = Ok cs \<and> set cs \<subseteq> set (policy_checks (sp_content (snap_policy s))))
     \<and> canonical_digest env (policy_content_value (sp_content (snap_policy s))) = Ok (ref_digest (sp_reference (snap_policy s)))
     \<and> canonical_digest env (trust_content_value (st_content (snap_trust_profile s))) = Ok (ref_digest (st_reference (snap_trust_profile s)))
     \<and> \<not> allow_public_did_fallback (st_content (snap_trust_profile s))
     \<and> trusted_issuers (st_content (snap_trust_profile s)) \<noteq> []
     \<and> sorted_wrt (<) (trusted_issuers (st_content (snap_trust_profile s)))"
proof -
  note g = parse_governance_ok [OF assms(1)]
  have "authorized env g api_key purpose s" using authorize_iff [OF g] assms(2) by blast
  then obtain c a p t where f: "c \<in> set (clients g)" "map_of (purposes c) purpose = Some a"
      "p \<in> set (policies g)" "pol_organization p = client_organization c" "pol_id p = auth_policy_id a"
      "t \<in> set (trust_profiles g)" "s = snapshot g c purpose p t"
    unfolding authorized_def by blast
  have "policy_ok env p" "trust_ok env t" using g f(3,6) by (auto simp: governance_ok_def list_all_iff)
  moreover have "require_purpose_checks purpose (policy_checks (pol_content p)) = Ok ()"
    using purpose_entry [OF g f(1,2)] f(3-5) find_policy_iff [OF g] by (metis option.inject)
  ultimately show ?thesis
    using policy_ok_digest trust_ok_content f(7) by (auto simp: required_subset snapshot_def)
qed

theorem authorized_snapshot_wellformed_witness:
  "snap_purpose sample_snapshot = VDS_NC_VERIFY_PURPOSE
     \<and> (\<exists>cs. required_checks VDS_NC_VERIFY_PURPOSE = Ok cs \<and> set cs \<subseteq> set (policy_checks (sp_content (snap_policy sample_snapshot))))
     \<and> \<not> allow_public_did_fallback (st_content (snap_trust_profile sample_snapshot))"
  using authorized_snapshot_wellformed [OF sample_governance_parses sample_authorizes] by blast

text \<open>
  A governed request is accepted exactly when its verifier is the one bound by the snapshot and
  the digest of its presentation definition is the bound digest, and what a purpose requires is
  checked against the snapshot's own purpose.
\<close>

theorem governed_request_exact:
  assumes "de_validate_request env r = Inr (bound_verifier, bound_digest, verifier, v)"
    and "de_purpose_request env q = Inr (snapshot_purpose, checks, purpose)"
  shows "(validate_governance_request_json env r = Ok () \<longleftrightarrow> verifier = bound_verifier \<and> canonical_digest env v = Ok bound_digest)
     \<and> (require_governance_purpose_json env q = Ok () \<longleftrightarrow> snapshot_purpose = purpose
           \<and> (\<exists>cs. required_checks purpose = Ok cs \<and> set cs \<subseteq> set checks))"
  using assms by (auto simp: validate_governance_request_json_def require_governance_purpose_json_def map_err_eq_Ok ensure_eq_Ok required_subset)

theorem governed_request_exact_witness:
  "validate_governance_request_json (sample_gov_env\<lparr>de_validate_request := \<lambda>_. Inr (lit ''v'', sample_digest, lit ''v'', JNull),
       de_purpose_request := \<lambda>_. Inr (VDS_NC_VERIFY_PURPOSE, VDS_CHECKS, VDS_NC_VERIFY_PURPOSE)\<rparr>) [] = Ok ()"
proof -
  let ?env = "sample_gov_env\<lparr>de_validate_request := \<lambda>_. Inr (lit ''v'', sample_digest, lit ''v'', JNull),
       de_purpose_request := \<lambda>_. Inr (VDS_NC_VERIFY_PURPOSE, VDS_CHECKS, VDS_NC_VERIFY_PURPOSE)\<rparr>"
  have "canonical_digest ?env JNull = Ok sample_digest" by code_simp
  then show ?thesis
    using governed_request_exact [of ?env "[]" "lit ''v''" sample_digest "lit ''v''" JNull "[]" VDS_NC_VERIFY_PURPOSE VDS_CHECKS VDS_NC_VERIFY_PURPOSE]
    by simp
qed

end
