(* ===== verification/ServicePolicy.thy ===== *)
theory ServicePolicy
  imports Json Complex_Main "HOL-Library.Product_Lexorder" "HOL-Library.Option_ord"
begin

text \<open>
  Service-level presentation policies (\<open>marty-verification/src/policy/service.rs\<close>): validation of
  a request, evaluation of every credential requirement and claim constraint over the verified
  facts, and the decision. Regular expressions, the calendar, number parsing and serde's texts
  are arguments; the floating point comparisons are modelled.
\<close>

subsection \<open>Limits and facts\<close>

definition MAX_CREDENTIALS :: nat where "MAX_CREDENTIALS = 128"
definition MAX_REQUIREMENTS :: nat where "MAX_REQUIREMENTS = 128"
definition MAX_CLAIMS_PER_REQUIREMENT :: nat where "MAX_CLAIMS_PER_REQUIREMENT = 256"
definition MAX_CLAIMS_PER_CREDENTIAL :: nat where "MAX_CLAIMS_PER_CREDENTIAL = 1024"
definition MAX_STRING_LENGTH :: nat where "MAX_STRING_LENGTH = 4096"
definition MAX_REGEX_LENGTH :: nat where "MAX_REGEX_LENGTH = 4096"
definition MAX_VALUE_BYTES :: nat where "MAX_VALUE_BYTES = 65536"
definition MAX_LIST_ITEMS :: nat where "MAX_LIST_ITEMS = 256"

datatype ServicePolicyError = InvalidRequest ustr

datatype ServiceConstraintType =
    Equals | NotEquals | GreaterThan | LessThan | GreaterOrEqual | LessOrEqual | InSet | NotInSet
  | Presence | Regex | AgeOver

datatype CredentialLifecycleStatus = Active | Revoked | Suspended | LifecycleExpired | Unknown

datatype ServiceEvaluationOutcome = Passed | OutcomeFailed | Partial

datatype ServiceDecision = Allow | Deny | ManualReview

datatype ServicePolicyErrorCode =
    PresentationProofRequired | CredentialMissing | SignatureInvalid | CredentialFormatMismatch
  | TrustProfileNotVerified | IssuerNotAllowed | IssuerTrustLevelInsufficient
  | IssuerComplianceStatusMissing | IssuerAccreditationMissing | CredentialTimestampMissing
  | CredentialTimestampFuture | CredentialStale | ProofTimestampMissing | ProofTimestampFuture
  | ProofStale | RevocationCheckRequired | RevocationEvidenceStale | RevocationStatusUnknown
  | CredentialRevoked | ClaimMissing | ClaimConstraintFailed | AlternativeRequirementFailed
  | HolderBindingRequired | HolderBindingMethodNotAllowed | ProofProfileNotAllowed
  | ChallengeBindingRequired | AudienceBindingRequired | ReplayDetectionRequired
  | ExternalAuthorizationDenied | ExternalAuthorizationNotEvaluated | ConflictingVerifiedClaim
  | SinglePresentationRequired

record 'n ServiceClaimConstraint =
  constraint_claim :: ustr
  constraint_type :: ServiceConstraintType
  constraint_value :: "'n json option"

record 'n ServiceRequestedClaim =
  requested_name :: ustr
  claim_required :: bool
  selective_disclosure :: bool
  accept_derived :: bool
  predicate_spec :: "'n json option"
  claim_constraints :: "'n ServiceClaimConstraint list"

record 'n ServiceCredentialRequirement =
  requirement_id :: ustr
  requirement_template :: ustr
  requirement_required :: bool
  credential_payload_format :: "ustr option"
  requested_claims :: "'n ServiceRequestedClaim list"
  requirement_trust_profile :: "ustr option"
  requirement_max_age :: "nat option"
  require_fresh_issuance :: bool

record 'n ServiceAlternativeRequirement =
  alternative_id :: ustr
  alternative_name :: ustr
  alternative_credentials :: "'n ServiceCredentialRequirement list"
  min_satisfied :: nat

record ServiceHolderBinding =
  binding_required :: bool
  binding_methods :: "ustr list"
  proof_profiles :: "ustr list"
  challenge_required :: bool
  audience_binding_required :: bool
  replay_detection_required :: bool
  max_proof_age_seconds :: "nat option"

record ServiceFreshnessPolicy =
  freshness_max_age :: "nat option"
  require_not_revoked :: bool
  revocation_grace_seconds :: "nat option"

record ServiceIssuerConstraints =
  min_trust_level :: "nat option"
  required_compliance_statuses :: "ustr list"
  required_accreditations :: "ustr list"

record 'n ServicePresentationPolicy =
  policy_id :: ustr
  policy_name :: ustr
  policy_organization :: ustr
  credential_requirements :: "'n ServiceCredentialRequirement list"
  alternative_requirements :: "'n ServiceAlternativeRequirement list"
  policy_trust_profile :: "ustr option"
  holder_binding :: ServiceHolderBinding
  freshness :: "ServiceFreshnessPolicy option"
  issuer_constraints :: "ServiceIssuerConstraints option"
  allowed_issuers :: "ustr list"
  single_presentation :: bool
  presentation_proof_required :: bool

record 'n VerifiedCredentialFacts =
  credential_id :: ustr
  credential_template_ids :: "ustr list"
  credential_format :: ustr
  claims :: "(ustr \<times> 'n json) list"
  issuer_id :: ustr
  signature_verified :: bool
  signature_failure_reason :: "ustr option"
  trust_profile_verified :: bool
  trust_failure_reason :: "ustr option"
  trust_level :: "nat option"
  compliance_statuses :: "ustr list"
  accreditations :: "ustr list"
  issued_at :: "nat option"
  revocation_checked_at :: "nat option"
  not_revoked :: "bool option"
  credential_status :: "CredentialLifecycleStatus option"
  credential_warnings :: "ustr list"

record ExternalAuthorizationFacts =
  ext_evaluated :: bool
  ext_allowed :: bool
  ext_reasons :: "ustr list"
  ext_errors :: "ustr list"

record 'n ServicePolicyEvaluationRequest =
  req_policy :: "'n ServicePresentationPolicy"
  req_credentials :: "'n VerifiedCredentialFacts list"
  evaluation_time :: nat
  presentation_verified :: bool
  holder_binding_verified :: bool
  holder_binding_method :: "ustr option"
  proof_profile :: "ustr option"
  challenge_verified :: bool
  audience_verified :: bool
  replay_check_verified :: bool
  proof_epoch_seconds :: "nat option"
  external_authorization :: "ExternalAuthorizationFacts option"
  presentation_count :: "nat option"

record ServicePolicyViolation =
  v_code :: ServicePolicyErrorCode
  v_requirement :: "ustr option"
  v_credential :: "ustr option"
  v_claim :: "ustr option"
  v_message :: ustr

record 'n ServiceClaimResult =
  result_claim :: ustr
  claim_satisfied :: bool
  presented_value :: "'n json option"
  constraint_results :: "(ServiceConstraintType \<times> bool) list"

record 'n ServiceCredentialResult =
  cr_requirement :: ustr
  cr_template :: ustr
  cr_credential :: "ustr option"
  cr_issuer :: "ustr option"
  cr_satisfied :: bool
  cr_claims :: "'n ServiceClaimResult list"
  cr_errors :: "ServicePolicyViolation list"
  cr_warnings :: "ustr list"

record 'n ServiceAlternativeResult =
  ar_id :: ustr
  ar_name :: ustr
  ar_satisfied :: bool
  ar_min_satisfied :: nat
  ar_satisfied_count :: nat
  ar_credentials :: "'n ServiceCredentialResult list"

record 'n ServicePolicyEvaluationResult =
  outcome_result :: ServiceEvaluationOutcome
  decision :: ServiceDecision
  decision_reason :: ustr
  result_policy_id :: ustr
  result_policy_name :: ustr
  credential_results :: "'n ServiceCredentialResult list"
  alternative_results :: "'n ServiceAlternativeResult list"
  total_requirements :: nat
  satisfied_requirements :: nat
  required_satisfied :: nat
  required_total :: nat
  verified_claims :: "ustr \<rightharpoonup> 'n json"
  result_errors :: "ServicePolicyViolation list"
  result_warnings :: "ustr list"
  result_time :: nat

subsection \<open>Numbers and texts\<close>

text \<open>\<open>f64\<close>: the finite values are rationals; comparisons with a NaN are false.\<close>

datatype f64 = NaN | PosInf | NegInf | Finite rat

fun f64_less :: "f64 \<Rightarrow> f64 \<Rightarrow> bool" where
  "f64_less (Finite a) (Finite b) \<longleftrightarrow> a < b"
| "f64_less NegInf (Finite _) \<longleftrightarrow> True"
| "f64_less NegInf PosInf \<longleftrightarrow> True"
| "f64_less (Finite _) PosInf \<longleftrightarrow> True"
| "f64_less _ _ \<longleftrightarrow> False"

definition f64_le :: "f64 \<Rightarrow> f64 \<Rightarrow> bool" where
  "f64_le a b \<longleftrightarrow> f64_less a b \<or> (a = b \<and> a \<noteq> NaN)"

fun is_finite :: "f64 \<Rightarrow> bool" where
  "is_finite (Finite _) \<longleftrightarrow> True"
| "is_finite _ \<longleftrightarrow> False"

text \<open>\<open>as i32\<close> truncates towards zero and saturates; NaN becomes zero.\<close>

fun f64_to_i32 :: "f64 \<Rightarrow> int" where
  "f64_to_i32 NaN = 0"
| "f64_to_i32 PosInf = 2147483647"
| "f64_to_i32 NegInf = - 2147483648"
| "f64_to_i32 (Finite q) = max (- 2147483648) (min 2147483647 (if q \<ge> 0 then \<lfloor>q\<rfloor> else \<lceil>q\<rceil>))"

definition as_i64 :: "nat \<Rightarrow> int" where
  "as_i64 n = (if n < 2 ^ 63 then int n else int n - 2 ^ 64)"

type_synonym date = "int \<times> nat \<times> nat"

record 'n policy_env =
  number_f64 :: "'n \<Rightarrow> f64 option"
  parse_f64 :: "ustr \<Rightarrow> f64 option"
  number_text :: "'n \<Rightarrow> ustr"
  compound_text :: "'n json \<Rightarrow> ustr option"
  value_vec_len :: "'n json \<Rightarrow> ustr + nat"
  regex_is_match :: "ustr \<Rightarrow> ustr \<Rightarrow> bool"
  timestamp_date :: "int \<Rightarrow> date option"
  parse_date :: "ustr \<Rightarrow> date option"

definition value_number :: "('n, 'x) policy_env_scheme \<Rightarrow> 'n json \<Rightarrow> f64 option" where
  "value_number env v =
     (case (case v of JNumber n \<Rightarrow> number_f64 env n | _ \<Rightarrow> None) of
        Some f \<Rightarrow> Some f
      | None \<Rightarrow> (case v of JString t \<Rightarrow> parse_f64 env t | _ \<Rightarrow> None))"

definition value_text :: "('n, 'x) policy_env_scheme \<Rightarrow> 'n json \<Rightarrow> ustr option" where
  "value_text env v =
     (case v of
        JNull \<Rightarrow> None
      | JString t \<Rightarrow> Some t
      | JBool b \<Rightarrow> Some (lit (if b then ''True'' else ''False''))
      | JNumber n \<Rightarrow> Some (number_text env n)
      | _ \<Rightarrow> compound_text env v)"

definition and_then :: "'a option \<Rightarrow> ('a \<Rightarrow> 'b option) \<Rightarrow> 'b option" where
  "and_then x f = (case x of Some v \<Rightarrow> f v | None \<Rightarrow> None)"

definition compare_text :: "('n, 'x) policy_env_scheme \<Rightarrow> 'n json option \<Rightarrow> 'n json option \<Rightarrow> (ustr \<Rightarrow> ustr \<Rightarrow> bool) \<Rightarrow> bool" where
  "compare_text env actual expected p \<longleftrightarrow>
     (case (and_then actual (value_text env), and_then expected (value_text env)) of
        (Some l, Some r) \<Rightarrow> p l r | _ \<Rightarrow> False)"

definition compare_number :: "('n, 'x) policy_env_scheme \<Rightarrow> 'n json option \<Rightarrow> 'n json option \<Rightarrow> (f64 \<Rightarrow> f64 \<Rightarrow> bool) \<Rightarrow> bool" where
  "compare_number env actual expected p \<longleftrightarrow>
     (case (and_then actual (value_number env), and_then expected (value_number env)) of
        (Some l, Some r) \<Rightarrow> is_finite l \<and> is_finite r \<and> p l r | _ \<Rightarrow> False)"

definition ascii_lower :: "nat \<Rightarrow> nat" where
  "ascii_lower c = (if is_ascii_uppercase c then c + 32 else c)"

definition canonical_credential_format :: "ustr \<Rightarrow> ustr" where
  "canonical_credential_format v =
     (let normalized = replace_char 95 45 (map ascii_lower (trim v)) in
      if normalized = [] then lit ''UNKNOWN''
      else if normalized \<in> set (map lit [''w3c-vcdm-di'', ''w3c-vcdm-v2-di'', ''data-integrity'', ''json-ld'', ''ldp-vc''])
        then lit ''W3C_VCDM_V2_DI''
      else if normalized \<in> set (map lit [''sd-jwt'', ''sd-jwt-vc'', ''dc+sd-jwt'', ''vc+sd-jwt'', ''spruce-vc+sd-jwt'',
          ''ietf-sd-jwt'', ''w3c-vcdm-v2-sd-jwt''])
        then lit ''SD_JWT_VC''
      else if normalized \<in> set (map lit [''w3c-vc'', ''w3c-vcdm-v2-jwt-vc'', ''jwt-vc'', ''vc-jwt'', ''jwt-vc-json'']) then lit ''VC_JWT''
      else if normalized \<in> set (map lit [''mdoc'', ''mso-mdoc'']) then lit ''MDOC''
      else if normalized \<in> set (map lit [''openbadge-v3'', ''open-badge-v3'', ''openbadge3'']) then lit ''OPENBADGE_V3''
      else if normalized \<in> set (map lit [''openbadge-v2'', ''open-badge-v2'', ''openbadge2'']) then lit ''OPENBADGE_V2''
      else replace_char 45 95 (map ascii_upper normalized))"

subsection \<open>Claim constraints\<close>

definition age_at :: "date \<Rightarrow> date \<Rightarrow> int" where
  "age_at now birth =
     (let age = fst now - fst birth in if snd now < snd birth then age - 1 else age)"

definition evaluate_constraint :: "('n, 'x) policy_env_scheme \<Rightarrow> 'n ServiceClaimConstraint \<Rightarrow> 'n json option \<Rightarrow> nat \<Rightarrow> bool" where
  "evaluate_constraint env c actual now =
     (let expected = constraint_value c in
      case constraint_type c of
        Presence \<Rightarrow> (case actual of None \<Rightarrow> False | Some v \<Rightarrow> v \<noteq> JNull)
      | Equals \<Rightarrow> compare_text env actual expected (\<lambda>l r. l = r)
      | NotEquals \<Rightarrow> compare_text env actual expected (\<lambda>l r. l \<noteq> r)
      | GreaterThan \<Rightarrow> compare_number env actual expected (\<lambda>l r. f64_less r l)
      | LessThan \<Rightarrow> compare_number env actual expected (\<lambda>l r. f64_less l r)
      | GreaterOrEqual \<Rightarrow> compare_number env actual expected (\<lambda>l r. f64_le r l)
      | LessOrEqual \<Rightarrow> compare_number env actual expected (\<lambda>l r. f64_le l r)
      | Regex \<Rightarrow>
          (case (and_then actual (value_text env), and_then expected (value_text env)) of
             (Some a, Some pattern) \<Rightarrow>
               if str_len pattern > MAX_REGEX_LENGTH then False
               else regex_is_match env (lit (CHR 0x5C # ''A(?:'') @ pattern @ lit (CHR '')'' # CHR 0x5C # ''z'')) a
           | _ \<Rightarrow> False)
      | AgeOver \<Rightarrow>
          (case and_then actual (value_text env) of None \<Rightarrow> False
           | Some date_text \<Rightarrow>
               (case map_option f64_to_i32 (and_then expected (value_number env)) of None \<Rightarrow> False
                | Some required_age \<Rightarrow>
                    (case timestamp_date env (as_i64 now) of None \<Rightarrow> False
                     | Some evaluation_date \<Rightarrow>
                         (case parse_date env (case split_at_byte date_text 10 of Some (p, _) \<Rightarrow> p | None \<Rightarrow> date_text) of
                            None \<Rightarrow> False
                          | Some birth_date \<Rightarrow>
                              if evaluation_date < birth_date then False
                              else age_at evaluation_date birth_date \<ge> required_age))))
      | _ \<Rightarrow>
          (case and_then actual (value_text env) of None \<Rightarrow> False
           | Some actual_text \<Rightarrow>
               let values = (case expected of Some (JArray vs) \<Rightarrow> vs | Some v \<Rightarrow> [v] | None \<Rightarrow> []);
                   contained = list_ex (\<lambda>v. v = actual_text) (List.map_filter (value_text env) values)
               in if constraint_type c = InSet then contained else \<not> contained))"

subsection \<open>One credential against one requirement\<close>

definition violation ::
    "ServicePolicyErrorCode \<Rightarrow> 'n ServiceCredentialRequirement \<Rightarrow> 'n VerifiedCredentialFacts option \<Rightarrow> ustr option \<Rightarrow> ustr
       \<Rightarrow> ServicePolicyViolation" where
  "violation code r credential claim message =
     \<lparr>v_code = code, v_requirement = Some (requirement_id r), v_credential = map_option credential_id credential,
      v_claim = claim, v_message = message\<rparr>"

definition global_violation :: "ServicePolicyErrorCode \<Rightarrow> ustr \<Rightarrow> ServicePolicyViolation" where
  "global_violation code message =
     \<lparr>v_code = code, v_requirement = None, v_credential = None, v_claim = None, v_message = message\<rparr>"

definition only_if :: "bool \<Rightarrow> 'a \<Rightarrow> 'a list" where
  "only_if b x = (if b then [x] else [])"

definition apply_issuer_constraints ::
    "'n ServiceCredentialRequirement \<Rightarrow> 'n ServicePresentationPolicy \<Rightarrow> 'n VerifiedCredentialFacts \<Rightarrow> ServicePolicyViolation list" where
  "apply_issuer_constraints r p c =
     (case issuer_constraints p of None \<Rightarrow> []
      | Some k \<Rightarrow>
          (case min_trust_level k of None \<Rightarrow> []
           | Some minimum \<Rightarrow>
               only_if (case trust_level c of None \<Rightarrow> True | Some actual \<Rightarrow> actual < minimum)
                 (violation IssuerTrustLevelInsufficient r (Some c) None (lit ''Issuer trust level is below the policy minimum'')))
          @ map (\<lambda>required. violation IssuerComplianceStatusMissing r (Some c) None
                   (lit ''Issuer compliance status is missing: '' @ required))
              (filter (\<lambda>required. required \<notin> set (compliance_statuses c)) (required_compliance_statuses k))
          @ map (\<lambda>required. violation IssuerAccreditationMissing r (Some c) None
                   (lit ''Issuer accreditation is missing: '' @ required))
              (filter (\<lambda>required. required \<notin> set (accreditations c)) (required_accreditations k)))"

definition effective_max_age :: "'n ServiceCredentialRequirement \<Rightarrow> 'n ServicePresentationPolicy \<Rightarrow> nat option" where
  "effective_max_age r p =
     (case (requirement_max_age r, and_then (freshness p) freshness_max_age) of
        (Some a, Some b) \<Rightarrow> Some (min a b)
      | (Some a, None) \<Rightarrow> Some a
      | (None, b) \<Rightarrow> b)"

definition check_issuance ::
    "'n ServiceCredentialRequirement \<Rightarrow> 'n ServicePresentationPolicy \<Rightarrow> 'n VerifiedCredentialFacts \<Rightarrow> nat \<Rightarrow> ServicePolicyViolation list" where
  "check_issuance r p c now =
     (let max_age = effective_max_age r p;
          future = violation CredentialTimestampFuture r (Some c) None (lit ''Credential issuance time is after evaluation time'') in
      if max_age \<noteq> None \<or> require_fresh_issuance r then
        (case issued_at c of
           None \<Rightarrow> [violation CredentialTimestampMissing r (Some c) None
                      (lit ''Credential issuance-time evidence is unavailable or invalid'')]
         | Some issued \<Rightarrow>
             if issued > now then [future]
             else (case max_age of
                     Some maximum \<Rightarrow>
                       only_if (now - issued > maximum)
                         (violation CredentialStale r (Some c) None
                            (lit ''Credential exceeds maximum age of '' @ dec_text maximum @ lit '' seconds''))
                   | None \<Rightarrow> []))
      else only_if (case issued_at c of None \<Rightarrow> False | Some issued \<Rightarrow> issued > now) future)"

definition check_revocation ::
    "'n ServiceCredentialRequirement \<Rightarrow> 'n ServicePresentationPolicy \<Rightarrow> 'n VerifiedCredentialFacts \<Rightarrow> nat \<Rightarrow> ServicePolicyViolation list" where
  "check_revocation r p c now =
     (let fail = (\<lambda>code message. [violation code r (Some c) None message]) in
      if not_revoked c = Some False then
        fail CredentialRevoked
          (case credential_status c of
             Some Suspended \<Rightarrow> lit ''Credential is suspended''
           | Some LifecycleExpired \<Rightarrow> lit ''Credential is expired''
           | _ \<Rightarrow> lit ''Credential is revoked'')
      else (case freshness p of None \<Rightarrow> []
        | Some f \<Rightarrow>
            if \<not> require_not_revoked f then []
            else (case revocation_checked_at c of
                    None \<Rightarrow> fail RevocationCheckRequired (lit ''Revocation status was not checked'')
                  | Some checked \<Rightarrow>
                      if checked > now then fail RevocationEvidenceStale (lit ''Revocation check time is after evaluation time'')
                      else if (case revocation_grace_seconds f of None \<Rightarrow> False | Some grace \<Rightarrow> now - checked > grace)
                        then fail RevocationEvidenceStale (lit ''Revocation evidence is older than the policy permits'')
                      else if not_revoked c = None then fail RevocationStatusUnknown (lit ''Revocation status is unknown'')
                      else [])))"

definition apply_freshness ::
    "'n ServiceCredentialRequirement \<Rightarrow> 'n ServicePresentationPolicy \<Rightarrow> 'n VerifiedCredentialFacts \<Rightarrow> nat \<Rightarrow> ServicePolicyViolation list" where
  "apply_freshness r p c now = check_issuance r p c now @ check_revocation r p c now"

definition evaluate_claim ::
    "('n, 'x) policy_env_scheme \<Rightarrow> 'n ServiceCredentialRequirement \<Rightarrow> 'n VerifiedCredentialFacts \<Rightarrow> nat \<Rightarrow> 'n ServiceRequestedClaim
       \<Rightarrow> 'n ServiceClaimResult \<times> ServicePolicyViolation list" where
  "evaluate_claim env r c now q =
     (let actual = map_of (claims c) (requested_name q);
          results = map (\<lambda>k. (constraint_type k, evaluate_constraint env k actual now)) (claim_constraints q);
          failed = filter (\<lambda>x. \<not> snd x) results in
      (\<lparr>result_claim = requested_name q,
        claim_satisfied = ((actual \<noteq> None \<or> \<not> claim_required q) \<and> failed = []),
        presented_value = actual, constraint_results = results\<rparr>,
       map (\<lambda>_. violation ClaimConstraintFailed r (Some c) (Some (requested_name q)) (lit ''Claim constraint was not satisfied'')) failed
       @ only_if (claim_required q \<and> actual = None)
           (violation ClaimMissing r (Some c) (Some (requested_name q)) (lit ''Required claim is missing''))))"

definition evaluate_candidate ::
    "('n, 'x) policy_env_scheme \<Rightarrow> 'n ServiceCredentialRequirement \<Rightarrow> 'n ServicePresentationPolicy \<Rightarrow> 'n VerifiedCredentialFacts \<Rightarrow> nat
       \<Rightarrow> 'n ServiceCredentialResult" where
  "evaluate_candidate env r p c now =
     (let claims_evaluated = map (evaluate_claim env r c now) (requested_claims r);
          errors =
            only_if (\<not> signature_verified c)
              (violation SignatureInvalid r (Some c) None
                 (case signature_failure_reason c of
                    Some reason \<Rightarrow> lit ''Credential signature was not verified: '' @ reason
                  | None \<Rightarrow> lit ''Credential signature was not verified''))
            @ (case credential_payload_format r of None \<Rightarrow> []
               | Some f \<Rightarrow>
                   only_if (canonical_credential_format f \<noteq> canonical_credential_format (credential_format c))
                     (violation CredentialFormatMismatch r (Some c) None (lit ''Credential format does not match the requirement'')))
            @ only_if ((requirement_trust_profile r \<noteq> None \<or> policy_trust_profile p \<noteq> None) \<and> \<not> trust_profile_verified c)
                (violation TrustProfileNotVerified r (Some c) None
                   (case trust_failure_reason c of
                      Some reason \<Rightarrow> lit ''Issuer trust verification failed: '' @ reason
                    | None \<Rightarrow> lit ''Issuer was not verified against the required trust profile''))
            @ only_if (allowed_issuers p \<noteq> [] \<and> \<not> list_ex (\<lambda>issuer. issuer = issuer_id c) (allowed_issuers p))
                (violation IssuerNotAllowed r (Some c) None
                   (lit ''Issuer '' @ [39] @ issuer_id c @ [39] @ lit '' is not in the policy allowlist''))
            @ apply_issuer_constraints r p c
            @ apply_freshness r p c now
            @ concat (map snd claims_evaluated) in
      \<lparr>cr_requirement = requirement_id r, cr_template = requirement_template r, cr_credential = Some (credential_id c),
       cr_issuer = Some (issuer_id c), cr_satisfied = (errors = []), cr_claims = map fst claims_evaluated,
       cr_errors = errors, cr_warnings = credential_warnings c\<rparr>)"

definition matches_template :: "'n ServiceCredentialRequirement \<Rightarrow> 'n VerifiedCredentialFacts \<Rightarrow> bool" where
  "matches_template r c \<longleftrightarrow> requirement_template r = [] \<or> requirement_template r \<in> set (credential_template_ids c)"

text \<open>
  Candidates are ordered satisfied first, then by the number of errors, then by identifier; the
  sort is stable and the first one is taken.
\<close>

definition evaluate_requirement ::
    "('n, 'x) policy_env_scheme \<Rightarrow> 'n ServiceCredentialRequirement \<Rightarrow> 'n ServicePresentationPolicy \<Rightarrow> 'n VerifiedCredentialFacts list \<Rightarrow> nat
       \<Rightarrow> 'n ServiceCredentialResult" where
  "evaluate_requirement env r p cs now =
     (let candidates = filter (matches_template r) cs in
      if candidates = [] then
        \<lparr>cr_requirement = requirement_id r, cr_template = requirement_template r, cr_credential = None, cr_issuer = None,
         cr_satisfied = False, cr_claims = [],
         cr_errors = [violation CredentialMissing r None None (lit ''No credential matched the requirement'')], cr_warnings = []\<rparr>
      else hd (sort_key (\<lambda>x. (\<not> cr_satisfied x, length (cr_errors x), cr_credential x))
                 (map (\<lambda>c. evaluate_candidate env r p c now) candidates)))"

subsection \<open>Collecting verified claims\<close>

text \<open>Values are equal when they agree up to the order of object entries.\<close>

definition collect_claim ::
    "'n ServiceCredentialResult \<Rightarrow> 'n ServiceClaimResult \<Rightarrow> (ustr \<rightharpoonup> 'n json) \<times> ServicePolicyViolation list
       \<Rightarrow> (ustr \<rightharpoonup> 'n json) \<times> ServicePolicyViolation list" where
  "collect_claim x k st =
     (case presented_value k of
        None \<Rightarrow> st
      | Some v \<Rightarrow>
          if \<not> claim_satisfied k then st
          else if (case fst st (result_claim k) of None \<Rightarrow> False | Some existing \<Rightarrow> normal existing \<noteq> normal v) then
            (fst st, snd st @ [\<lparr>v_code = ConflictingVerifiedClaim, v_requirement = None, v_credential = cr_credential x,
                               v_claim = Some (result_claim k),
                               v_message = lit ''Verified credentials contain conflicting values for '' @ result_claim k\<rparr>])
          else ((fst st)(result_claim k \<mapsto> v), snd st))"

definition collect_verified_claims ::
    "'n ServiceCredentialResult \<Rightarrow> (ustr \<rightharpoonup> 'n json) \<times> ServicePolicyViolation list \<Rightarrow> (ustr \<rightharpoonup> 'n json) \<times> ServicePolicyViolation list" where
  "collect_verified_claims x st = (if \<not> cr_satisfied x then st else fold (collect_claim x) (cr_claims x) st)"

subsection \<open>Validation of a request\<close>

text \<open>A \<open>for\<close> loop whose body may return early with an error.\<close>

primrec for_each :: "('a \<Rightarrow> (unit, 'e) result) \<Rightarrow> 'a list \<Rightarrow> (unit, 'e) result" where
  "for_each f [] = Ok ()"
| "for_each f (x # xs) = rbind (f x) (\<lambda>_. for_each f xs)"

definition invalid :: "ustr \<Rightarrow> ServicePolicyError" where
  "invalid message = InvalidRequest message"

definition validate_string :: "ustr \<Rightarrow> ustr \<Rightarrow> (unit, ServicePolicyError) result" where
  "validate_string field v =
     ensure (\<not> (v = [] \<or> str_len v > MAX_STRING_LENGTH)) (invalid (field @ lit '' must be non-empty and bounded''))"

definition validate_optional_string :: "ustr \<Rightarrow> ustr option \<Rightarrow> (unit, ServicePolicyError) result" where
  "validate_optional_string field v = (case v of Some v \<Rightarrow> validate_string field v | None \<Rightarrow> Ok ())"

definition validate_bounded_strings :: "ustr \<Rightarrow> ustr list \<Rightarrow> (unit, ServicePolicyError) result" where
  "validate_bounded_strings field vs =
     rbind (ensure (\<not> length vs > MAX_LIST_ITEMS) (invalid (field @ lit '' has too many values''))) (\<lambda>_.
     for_each (validate_string field) vs)"

definition validate_value :: "('n, 'x) policy_env_scheme \<Rightarrow> ustr \<Rightarrow> 'n json \<Rightarrow> (unit, ServicePolicyError) result" where
  "validate_value env field v =
     rbind (lift_err InvalidRequest (value_vec_len env v)) (\<lambda>len.
     ensure (\<not> len > MAX_VALUE_BYTES) (invalid (field @ lit '' is too large'')))"

definition validate_credential :: "('n, 'x) policy_env_scheme \<Rightarrow> 'n VerifiedCredentialFacts \<Rightarrow> (unit, ServicePolicyError) result" where
  "validate_credential env c =
     rbind (validate_string (lit ''credential_id'') (credential_id c)) (\<lambda>_.
     rbind (validate_string (lit ''issuer_id'') (issuer_id c)) (\<lambda>_.
     rbind (validate_string (lit ''credential_format'') (credential_format c)) (\<lambda>_.
     rbind (validate_optional_string (lit ''signature_failure_reason'') (signature_failure_reason c)) (\<lambda>_.
     rbind (validate_optional_string (lit ''trust_failure_reason'') (trust_failure_reason c)) (\<lambda>_.
     rbind (validate_bounded_strings (lit ''credential_template_ids'') (credential_template_ids c)) (\<lambda>_.
     rbind (validate_bounded_strings (lit ''compliance_statuses'') (compliance_statuses c)) (\<lambda>_.
     rbind (validate_bounded_strings (lit ''accreditations'') (accreditations c)) (\<lambda>_.
     rbind (validate_bounded_strings (lit ''credential warnings'') (credential_warnings c)) (\<lambda>_.
     rbind (ensure (\<not> length (claims c) > MAX_CLAIMS_PER_CREDENTIAL) (invalid (lit ''credential has too many claims''))) (\<lambda>_.
     for_each (\<lambda>(claim_name, v).
         rbind (validate_string (lit ''claim_name'') claim_name) (\<lambda>_. validate_value env (lit ''claim value'') v)) (claims c)))))))))))"

definition validate_constraint ::
    "('n, 'x) policy_env_scheme \<Rightarrow> ustr \<Rightarrow> 'n ServiceClaimConstraint \<Rightarrow> (unit, ServicePolicyError) result" where
  "validate_constraint env claim_name k =
     rbind (ensure (\<not> constraint_claim k \<noteq> claim_name) (invalid (lit ''constraint claim_name does not match requested claim''))) (\<lambda>_.
     rbind (if constraint_type k = Regex then
              (let pattern_length = (case constraint_value k of Some (JString t) \<Rightarrow> str_len t | _ \<Rightarrow> usize_max) in
               ensure (\<not> pattern_length > MAX_REGEX_LENGTH) (invalid (lit ''regex constraint is missing or too large'')))
            else Ok ()) (\<lambda>_.
     rbind (ensure (\<not> (constraint_type k \<noteq> Presence \<and> constraint_value k = None))
              (invalid (lit ''non-presence constraint is missing its comparison value''))) (\<lambda>_.
     (case constraint_value k of Some v \<Rightarrow> validate_value env (lit ''constraint value'') v | None \<Rightarrow> Ok ()))))"

definition validate_requirement ::
    "('n, 'x) policy_env_scheme \<Rightarrow> 'n ServiceCredentialRequirement \<Rightarrow> (unit, ServicePolicyError) result" where
  "validate_requirement env r =
     rbind (validate_string (lit ''requirement.id'') (requirement_id r)) (\<lambda>_.
     rbind (if requirement_template r \<noteq> [] then validate_string (lit ''requirement.credential_template_id'') (requirement_template r)
            else Ok ()) (\<lambda>_.
     rbind (validate_optional_string (lit ''requirement.credential_payload_format'') (credential_payload_format r)) (\<lambda>_.
     rbind (validate_optional_string (lit ''requirement.trust_profile_id'') (requirement_trust_profile r)) (\<lambda>_.
     rbind (ensure (\<not> length (requested_claims r) > MAX_CLAIMS_PER_REQUIREMENT)
              (invalid (lit ''requirement has too many requested claims''))) (\<lambda>_.
     for_each (\<lambda>q.
         rbind (validate_string (lit ''claim_name'') (requested_name q)) (\<lambda>_.
         rbind (case predicate_spec q of Some v \<Rightarrow> validate_value env (lit ''predicate_spec'') v | None \<Rightarrow> Ok ()) (\<lambda>_.
         for_each (validate_constraint env (requested_name q)) (claim_constraints q)))) (requested_claims r))))))"

definition validate_alternative :: "'n ServiceAlternativeRequirement \<Rightarrow> (unit, ServicePolicyError) result" where
  "validate_alternative a =
     rbind (validate_string (lit ''alternative.id'') (alternative_id a)) (\<lambda>_.
     rbind (validate_string (lit ''alternative.name'') (alternative_name a)) (\<lambda>_.
     ensure (\<not> (min_satisfied a = 0 \<or> min_satisfied a > length (alternative_credentials a)))
       (invalid (lit ''alternative min_satisfied is outside its credential range''))))"

definition validate_request :: "('n, 'x) policy_env_scheme \<Rightarrow> 'n ServicePolicyEvaluationRequest \<Rightarrow> (unit, ServicePolicyError) result" where
  "validate_request env q =
     (let p = req_policy q; hb = holder_binding p in
      rbind (ensure (\<not> evaluation_time q > 2 ^ 63 - 1) (invalid (lit ''evaluation time is outside the supported timestamp range''))) (\<lambda>_.
      rbind (validate_string (lit ''policy.id'') (policy_id p)) (\<lambda>_.
      rbind (validate_string (lit ''policy.name'') (policy_name p)) (\<lambda>_.
      rbind (validate_string (lit ''policy.organization_id'') (policy_organization p)) (\<lambda>_.
      rbind (validate_optional_string (lit ''policy.trust_profile_id'') (policy_trust_profile p)) (\<lambda>_.
      rbind (validate_bounded_strings (lit ''holder_binding.binding_methods'') (binding_methods hb)) (\<lambda>_.
      rbind (validate_bounded_strings (lit ''holder_binding.proof_profiles'') (proof_profiles hb)) (\<lambda>_.
      rbind (validate_optional_string (lit ''holder_binding_method'') (holder_binding_method q)) (\<lambda>_.
      rbind (validate_optional_string (lit ''proof_profile'') (proof_profile q)) (\<lambda>_.
      rbind (validate_bounded_strings (lit ''policy.allowed_issuers'') (allowed_issuers p)) (\<lambda>_.
      rbind (ensure (\<not> length (req_credentials q) > MAX_CREDENTIALS) (invalid (lit ''too many credentials''))) (\<lambda>_.
      rbind (ensure (\<not> (case presentation_count q of None \<Rightarrow> False | Some n \<Rightarrow> n > MAX_CREDENTIALS))
               (invalid (lit ''presentation count exceeds the supported limit''))) (\<lambda>_.
      rbind (ensure (\<not> length (credential_requirements p)
                   + sum_list (map (\<lambda>a. length (alternative_credentials a)) (alternative_requirements p)) > MAX_REQUIREMENTS)
               (invalid (lit ''too many credential requirements''))) (\<lambda>_.
      rbind (ensure (\<not> (length (filter requirement_required (credential_requirements p)) + length (alternative_requirements p) = 0
                     \<and> \<not> presentation_proof_required p))
               (invalid (lit ''policy has no required credential or presentation obligations''))) (\<lambda>_.
      rbind (for_each (validate_credential env) (req_credentials q)) (\<lambda>_.
      rbind (for_each (validate_requirement env)
               (credential_requirements p @ concat (map alternative_credentials (alternative_requirements p)))) (\<lambda>_.
      rbind (for_each validate_alternative (alternative_requirements p)) (\<lambda>_.
      rbind (case issuer_constraints p of None \<Rightarrow> Ok ()
             | Some k \<Rightarrow>
                 rbind (validate_bounded_strings (lit ''required_compliance_statuses'') (required_compliance_statuses k)) (\<lambda>_.
                 validate_bounded_strings (lit ''required_accreditations'') (required_accreditations k))) (\<lambda>_.
      (case external_authorization q of None \<Rightarrow> Ok ()
       | Some e \<Rightarrow> for_each (validate_string (lit ''external authorization message'')) (ext_reasons e @ ext_errors e)))))))))))))))))))))"

subsection \<open>The decision\<close>

fun join_messages :: "ustr list \<Rightarrow> ustr" where
  "join_messages [] = []"
| "join_messages [x] = x"
| "join_messages (x # y # zs) = x @ lit ''; '' @ join_messages (y # zs)"

definition evaluate_alternative ::
    "('n, 'x) policy_env_scheme \<Rightarrow> 'n ServicePresentationPolicy \<Rightarrow> 'n VerifiedCredentialFacts list \<Rightarrow> nat \<Rightarrow> 'n ServiceAlternativeRequirement
       \<Rightarrow> 'n ServiceAlternativeResult" where
  "evaluate_alternative env p cs now a =
     (let results = map (\<lambda>r. evaluate_requirement env r p cs now) (alternative_credentials a);
          satisfied_count = length (filter cr_satisfied results) in
      \<lparr>ar_id = alternative_id a, ar_name = alternative_name a, ar_satisfied = (satisfied_count \<ge> min_satisfied a),
       ar_min_satisfied = min_satisfied a, ar_satisfied_count = satisfied_count, ar_credentials = results\<rparr>)"

definition collect_alternative ::
    "'n ServiceAlternativeResult \<Rightarrow> (ustr \<rightharpoonup> 'n json) \<times> ServicePolicyViolation list \<Rightarrow> (ustr \<rightharpoonup> 'n json) \<times> ServicePolicyViolation list" where
  "collect_alternative a st =
     (if ar_satisfied a then fold collect_verified_claims (filter cr_satisfied (ar_credentials a)) st else st)"

definition alternative_errors :: "'n ServiceAlternativeResult \<Rightarrow> ServicePolicyViolation list" where
  "alternative_errors a =
     (if ar_satisfied a then []
      else concat (map cr_errors (ar_credentials a))
        @ [\<lparr>v_code = AlternativeRequirementFailed, v_requirement = Some (ar_id a), v_credential = None, v_claim = None,
            v_message = lit ''Alternative requirement needs '' @ dec_text (ar_min_satisfied a)
              @ lit '' satisfied credentials; received '' @ dec_text (ar_satisfied_count a)\<rparr>])"

definition not_listed :: "ustr option \<Rightarrow> ustr list \<Rightarrow> bool" where
  "not_listed x allowed \<longleftrightarrow> allowed \<noteq> [] \<and> (case x of None \<Rightarrow> True | Some v \<Rightarrow> v \<notin> set allowed)"

definition binding_errors :: "'n ServicePolicyEvaluationRequest \<Rightarrow> ServicePolicyViolation list" where
  "binding_errors q =
     (let hb = holder_binding (req_policy q) in
      only_if (binding_required hb \<and> \<not> holder_binding_verified q)
        (global_violation HolderBindingRequired (lit ''Required holder binding was not verified''))
      @ (if binding_required hb \<and> holder_binding_verified q then
           only_if (not_listed (holder_binding_method q) (binding_methods hb))
             (global_violation HolderBindingMethodNotAllowed (lit ''Verified holder-binding method is not allowed by the policy''))
           @ only_if (not_listed (proof_profile q) (proof_profiles hb))
             (global_violation ProofProfileNotAllowed (lit ''Verified proof profile is not allowed by the policy''))
           @ only_if (challenge_required hb \<and> \<not> challenge_verified q)
             (global_violation ChallengeBindingRequired (lit ''Presentation challenge binding was not verified''))
           @ only_if (audience_binding_required hb \<and> \<not> audience_verified q)
             (global_violation AudienceBindingRequired (lit ''Presentation audience binding was not verified''))
           @ only_if (replay_detection_required hb \<and> \<not> replay_check_verified q)
             (global_violation ReplayDetectionRequired (lit ''Presentation replay detection was not verified''))
         else []))"

definition proof_time_errors :: "'n ServicePolicyEvaluationRequest \<Rightarrow> ServicePolicyViolation list" where
  "proof_time_errors q =
     (let hb = holder_binding (req_policy q) in
      if (case proof_epoch_seconds q of None \<Rightarrow> False | Some t \<Rightarrow> t > evaluation_time q) then
        [global_violation ProofTimestampFuture (lit ''Proof time is after evaluation time'')]
      else if binding_required hb then
        (case max_proof_age_seconds hb of None \<Rightarrow> []
         | Some max_age \<Rightarrow>
             (case proof_epoch_seconds q of
                None \<Rightarrow> [global_violation ProofTimestampMissing (lit ''Proof time is required by the holder-binding policy'')]
              | Some t \<Rightarrow> only_if (evaluation_time q - t > max_age)
                    (global_violation ProofStale (lit ''Proof is older than the holder-binding policy permits''))))
      else [])"

definition external_errors :: "'n ServicePolicyEvaluationRequest \<Rightarrow> ServicePolicyViolation list" where
  "external_errors q =
     (case external_authorization q of None \<Rightarrow> []
      | Some e \<Rightarrow>
          (let details = join_messages (ext_reasons e @ ext_errors e) in
           if \<not> ext_evaluated e then
             [global_violation ExternalAuthorizationNotEvaluated
                (if details = [] then lit ''External authorization was supplied but not evaluated''
                 else lit ''External authorization was not evaluated: '' @ details)]
           else only_if (\<not> ext_allowed e)
             (global_violation ExternalAuthorizationDenied (lit ''External authorization denied: '' @ details))))"

definition presentation_errors :: "'n ServicePolicyEvaluationRequest \<Rightarrow> ServicePolicyViolation list" where
  "presentation_errors q =
     only_if (single_presentation (req_policy q)
           \<and> (case presentation_count q of Some n \<Rightarrow> n | None \<Rightarrow> length (req_credentials q)) \<noteq> 1)
       (global_violation SinglePresentationRequired (lit ''Policy requires exactly one presentation''))"

definition count_if :: "bool \<Rightarrow> nat" where
  "count_if b = (if b then 1 else 0)"

definition decide ::
    "'n ServicePolicyEvaluationRequest \<Rightarrow> 'n ServiceCredentialResult list \<Rightarrow> ServicePolicyViolation list \<Rightarrow> nat \<Rightarrow> nat
       \<Rightarrow> ServiceEvaluationOutcome \<times> ServiceDecision \<times> ustr" where
  "decide q direct errors n_satisfied n_total =
     (let p = req_policy q;
          all_direct = list_all (\<lambda>(r, x). \<not> requirement_required r \<or> cr_satisfied x) (zip (credential_requirements p) direct);
          global_failure = list_ex (\<lambda>e. v_requirement e = None) errors;
          fully_satisfied = (n_satisfied = n_total \<and> all_direct \<and> \<not> global_failure);
          satisfied_credential_obligations = n_satisfied - count_if (presentation_proof_required p \<and> presentation_verified q) in
      if fully_satisfied then
        (Passed, Allow,
         if presentation_proof_required p then lit ''All required presentation and credential evidence satisfied''
         else lit ''All required credentials and claims satisfied'')
      else if satisfied_credential_obligations > 0 \<and> \<not> global_failure then
        (Partial, ManualReview, lit ''Partially satisfied: '' @ dec_text n_satisfied @ [47] @ dec_text n_total @ lit '' required'')
      else
        (OutcomeFailed, Deny,
         case errors of e # _ \<Rightarrow> v_message e | [] \<Rightarrow> lit ''Required credentials not satisfied''))"

definition evaluate_service_policy ::
    "('n, 'x) policy_env_scheme \<Rightarrow> 'n ServicePolicyEvaluationRequest
       \<Rightarrow> ('n ServicePolicyEvaluationResult, ServicePolicyError) result" where
  "evaluate_service_policy env q =
     rbind (validate_request env q) (\<lambda>_.
     let p = req_policy q; now = evaluation_time q;
         credentials = sort_key credential_id (req_credentials q);
         proof_required = presentation_proof_required p;
         direct = map (\<lambda>r. evaluate_requirement env r p credentials now) (credential_requirements p);
         alternatives = map (evaluate_alternative env p credentials now) (alternative_requirements p);
         n_total = count_if proof_required + length (filter requirement_required (credential_requirements p))
           + length (alternative_requirements p);
         n_satisfied = count_if (proof_required \<and> presentation_verified q)
           + length (filter (\<lambda>(r, x). requirement_required r \<and> cr_satisfied x) (zip (credential_requirements p) direct))
           + length (filter ar_satisfied alternatives);
         (collected, aggregation_errors) = fold collect_alternative alternatives (fold collect_verified_claims direct (Map.empty, []));
         errors = concat (map cr_errors direct) @ aggregation_errors
           @ only_if (proof_required \<and> \<not> presentation_verified q)
               (global_violation PresentationProofRequired (lit ''Required presentation proof was not verified''))
           @ concat (map alternative_errors alternatives)
           @ binding_errors q @ proof_time_errors q @ external_errors q @ presentation_errors q;
         (outcome, dec, reason) = decide q direct errors n_satisfied n_total in
     Ok \<lparr>outcome_result = outcome, decision = dec, decision_reason = reason, result_policy_id = policy_id p,
         result_policy_name = policy_name p, credential_results = direct, alternative_results = alternatives,
         total_requirements = length direct + length alternatives + count_if proof_required,
         satisfied_requirements = length (filter cr_satisfied direct) + length (filter ar_satisfied alternatives)
           + count_if (proof_required \<and> presentation_verified q),
         required_satisfied = n_satisfied, required_total = n_total,
         verified_claims = (if dec \<noteq> Allow then Map.empty else collected),
         result_errors = errors, result_warnings = concat (map credential_warnings credentials), result_time = now\<rparr>)"

subsection \<open>What a satisfied credential is\<close>

text \<open>The conditions of the policy on one credential, without reference to error lists.\<close>

definition issuer_acceptable :: "'n ServicePresentationPolicy \<Rightarrow> 'n VerifiedCredentialFacts \<Rightarrow> bool" where
  "issuer_acceptable p c \<longleftrightarrow> (allowed_issuers p = [] \<or> issuer_id c \<in> set (allowed_issuers p))
     \<and> (\<forall>k. issuer_constraints p = Some k \<longrightarrow>
          (\<forall>m. min_trust_level k = Some m \<longrightarrow> (\<exists>l. trust_level c = Some l \<and> m \<le> l))
          \<and> set (required_compliance_statuses k) \<subseteq> set (compliance_statuses c)
          \<and> set (required_accreditations k) \<subseteq> set (accreditations c))"

definition issuance_fresh :: "'n ServiceCredentialRequirement \<Rightarrow> 'n ServicePresentationPolicy \<Rightarrow> 'n VerifiedCredentialFacts \<Rightarrow> nat \<Rightarrow> bool" where
  "issuance_fresh r p c now \<longleftrightarrow>
     (\<forall>t. issued_at c = Some t \<longrightarrow> t \<le> now)
     \<and> (effective_max_age r p \<noteq> None \<or> require_fresh_issuance r \<longrightarrow> issued_at c \<noteq> None)
     \<and> (\<forall>m t. effective_max_age r p = Some m \<longrightarrow> issued_at c = Some t \<longrightarrow> now \<le> t + m)"

definition revocation_clear :: "'n ServicePresentationPolicy \<Rightarrow> 'n VerifiedCredentialFacts \<Rightarrow> nat \<Rightarrow> bool" where
  "revocation_clear p c now \<longleftrightarrow> not_revoked c \<noteq> Some False
     \<and> (\<forall>f. freshness p = Some f \<and> require_not_revoked f \<longrightarrow>
          not_revoked c = Some True
          \<and> (\<exists>t. revocation_checked_at c = Some t \<and> t \<le> now
               \<and> (\<forall>g. revocation_grace_seconds f = Some g \<longrightarrow> now \<le> t + g)))"

definition claims_acceptable ::
    "('n, 'x) policy_env_scheme \<Rightarrow> 'n ServiceCredentialRequirement \<Rightarrow> 'n VerifiedCredentialFacts \<Rightarrow> nat \<Rightarrow> bool" where
  "claims_acceptable env r c now \<longleftrightarrow>
     (\<forall>q \<in> set (requested_claims r).
        (claim_required q \<longrightarrow> map_of (claims c) (requested_name q) \<noteq> None)
        \<and> (\<forall>k \<in> set (claim_constraints q). evaluate_constraint env k (map_of (claims c) (requested_name q)) now))"

definition acceptable ::
    "('n, 'x) policy_env_scheme \<Rightarrow> 'n ServiceCredentialRequirement \<Rightarrow> 'n ServicePresentationPolicy \<Rightarrow> 'n VerifiedCredentialFacts \<Rightarrow> nat \<Rightarrow> bool" where
  "acceptable env r p c now \<longleftrightarrow> signature_verified c
     \<and> (\<forall>f. credential_payload_format r = Some f \<longrightarrow> canonical_credential_format f = canonical_credential_format (credential_format c))
     \<and> (requirement_trust_profile r \<noteq> None \<or> policy_trust_profile p \<noteq> None \<longrightarrow> trust_profile_verified c)
     \<and> issuer_acceptable p c \<and> issuance_fresh r p c now \<and> revocation_clear p c now \<and> claims_acceptable env r c now"

lemma only_if_empty [simp]: "only_if b x = [] \<longleftrightarrow> \<not> b"
  by (simp add: only_if_def)

lemma issuer_errors_empty:
  "(allowed_issuers p \<noteq> [] \<longrightarrow> issuer_id c \<in> set (allowed_issuers p)) \<and> apply_issuer_constraints r p c = [] \<longleftrightarrow> issuer_acceptable p c"
  by (auto simp: apply_issuer_constraints_def issuer_acceptable_def filter_empty_conv not_less split: option.splits)

lemma issuance_errors_empty: "check_issuance r p c now = [] \<longleftrightarrow> issuance_fresh r p c now"
  by (auto simp: check_issuance_def issuance_fresh_def Let_def not_less split: option.splits)

lemma revocation_errors_empty: "check_revocation r p c now = [] \<longleftrightarrow> revocation_clear p c now"
  by (auto simp: check_revocation_def revocation_clear_def Let_def not_less split: option.splits)

lemma claim_errors_empty:
  "concat (map (snd \<circ> evaluate_claim env r c now) (requested_claims r)) = [] \<longleftrightarrow> claims_acceptable env r c now"
  by (auto simp: evaluate_claim_def claims_acceptable_def Let_def filter_empty_conv)

lemma candidate_satisfied: "cr_satisfied (evaluate_candidate env r p c now) \<longleftrightarrow> acceptable env r p c now"
  unfolding acceptable_def issuer_errors_empty [of p c r, symmetric] issuance_errors_empty [of r, symmetric]
    revocation_errors_empty [of r p c now, symmetric] claim_errors_empty [symmetric]
  by (auto simp: evaluate_candidate_def apply_freshness_def Let_def list_ex_iff split: option.splits)

lemma candidate_errors: "cr_satisfied (evaluate_candidate env r p c now) \<longleftrightarrow> cr_errors (evaluate_candidate env r p c now) = []"
  by (simp add: evaluate_candidate_def Let_def)

text \<open>The candidate taken is a satisfied one whenever there is one.\<close>

lemma hd_sort_min:
  assumes "xs \<noteq> []"
  shows "hd (sort_key f xs) \<in> set xs" "x \<in> set xs \<Longrightarrow> f (hd (sort_key f xs)) \<le> f x"
proof -
  obtain y ys where y: "sort_key f xs = y # ys" using assms by (metis list.exhaust length_sort length_0_conv)
  have s: "set (sort_key f xs) = set xs" "sorted (map f (sort_key f xs))" by simp_all
  then show "hd (sort_key f xs) \<in> set xs" unfolding y by auto
  show "f (hd (sort_key f xs)) \<le> f x" if "x \<in> set xs"
    using s that unfolding y by auto
qed

lemma requirement_satisfied:
  "cr_satisfied (evaluate_requirement env r p cs now) \<longleftrightarrow> (\<exists>c \<in> set cs. matches_template r c \<and> acceptable env r p c now)"
proof (cases "filter (matches_template r) cs = []")
  case True
  then show ?thesis by (auto simp: evaluate_requirement_def filter_empty_conv)
next
  case False
  let ?xs = "map (\<lambda>c. evaluate_candidate env r p c now) (filter (matches_template r) cs)"
  let ?f = "\<lambda>x. (\<not> cr_satisfied x, length (cr_errors x), cr_credential x)"
  have e: "evaluate_requirement env r p cs now = hd (sort_key ?f ?xs)" using False by (simp add: evaluate_requirement_def Let_def)
  have ne: "?xs \<noteq> []" using False by simp
  note h = hd_sort_min [OF ne, where f = ?f]
  show ?thesis
  proof
    assume "cr_satisfied (evaluate_requirement env r p cs now)"
    with h(1) show "\<exists>c \<in> set cs. matches_template r c \<and> acceptable env r p c now"
      unfolding e by (auto simp: candidate_satisfied)
  next
    assume "\<exists>c \<in> set cs. matches_template r c \<and> acceptable env r p c now"
    then obtain c where "c \<in> set cs" "matches_template r c" "acceptable env r p c now" by blast
    then have "evaluate_candidate env r p c now \<in> set ?xs" "cr_satisfied (evaluate_candidate env r p c now)"
      by (simp_all add: candidate_satisfied)
    then obtain x where "x \<in> set ?xs" "cr_satisfied x" by blast
    with h(2) [of x] show "cr_satisfied (evaluate_requirement env r p cs now)"
      unfolding e by (auto simp: less_eq_prod_def)
  qed
qed

lemma requirement_from:
  assumes "cr_satisfied (evaluate_requirement env r p cs now)"
  obtains c where "c \<in> set cs" "matches_template r c" "acceptable env r p c now"
    "evaluate_requirement env r p cs now = evaluate_candidate env r p c now"
proof -
  let ?xs = "map (\<lambda>c. evaluate_candidate env r p c now) (filter (matches_template r) cs)"
  let ?f = "\<lambda>x. (\<not> cr_satisfied x, length (cr_errors x), cr_credential x)"
  have ne: "filter (matches_template r) cs \<noteq> []" using assms by (auto simp: evaluate_requirement_def)
  then have e: "evaluate_requirement env r p cs now = hd (sort_key ?f ?xs)" by (simp add: evaluate_requirement_def Let_def)
  have "?xs \<noteq> []" using ne by simp
  from hd_sort_min(1) [OF this, where f = ?f] obtain c where
    "c \<in> set (filter (matches_template r) cs)" "evaluate_requirement env r p cs now = evaluate_candidate env r p c now"
    unfolding e by (auto simp only: set_map)
  then show ?thesis using assms that [of c] by (auto simp: candidate_satisfied)
qed

subsection \<open>Errors\<close>

lemma only_if_all [simp]: "list_all P (only_if b x) \<longleftrightarrow> (b \<longrightarrow> P x)"
  by (simp add: only_if_def)

definition local_error :: "ServicePolicyViolation \<Rightarrow> bool" where
  "local_error e \<longleftrightarrow> v_requirement e \<noteq> None"

lemma violation_local [simp]: "local_error (violation code r c claim m)" "\<not> local_error (global_violation code m)"
  by (simp_all add: local_error_def violation_def global_violation_def)

lemma list_all_map [simp]: "list_all P (map f xs) \<longleftrightarrow> list_all (\<lambda>x. P (f x)) xs" "list_all (\<lambda>_. True) xs"
  by (simp_all add: list_all_iff)

lemma list_all_concat: "list_all P (concat xss) \<longleftrightarrow> list_all (list_all P) xss"
  by (simp add: list_all_iff)

lemma issuer_local: "list_all local_error (apply_issuer_constraints r p c)"
  by (simp add: apply_issuer_constraints_def split: option.split)

lemma issuance_local: "list_all local_error (check_issuance r p c now)"
  by (simp add: check_issuance_def Let_def split: option.split)

lemma revocation_local: "list_all local_error (check_revocation r p c now)"
proof (cases "freshness p")
  case None
  then show ?thesis by (simp add: check_revocation_def Let_def)
next
  case (Some f)
  then show ?thesis by (cases "revocation_checked_at c") (simp_all add: check_revocation_def Let_def)
qed

lemma claim_local: "list_all local_error (snd (evaluate_claim env r c now q))"
  by (simp add: evaluate_claim_def Let_def)

lemma candidate_local: "list_all local_error (cr_errors (evaluate_candidate env r p c now))"
  by (simp add: evaluate_candidate_def Let_def apply_freshness_def issuer_local issuance_local revocation_local
      list_all_concat claim_local split: option.split)

lemma requirement_errors:
  "list_all local_error (cr_errors (evaluate_requirement env r p cs now))
   \<and> (cr_satisfied (evaluate_requirement env r p cs now) \<longleftrightarrow> cr_errors (evaluate_requirement env r p cs now) = [])"
proof (cases "filter (matches_template r) cs = []")
  case True
  then show ?thesis by (simp add: evaluate_requirement_def)
next
  case False
  let ?xs = "map (\<lambda>c. evaluate_candidate env r p c now) (filter (matches_template r) cs)"
  let ?f = "\<lambda>x. (\<not> cr_satisfied x, length (cr_errors x), cr_credential x)"
  from False have e: "evaluate_requirement env r p cs now = hd (sort_key ?f ?xs)" by (simp add: evaluate_requirement_def Let_def)
  from False have "?xs \<noteq> []" by simp
  from hd_sort_min(1) [OF this, where f = ?f] obtain c where "evaluate_requirement env r p cs now = evaluate_candidate env r p c now"
    unfolding e by (auto simp only: set_map)
  with candidate_local [of env r p c now] candidate_errors [of env r p c now] show ?thesis by simp
qed

lemmas requirement_local = conjunct1 [OF requirement_errors]

lemma alternative_errors_local: "list_all local_error (alternative_errors (evaluate_alternative env p cs now a))"
  by (simp add: alternative_errors_def evaluate_alternative_def Let_def list_all_concat requirement_local local_error_def [of "ServicePolicyViolation_ext _ _ _ _ _ _"])

subsection \<open>The specification of a decision\<close>

definition binding_ok :: "'n ServicePolicyEvaluationRequest \<Rightarrow> bool" where
  "binding_ok q \<longleftrightarrow>
     (let hb = holder_binding (req_policy q) in
      binding_required hb \<longrightarrow> holder_binding_verified q
        \<and> (binding_methods hb \<noteq> [] \<longrightarrow> (\<exists>m. holder_binding_method q = Some m \<and> m \<in> set (binding_methods hb)))
        \<and> (proof_profiles hb \<noteq> [] \<longrightarrow> (\<exists>m. proof_profile q = Some m \<and> m \<in> set (proof_profiles hb)))
        \<and> (challenge_required hb \<longrightarrow> challenge_verified q) \<and> (audience_binding_required hb \<longrightarrow> audience_verified q)
        \<and> (replay_detection_required hb \<longrightarrow> replay_check_verified q)
        \<and> (\<forall>m. max_proof_age_seconds hb = Some m \<longrightarrow> (\<exists>t. proof_epoch_seconds q = Some t \<and> evaluation_time q \<le> t + m)))
     \<and> (\<forall>t. proof_epoch_seconds q = Some t \<longrightarrow> t \<le> evaluation_time q)"

definition context_ok :: "'n ServicePolicyEvaluationRequest \<Rightarrow> bool" where
  "context_ok q \<longleftrightarrow> binding_ok q
     \<and> (presentation_proof_required (req_policy q) \<longrightarrow> presentation_verified q)
     \<and> (\<forall>e. external_authorization q = Some e \<longrightarrow> ext_evaluated e \<and> ext_allowed e)
     \<and> (single_presentation (req_policy q) \<longrightarrow>
          (case presentation_count q of Some n \<Rightarrow> n | None \<Rightarrow> length (req_credentials q)) = 1)"

lemma not_listed_iff: "\<not> not_listed x allowed \<longleftrightarrow> (allowed \<noteq> [] \<longrightarrow> (\<exists>v. x = Some v \<and> v \<in> set allowed))"
  by (cases x) (auto simp: not_listed_def)

lemma binding_errors_empty:
  "binding_errors q = [] \<longleftrightarrow>
     (let hb = holder_binding (req_policy q) in
      binding_required hb \<longrightarrow> holder_binding_verified q
        \<and> (binding_methods hb \<noteq> [] \<longrightarrow> (\<exists>m. holder_binding_method q = Some m \<and> m \<in> set (binding_methods hb)))
        \<and> (proof_profiles hb \<noteq> [] \<longrightarrow> (\<exists>m. proof_profile q = Some m \<and> m \<in> set (proof_profiles hb)))
        \<and> (challenge_required hb \<longrightarrow> challenge_verified q) \<and> (audience_binding_required hb \<longrightarrow> audience_verified q)
        \<and> (replay_detection_required hb \<longrightarrow> replay_check_verified q))"
  by (simp add: binding_errors_def Let_def not_listed_iff)

lemma proof_time_errors_empty:
  "proof_time_errors q = [] \<longleftrightarrow>
     (binding_required (holder_binding (req_policy q)) \<longrightarrow>
        (\<forall>m. max_proof_age_seconds (holder_binding (req_policy q)) = Some m \<longrightarrow> (\<exists>t. proof_epoch_seconds q = Some t \<and> evaluation_time q \<le> t + m)))
     \<and> (\<forall>t. proof_epoch_seconds q = Some t \<longrightarrow> t \<le> evaluation_time q)"
proof (cases "proof_epoch_seconds q")
  case None
  then show ?thesis by (auto simp: proof_time_errors_def Let_def split: option.split)
next
  case (Some t)
  then show ?thesis by (simp add: proof_time_errors_def Let_def split: option.split) linarith
qed

lemma external_errors_empty: "external_errors q = [] \<longleftrightarrow> (\<forall>e. external_authorization q = Some e \<longrightarrow> ext_evaluated e \<and> ext_allowed e)"
  by (cases "external_authorization q") (auto simp: external_errors_def Let_def)

lemma presentation_errors_empty:
  "presentation_errors q = [] \<longleftrightarrow> (single_presentation (req_policy q) \<longrightarrow>
     (case presentation_count q of Some n \<Rightarrow> n | None \<Rightarrow> length (req_credentials q)) = 1)"
  by (auto simp: presentation_errors_def)

definition context_errors :: "'n ServicePolicyEvaluationRequest \<Rightarrow> ServicePolicyViolation list" where
  "context_errors q =
     only_if (presentation_proof_required (req_policy q) \<and> \<not> presentation_verified q)
       (global_violation PresentationProofRequired (lit ''Required presentation proof was not verified''))
     @ binding_errors q @ proof_time_errors q @ external_errors q @ presentation_errors q"

lemma context_errors_empty: "context_errors q = [] \<longleftrightarrow> context_ok q"
  unfolding context_ok_def binding_ok_def context_errors_def append_is_Nil_conv binding_errors_empty proof_time_errors_empty
    external_errors_empty presentation_errors_empty only_if_empty Let_def
  by blast

lemma proof_time_global: "list_all (\<lambda>e. \<not> local_error e) (proof_time_errors q)"
  by (cases "proof_epoch_seconds q"; cases "max_proof_age_seconds (holder_binding (req_policy q))")
    (simp_all add: proof_time_errors_def Let_def)

lemma external_global: "list_all (\<lambda>e. \<not> local_error e) (external_errors q)"
  by (cases "external_authorization q") (simp_all add: external_errors_def Let_def)

lemma binding_global: "list_all (\<lambda>e. \<not> local_error e) (binding_errors q)"
  by (simp add: binding_errors_def Let_def)

lemma context_errors_global: "list_all (\<lambda>e. \<not> local_error e) (context_errors q)"
  by (simp add: context_errors_def binding_global proof_time_global external_global presentation_errors_def)

subsection \<open>Collected claims\<close>

definition contributions :: "'n ServiceCredentialResult \<Rightarrow> (ustr \<times> 'n json) list" where
  "contributions x =
     (if cr_satisfied x then List.map_filter (\<lambda>k. if claim_satisfied k then map_option (Pair (result_claim k)) (presented_value k) else None) (cr_claims x)
      else [])"

definition consistent :: "(ustr \<times> 'n json) list \<Rightarrow> bool" where
  "consistent ps \<longleftrightarrow> (\<forall>n v w. (n, v) \<in> set ps \<longrightarrow> (n, w) \<in> set ps \<longrightarrow> normal v = normal w)"

text \<open>The state of the collection after the pairs seen so far.\<close>

definition collected :: "(ustr \<times> 'n json) list \<Rightarrow> (ustr \<rightharpoonup> 'n json) \<times> ServicePolicyViolation list \<Rightarrow> bool" where
  "collected ps st \<longleftrightarrow> (snd st = [] \<longleftrightarrow> consistent ps) \<and> list_all (\<lambda>e. \<not> local_error e) (snd st)
     \<and> (\<forall>n v. fst st n = Some v \<longrightarrow> (n, v) \<in> set ps)
     \<and> (\<forall>n v. (n, v) \<in> set ps \<longrightarrow> fst st n \<noteq> None)"

lemma collected_update:
  assumes "collected ps st" and "consistent (ps @ [(n, v)]) \<longleftrightarrow> consistent ps"
  shows "collected (ps @ [(n, v)]) ((fst st)(n \<mapsto> v), snd st)"
  unfolding collected_def
proof (intro conjI allI impI)
  show "snd ((fst st)(n \<mapsto> v), snd st) = [] \<longleftrightarrow> consistent (ps @ [(n, v)])"
    "list_all (\<lambda>e. \<not> local_error e) (snd ((fst st)(n \<mapsto> v), snd st))"
    using assms by (simp_all add: collected_def)
  show "(m, w) \<in> set (ps @ [(n, v)])" if "fst ((fst st)(n \<mapsto> v), snd st) m = Some w" for m w
    using assms(1) that by (cases "m = n") (simp_all add: collected_def)
  show "fst ((fst st)(n \<mapsto> v), snd st) m \<noteq> None" if "(m, w) \<in> set (ps @ [(n, v)])" for m w
    using assms(1) that by (cases "m = n") (auto simp: collected_def)
qed

lemma collected_conflict:
  assumes "collected ps st" and "fst st n = Some w" and "\<not> consistent (ps @ [(n, v)])" and "\<not> local_error e"
  shows "collected (ps @ [(n, v)]) (fst st, snd st @ [e])"
  unfolding collected_def
proof (intro conjI allI impI)
  show "snd (fst st, snd st @ [e]) = [] \<longleftrightarrow> consistent (ps @ [(n, v)])" using assms(3) by simp
  show "list_all (\<lambda>e. \<not> local_error e) (snd (fst st, snd st @ [e]))" using assms by (simp add: collected_def)
  show "(m, u) \<in> set (ps @ [(n, v)])" if "fst (fst st, snd st @ [e]) m = Some u" for m u
    using assms(1) that by (simp add: collected_def)
  show "fst (fst st, snd st @ [e]) m \<noteq> None" if "(m, u) \<in> set (ps @ [(n, v)])" for m u
    using assms(1,2) that by (cases "m = n") (auto simp: collected_def)
qed

lemma consistent_snoc: "consistent (ps @ [(n, v)]) \<longleftrightarrow> consistent ps \<and> (\<forall>w. (n, w) \<in> set ps \<longrightarrow> normal w = normal v)"
proof
  have "set ps \<subseteq> set (ps @ [(n, v)])" "(n, v) \<in> set (ps @ [(n, v)])" by auto
  moreover assume "consistent (ps @ [(n, v)])"
  ultimately show "consistent ps \<and> (\<forall>w. (n, w) \<in> set ps \<longrightarrow> normal w = normal v)" unfolding consistent_def by blast
next
  assume r: "consistent ps \<and> (\<forall>w. (n, w) \<in> set ps \<longrightarrow> normal w = normal v)"
  show "consistent (ps @ [(n, v)])"
    unfolding consistent_def
  proof (intro allI impI)
    fix m a b
    assume "(m, a) \<in> set (ps @ [(n, v)])" "(m, b) \<in> set (ps @ [(n, v)])"
    then consider "(m, a) \<in> set ps" "(m, b) \<in> set ps" | "m = n" "a = v" "(n, b) \<in> set ps" | "m = n" "b = v" "(n, a) \<in> set ps" | "a = v" "b = v"
      by auto
    then show "normal a = normal b"
    proof cases
      case 1
      with r show ?thesis unfolding consistent_def by blast
    next
      case 2
      with r have "normal b = normal v" by blast
      with 2 show ?thesis by simp
    next
      case 3
      with r have "normal a = normal v" by blast
      with 3 show ?thesis by simp
    qed simp
  qed
qed

lemma collected_add:
  assumes "collected ps st" and "claim_satisfied k" and "presented_value k = Some v"
  shows "collected (ps @ [(result_claim k, v)]) (collect_claim x k st)"
proof (cases "fst st (result_claim k)")
  case None
  then have "\<forall>w. (result_claim k, w) \<notin> set ps" using assms(1) unfolding collected_def by blast
  then have "consistent (ps @ [(result_claim k, v)]) \<longleftrightarrow> consistent ps" by (simp add: consistent_snoc)
  moreover have "collect_claim x k st = ((fst st)(result_claim k \<mapsto> v), snd st)"
    using None assms(2,3) by (simp add: collect_claim_def)
  ultimately show ?thesis using collected_update [OF assms(1)] by simp
next
  case (Some w)
  then have w: "(result_claim k, w) \<in> set ps" using assms(1) by (simp add: collected_def)
  show ?thesis
  proof (cases "normal w = normal v")
    case True
    then have "consistent (ps @ [(result_claim k, v)]) \<longleftrightarrow> consistent ps"
      using w unfolding consistent_snoc by (metis consistent_def)
    moreover have "collect_claim x k st = ((fst st)(result_claim k \<mapsto> v), snd st)"
      using True Some assms(2,3) by (simp add: collect_claim_def)
    ultimately show ?thesis using collected_update [OF assms(1)] by simp
  next
    case False
    with w have "\<not> consistent (ps @ [(result_claim k, v)])" unfolding consistent_snoc by blast
    then show ?thesis
      using False Some assms(2,3) collected_conflict [OF assms(1) Some] by (simp add: collect_claim_def local_error_def)
  qed
qed

lemma collected_result:
  assumes "collected ps st"
  shows "collected (ps @ contributions x) (collect_verified_claims x st)"
proof (cases "cr_satisfied x")
  case True
  have "collected (ps @ List.map_filter (\<lambda>k. if claim_satisfied k then map_option (Pair (result_claim k)) (presented_value k) else None) ks)
      (fold (collect_claim x) ks st)" for ks
    using assms
  proof (induction ks arbitrary: ps st)
    case (Cons k ks)
    show ?case
    proof (cases "claim_satisfied k \<and> presented_value k \<noteq> None")
      case True
      then obtain v where v: "claim_satisfied k" "presented_value k = Some v" by auto
      from Cons.IH [OF collected_add [OF Cons.prems v, of x]] v show ?thesis by (simp add: List.map_filter_simps)
    next
      case False
      then have "collect_claim x k st = st" by (auto simp: collect_claim_def split: option.split)
      with False Cons show ?thesis by (auto simp: List.map_filter_simps)
    qed
  qed (simp add: List.map_filter_simps)
  from this [of "cr_claims x"] True show ?thesis by (simp add: contributions_def collect_verified_claims_def)
next
  case False
  then show ?thesis using assms by (simp add: contributions_def collect_verified_claims_def)
qed

lemma collected_results:
  "collected ps st \<Longrightarrow> collected (ps @ concat (map contributions xs)) (fold collect_verified_claims xs st)"
proof (induction xs arbitrary: ps st)
  case (Cons x xs)
  from Cons.IH [OF collected_result [OF Cons.prems]] show ?case by simp
qed simp

definition alternative_contributions :: "'n ServiceAlternativeResult \<Rightarrow> (ustr \<times> 'n json) list" where
  "alternative_contributions a = (if ar_satisfied a then concat (map contributions (filter cr_satisfied (ar_credentials a))) else [])"

lemma collected_alternatives:
  "collected ps st \<Longrightarrow> collected (ps @ concat (map alternative_contributions as)) (fold collect_alternative as st)"
proof (induction as arbitrary: ps st)
  case (Cons a as)
  have "collected (ps @ alternative_contributions a) (collect_alternative a st)"
    using collected_results [OF Cons.prems, of "filter cr_satisfied (ar_credentials a)"] Cons.prems
    by (simp add: alternative_contributions_def collect_alternative_def)
  from Cons.IH [OF this] show ?case by simp
qed simp

lemma collected_start: "collected [] (Map.empty, [])"
  by (simp add: collected_def consistent_def)

subsection \<open>The result, taken apart\<close>

definition direct_of :: "('n, 'x) policy_env_scheme \<Rightarrow> 'n ServicePolicyEvaluationRequest \<Rightarrow> 'n ServiceCredentialResult list" where
  "direct_of env q = map (\<lambda>r. evaluate_requirement env r (req_policy q) (sort_key credential_id (req_credentials q)) (evaluation_time q))
     (credential_requirements (req_policy q))"

definition alternatives_of :: "('n, 'x) policy_env_scheme \<Rightarrow> 'n ServicePolicyEvaluationRequest \<Rightarrow> 'n ServiceAlternativeResult list" where
  "alternatives_of env q = map (evaluate_alternative env (req_policy q) (sort_key credential_id (req_credentials q)) (evaluation_time q))
     (alternative_requirements (req_policy q))"

definition collected_of :: "('n, 'x) policy_env_scheme \<Rightarrow> 'n ServicePolicyEvaluationRequest \<Rightarrow> (ustr \<rightharpoonup> 'n json) \<times> ServicePolicyViolation list" where
  "collected_of env q = fold collect_alternative (alternatives_of env q) (fold collect_verified_claims (direct_of env q) (Map.empty, []))"

definition contributions_of :: "('n, 'x) policy_env_scheme \<Rightarrow> 'n ServicePolicyEvaluationRequest \<Rightarrow> (ustr \<times> 'n json) list" where
  "contributions_of env q = concat (map contributions (direct_of env q)) @ concat (map alternative_contributions (alternatives_of env q))"

definition errors_of :: "('n, 'x) policy_env_scheme \<Rightarrow> 'n ServicePolicyEvaluationRequest \<Rightarrow> ServicePolicyViolation list" where
  "errors_of env q =
     concat (map cr_errors (direct_of env q)) @ snd (collected_of env q)
     @ only_if (presentation_proof_required (req_policy q) \<and> \<not> presentation_verified q)
         (global_violation PresentationProofRequired (lit ''Required presentation proof was not verified''))
     @ concat (map alternative_errors (alternatives_of env q))
     @ binding_errors q @ proof_time_errors q @ external_errors q @ presentation_errors q"

definition credential_units :: "('n, 'x) policy_env_scheme \<Rightarrow> 'n ServicePolicyEvaluationRequest \<Rightarrow> nat" where
  "credential_units env q =
     length (filter (\<lambda>(r, x). requirement_required r \<and> cr_satisfied x) (zip (credential_requirements (req_policy q)) (direct_of env q)))
     + length (filter ar_satisfied (alternatives_of env q))"

definition satisfied_of :: "('n, 'x) policy_env_scheme \<Rightarrow> 'n ServicePolicyEvaluationRequest \<Rightarrow> nat" where
  "satisfied_of env q = count_if (presentation_proof_required (req_policy q) \<and> presentation_verified q) + credential_units env q"

definition total_of :: "'n ServicePolicyEvaluationRequest \<Rightarrow> nat" where
  "total_of q = count_if (presentation_proof_required (req_policy q))
     + length (filter requirement_required (credential_requirements (req_policy q))) + length (alternative_requirements (req_policy q))"

lemma evaluate_eq:
  "evaluate_service_policy env q =
     rbind (validate_request env q) (\<lambda>_.
     let d = decide q (direct_of env q) (errors_of env q) (satisfied_of env q) (total_of q) in
     Ok \<lparr>outcome_result = fst d, decision = fst (snd d), decision_reason = snd (snd d), result_policy_id = policy_id (req_policy q),
         result_policy_name = policy_name (req_policy q), credential_results = direct_of env q, alternative_results = alternatives_of env q,
         total_requirements = length (direct_of env q) + length (alternatives_of env q) + count_if (presentation_proof_required (req_policy q)),
         satisfied_requirements = length (filter cr_satisfied (direct_of env q)) + length (filter ar_satisfied (alternatives_of env q))
           + count_if (presentation_proof_required (req_policy q) \<and> presentation_verified q),
         required_satisfied = satisfied_of env q, required_total = total_of q,
         verified_claims = (if fst (snd d) \<noteq> Allow then Map.empty else fst (collected_of env q)),
         result_errors = errors_of env q,
         result_warnings = concat (map credential_warnings (sort_key credential_id (req_credentials q))), result_time = evaluation_time q\<rparr>)"
  unfolding evaluate_service_policy_def Let_def case_prod_beta errors_of_def collected_of_def direct_of_def alternatives_of_def
    satisfied_of_def credential_units_def total_of_def
  by (simp only: add.assoc)

lemma evaluate_Ok:
  assumes "evaluate_service_policy env q = Ok res"
  shows "validate_request env q = Ok ()"
    "(outcome_result res, decision res, decision_reason res) = decide q (direct_of env q) (errors_of env q) (satisfied_of env q) (total_of q)"
    "verified_claims res = (if decision res \<noteq> Allow then Map.empty else fst (collected_of env q))"
    "required_satisfied res = satisfied_of env q" "required_total res = total_of q" "result_errors res = errors_of env q"
  using assms unfolding evaluate_eq Let_def by auto

lemma collected_of_inv: "collected (contributions_of env q) (collected_of env q)"
  using collected_alternatives [OF collected_results [OF collected_start, of "direct_of env q"], of "alternatives_of env q"]
  unfolding contributions_of_def collected_of_def append_Nil .

lemma list_ex_not_all: "list_ex (\<lambda>e. v_requirement e = None) es \<longleftrightarrow> \<not> list_all local_error es"
  by (auto simp: list_ex_iff list_all_iff local_error_def)

lemma global_failure_iff:
  "list_ex (\<lambda>e. v_requirement e = None) (errors_of env q) \<longleftrightarrow> \<not> (consistent (contributions_of env q) \<and> context_ok q)"
proof -
  have empty: "list_all local_error es \<longleftrightarrow> es = []" if "list_all (\<lambda>e. \<not> local_error e) es" for es
    using that by (cases es) auto
  have direct: "list_all local_error (concat (map cr_errors (direct_of env q)))"
    by (simp add: list_all_concat direct_of_def requirement_local)
  have alts: "list_all local_error (concat (map alternative_errors (alternatives_of env q)))"
    by (simp add: list_all_concat alternatives_of_def alternative_errors_local)
  have agg: "list_all local_error (snd (collected_of env q)) \<longleftrightarrow> consistent (contributions_of env q)"
    using collected_of_inv [of env q] empty [of "snd (collected_of env q)"] by (simp add: collected_def)
  have ctx: "list_all local_error (context_errors q) \<longleftrightarrow> context_ok q"
    using empty [OF context_errors_global] context_errors_empty by blast
  have "list_all local_error (errors_of env q) \<longleftrightarrow> consistent (contributions_of env q) \<and> context_ok q"
    unfolding ctx [symmetric] agg [symmetric] errors_of_def context_errors_def using direct alts by auto
  then show ?thesis by (simp add: list_ex_not_all)
qed

lemma filter_count:
  "length (filter (\<lambda>x. P x \<and> Q x) xs) \<le> length (filter P xs)"
  "length (filter (\<lambda>x. P x \<and> Q x) xs) = length (filter P xs) \<longleftrightarrow> (\<forall>x \<in> set xs. P x \<longrightarrow> Q x)"
proof -
  show le: "length (filter (\<lambda>x. P x \<and> Q x) xs) \<le> length (filter P xs)" for xs by (induction xs) auto
  show "length (filter (\<lambda>x. P x \<and> Q x) xs) = length (filter P xs) \<longleftrightarrow> (\<forall>x \<in> set xs. P x \<longrightarrow> Q x)"
  proof (induction xs)
    case (Cons x xs)
    with le [of xs] show ?case by auto
  qed simp
qed

lemma filter_zip_map: "length (filter (\<lambda>(r, x). P r \<and> Q x) (zip rs (map f rs))) = length (filter (\<lambda>r. P r \<and> Q (f r)) rs)"
  by (induction rs) auto

text \<open>A requirement is met by a set of credentials.\<close>

definition meets :: "('n, 'x) policy_env_scheme \<Rightarrow> 'n ServicePolicyEvaluationRequest \<Rightarrow> 'n ServiceCredentialRequirement \<Rightarrow> bool" where
  "meets env q r \<longleftrightarrow> (\<exists>c \<in> set (req_credentials q). matches_template r c \<and> acceptable env r (req_policy q) c (evaluation_time q))"

definition obligations_met :: "('n, 'x) policy_env_scheme \<Rightarrow> 'n ServicePolicyEvaluationRequest \<Rightarrow> bool" where
  "obligations_met env q \<longleftrightarrow>
     (\<forall>r \<in> set (credential_requirements (req_policy q)). requirement_required r \<longrightarrow> meets env q r)
     \<and> (\<forall>a \<in> set (alternative_requirements (req_policy q)). min_satisfied a \<le> length (filter (meets env q) (alternative_credentials a)))"

lemma direct_satisfied:
  "cr_satisfied (evaluate_requirement env r (req_policy q) (sort_key credential_id (req_credentials q)) (evaluation_time q)) \<longleftrightarrow> meets env q r"
  by (simp add: requirement_satisfied meets_def)

lemma alternative_satisfied:
  "ar_satisfied (evaluate_alternative env (req_policy q) (sort_key credential_id (req_credentials q)) (evaluation_time q) a)
     \<longleftrightarrow> min_satisfied a \<le> length (filter (meets env q) (alternative_credentials a))"
  by (simp add: evaluate_alternative_def Let_def filter_map direct_satisfied comp_def)

lemma units_eq:
  "credential_units env q =
     length (filter (\<lambda>r. requirement_required r \<and> meets env q r) (credential_requirements (req_policy q)))
     + length (filter (\<lambda>a. min_satisfied a \<le> length (filter (meets env q) (alternative_credentials a))) (alternative_requirements (req_policy q)))"
  by (simp add: credential_units_def direct_of_def alternatives_of_def filter_zip_map direct_satisfied filter_map comp_def alternative_satisfied)

lemma bounded_sums:
  assumes "a \<le> a'" "b \<le> b'" "c \<le> (c' :: nat)"
  shows "a + (b + c) \<le> a' + b' + c'" "a + (b + c) = a' + b' + c' \<longleftrightarrow> a = a' \<and> b = b' \<and> c = c'"
  using assms by auto

lemma satisfied_total:
  "satisfied_of env q \<le> total_of q"
  "satisfied_of env q = total_of q \<longleftrightarrow> obligations_met env q \<and> (presentation_proof_required (req_policy q) \<longrightarrow> presentation_verified q)"
proof -
  let ?rs = "credential_requirements (req_policy q)" and ?as = "alternative_requirements (req_policy q)"
  let ?Q = "\<lambda>a. min_satisfied a \<le> length (filter (meets env q) (alternative_credentials a))"
  have a: "length (filter ?Q ?as) \<le> length ?as" "length (filter ?Q ?as) = length ?as \<longleftrightarrow> (\<forall>a \<in> set ?as. ?Q a)"
    using filter_count [of "\<lambda>_. True" ?Q ?as] by simp_all
  note r = filter_count [of requirement_required "meets env q" ?rs]
  have p: "count_if (b \<and> c) \<le> count_if b" "count_if (b \<and> c) = count_if b \<longleftrightarrow> (b \<longrightarrow> c)" for b c by (simp_all add: count_if_def)
  note sums = bounded_sums [OF p(1) [of "presentation_proof_required (req_policy q)" "presentation_verified q"] r(1) a(1)]
  show "satisfied_of env q \<le> total_of q"
    unfolding satisfied_of_def units_eq total_of_def by (rule sums(1))
  show "satisfied_of env q = total_of q \<longleftrightarrow> obligations_met env q \<and> (presentation_proof_required (req_policy q) \<longrightarrow> presentation_verified q)"
    unfolding satisfied_of_def units_eq total_of_def sums(2) obligations_met_def r(2) a(2) p(2) by blast
qed

subsection \<open>Properties\<close>

definition policy_met :: "('n, 'x) policy_env_scheme \<Rightarrow> 'n ServicePolicyEvaluationRequest \<Rightarrow> bool" where
  "policy_met env q \<longleftrightarrow> context_ok q \<and> obligations_met env q \<and> consistent (contributions_of env q)"

lemma all_direct:
  "list_all (\<lambda>(r, x). \<not> requirement_required r \<or> cr_satisfied x) (zip (credential_requirements (req_policy q)) (direct_of env q))
     \<longleftrightarrow> (\<forall>r \<in> set (credential_requirements (req_policy q)). requirement_required r \<longrightarrow> meets env q r)"
proof -
  have "list_all (\<lambda>(r, x). \<not> requirement_required r \<or> cr_satisfied x) (zip rs (map f rs))
      \<longleftrightarrow> (\<forall>r \<in> set rs. requirement_required r \<longrightarrow> cr_satisfied (f r))" for rs :: "'a ServiceCredentialRequirement list" and f :: "'a ServiceCredentialRequirement \<Rightarrow> 'a ServiceCredentialResult"
    by (induction rs) auto
  then show ?thesis by (simp add: direct_of_def direct_satisfied)
qed

lemma decide_cases:
  "(decision res = Allow \<longleftrightarrow> policy_met env q)
   \<and> (decision res = ManualReview \<longleftrightarrow> \<not> policy_met env q \<and> context_ok q \<and> consistent (contributions_of env q) \<and> 0 < credential_units env q)
   \<and> (outcome_result res = Passed \<longleftrightarrow> decision res = Allow) \<and> (outcome_result res = Partial \<longleftrightarrow> decision res = ManualReview)"
  if "evaluate_service_policy env q = Ok res"
proof -
  have sat: "satisfied_of env q = total_of q \<and> (\<forall>r \<in> set (credential_requirements (req_policy q)). requirement_required r \<longrightarrow> meets env q r)
      \<and> \<not> \<not> (consistent (contributions_of env q) \<and> context_ok q) \<longleftrightarrow> policy_met env q"
    unfolding satisfied_total(2) policy_met_def obligations_met_def context_ok_def by blast
  have units: "satisfied_of env q - count_if (presentation_proof_required (req_policy q) \<and> presentation_verified q) = credential_units env q"
    by (simp add: satisfied_of_def)
  show ?thesis
    using evaluate_Ok(2) [OF that] unfolding decide_def Let_def all_direct units global_failure_iff sat
    by (auto split: if_splits)
qed

text \<open>
  C26: A request is allowed exactly when the policy is met: the context (holder binding, proof age,
  presentation proof, external authorization, number of presentations) is in order, every
  required credential requirement has an acceptable credential, every alternative has enough of
  them, and the collected claims do not conflict. Without permission no claim is released.
\<close>

theorem policy_allow_exact:
  assumes "evaluate_service_policy env q = Ok res"
  shows "(decision res = Allow \<longleftrightarrow> policy_met env q) \<and> (outcome_result res = Passed \<longleftrightarrow> decision res = Allow)
     \<and> (decision res \<noteq> Allow \<longrightarrow> verified_claims res = Map.empty)"
  using decide_cases [OF assms] evaluate_Ok(3) [OF assms] by simp

text \<open>
  C28: Manual review is asked for exactly when the policy is not met although the context is in
  order, the claims do not conflict and at least one credential obligation is satisfied; the
  counters never exceed the number of obligations.
\<close>

theorem policy_review_exact:
  assumes "evaluate_service_policy env q = Ok res"
  shows "(decision res = ManualReview \<longleftrightarrow>
       \<not> policy_met env q \<and> context_ok q \<and> consistent (contributions_of env q) \<and> 0 < credential_units env q)
     \<and> (outcome_result res = Partial \<longleftrightarrow> decision res = ManualReview)
     \<and> required_satisfied res \<le> required_total res"
  using decide_cases [OF assms] evaluate_Ok(4,5) [OF assms] satisfied_total(1) [of env q] by simp

lemma claim_from:
  assumes "(n, v) \<in> set (contributions (evaluate_requirement env r p cs now))"
  obtains c k where "c \<in> set cs" "matches_template r c" "acceptable env r p c now" "map_of (claims c) n = Some v"
    "k \<in> set (requested_claims r)" "requested_name k = n"
proof -
  have sat: "cr_satisfied (evaluate_requirement env r p cs now)" using assms by (auto simp: contributions_def split: if_splits)
  from requirement_from [OF sat] obtain c where c: "c \<in> set cs" "matches_template r c" "acceptable env r p c now"
    "evaluate_requirement env r p cs now = evaluate_candidate env r p c now" by blast
  have "cr_claims (evaluate_candidate env r p c now) = map (fst \<circ> evaluate_claim env r c now) (requested_claims r)"
    by (simp add: evaluate_candidate_def Let_def)
  with assms c(4) sat obtain k where "k \<in> set (requested_claims r)"
      "(n, v) = (requested_name k, the (map_of (claims c) (requested_name k)))" "map_of (claims c) (requested_name k) \<noteq> None"
    by (auto simp: contributions_def map_filter_def evaluate_claim_def Let_def split: if_splits)
  with c that show ?thesis by auto
qed

text \<open>
  C27: Every released claim comes from an acceptable credential: it is the value that a presented
  credential, verified and accepted for one of the requirements that requests the claim, holds
  under that name.
\<close>

theorem released_claims_verified:
  assumes "evaluate_service_policy env q = Ok res" and "verified_claims res n = Some v"
  shows "\<exists>r c. (r \<in> set (credential_requirements (req_policy q))
        \<or> (\<exists>a \<in> set (alternative_requirements (req_policy q)). r \<in> set (alternative_credentials a)))
     \<and> c \<in> set (req_credentials q) \<and> matches_template r c \<and> acceptable env r (req_policy q) c (evaluation_time q)
     \<and> signature_verified c \<and> n \<in> requested_name ` set (requested_claims r) \<and> map_of (claims c) n = Some v"
proof -
  have "fst (collected_of env q) n = Some v" using assms evaluate_Ok(3) [OF assms(1)] by (simp split: if_splits)
  then have "(n, v) \<in> set (contributions_of env q)" using collected_of_inv [of env q] by (simp add: collected_def)
  then obtain r where r: "r \<in> set (credential_requirements (req_policy q))
        \<or> (\<exists>a \<in> set (alternative_requirements (req_policy q)). r \<in> set (alternative_credentials a))"
      "(n, v) \<in> set (contributions (evaluate_requirement env r (req_policy q) (sort_key credential_id (req_credentials q)) (evaluation_time q)))"
    by (auto simp: contributions_of_def direct_of_def alternatives_of_def alternative_contributions_def evaluate_alternative_def Let_def split: if_splits)
  from claim_from [OF r(2)] obtain c k where c: "c \<in> set (req_credentials q)" "matches_template r c"
      "acceptable env r (req_policy q) c (evaluation_time q)" "map_of (claims c) n = Some v"
      "k \<in> set (requested_claims r)" "requested_name k = n"
    by (metis set_sort)
  then have "signature_verified c" "n \<in> requested_name ` set (requested_claims r)" by (auto simp: acceptable_def)
  with c r(1) show ?thesis by blast
qed

lemma for_each_Ok: "for_each f xs = Ok () \<longleftrightarrow> (\<forall>x \<in> set xs. f x = Ok ())"
  by (induction xs) auto

lemma validate_order:
  assumes "mset cs = mset (req_credentials q)"
  shows "validate_request env (q\<lparr>req_credentials := cs\<rparr>) = Ok () \<longleftrightarrow> validate_request env q = Ok ()"
proof -
  have "length cs = length (req_credentials q)" "set cs = set (req_credentials q)"
    using assms by (metis size_mset, metis set_mset_mset)
  then have "for_each (validate_credential env) cs = Ok () \<longleftrightarrow> for_each (validate_credential env) (req_credentials q) = Ok ()"
    "length cs = length (req_credentials q)"
    by (simp_all add: for_each_Ok)
  then show ?thesis by (simp add: validate_request_def Let_def)
qed

text \<open>
  C29: The order in which the credentials are presented does not matter: when their identifiers
  are distinct, a request and the same request with its credentials in another order are both
  rejected as invalid or are both evaluated, and then to the same result.
\<close>

theorem credential_order_irrelevant:
  assumes "mset cs = mset (req_credentials q)" and "distinct (map credential_id cs)"
  shows "evaluate_service_policy env (q\<lparr>req_credentials := cs\<rparr>) = Ok res \<longleftrightarrow> evaluate_service_policy env q = Ok res"
proof (cases "validate_request env q")
  case (Ok u)
  then have valid: "validate_request env q = Ok ()" "validate_request env (q\<lparr>req_credentials := cs\<rparr>) = Ok ()"
    using validate_order [OF assms(1), of env] by simp_all
  let ?q = "q\<lparr>req_credentials := cs\<rparr>"
  have sorted: "sort_key credential_id cs = sort_key credential_id (req_credentials q)"
    by (rule sort_key_unique [OF assms(1,2)])
  have len: "length cs = length (req_credentials q)" using assms(1) by (metis size_mset)
  have parts: "direct_of env ?q = direct_of env q" "alternatives_of env ?q = alternatives_of env q"
    by (simp_all add: direct_of_def alternatives_of_def sorted)
  have ctx: "binding_errors ?q = binding_errors q" "proof_time_errors ?q = proof_time_errors q"
      "external_errors ?q = external_errors q" "presentation_errors ?q = presentation_errors q"
    by (simp_all add: binding_errors_def proof_time_errors_def external_errors_def presentation_errors_def len Let_def cong: if_cong option.case_cong)
  have whole: "collected_of env ?q = collected_of env q" "errors_of env ?q = errors_of env q"
      "satisfied_of env ?q = satisfied_of env q" "total_of ?q = total_of q"
    by (simp_all add: collected_of_def errors_of_def parts ctx satisfied_of_def credential_units_def total_of_def)
  have "decide ?q ds es n m = decide q ds es n m" for ds es n m by (simp add: decide_def)
  then show ?thesis
    unfolding evaluate_eq valid rbind.simps Let_def parts whole by (simp add: sorted)
next
  case (Err e)
  then have "validate_request env (q\<lparr>req_credentials := cs\<rparr>) \<noteq> Ok ()" using validate_order [OF assms(1), of env] by simp
  then show ?thesis unfolding evaluate_eq Err by (cases "validate_request env (q\<lparr>req_credentials := cs\<rparr>)") simp_all
next
  case Panic
  then have "validate_request env (q\<lparr>req_credentials := cs\<rparr>) \<noteq> Ok ()" using validate_order [OF assms(1), of env] by simp
  then show ?thesis unfolding evaluate_eq Panic by (cases "validate_request env (q\<lparr>req_credentials := cs\<rparr>)") simp_all
qed

subsection \<open>Witnesses\<close>

text \<open>
  A request with one required membership credential, two presented credentials (the second one
  revoked) and a requested level.
\<close>

definition sample_policy_env :: "nat policy_env" where
  "sample_policy_env = \<lparr>number_f64 = (\<lambda>n. Some (Finite (of_nat n))), parse_f64 = (\<lambda>_. None), number_text = (\<lambda>n. [n]),
     compound_text = (\<lambda>_. None), value_vec_len = (\<lambda>_. Inr 8), regex_is_match = (\<lambda>_ _. True), timestamp_date = (\<lambda>_. None), parse_date = (\<lambda>_. None)\<rparr>"

definition sample_facts :: "ustr \<Rightarrow> bool \<Rightarrow> nat VerifiedCredentialFacts" where
  "sample_facts i clear = \<lparr>credential_id = i, credential_template_ids = [[5]], credential_format = [6], claims = [([1], JNumber 7)],
     issuer_id = [2], signature_verified = True, signature_failure_reason = None, trust_profile_verified = True, trust_failure_reason = None,
     trust_level = Some 3, compliance_statuses = [], accreditations = [], issued_at = Some 50, revocation_checked_at = Some 90,
     not_revoked = Some clear, credential_status = None, credential_warnings = []\<rparr>"

definition sample_need :: "nat ServiceCredentialRequirement" where
  "sample_need = \<lparr>requirement_id = [9], requirement_template = [5], requirement_required = True, credential_payload_format = None,
     requested_claims = [\<lparr>requested_name = [1], claim_required = True, selective_disclosure = False, accept_derived = False,
       predicate_spec = None, claim_constraints = []\<rparr>],
     requirement_trust_profile = None, requirement_max_age = Some 60, require_fresh_issuance = True\<rparr>"

definition sample_policy :: "nat ServicePresentationPolicy" where
  "sample_policy = \<lparr>policy_id = [3], policy_name = [3], policy_organization = [3], credential_requirements = [sample_need],
     alternative_requirements = [], policy_trust_profile = None,
     holder_binding = \<lparr>binding_required = True, binding_methods = [], proof_profiles = [], challenge_required = True,
       audience_binding_required = False, replay_detection_required = False, max_proof_age_seconds = Some 10\<rparr>,
     freshness = Some \<lparr>freshness_max_age = None, require_not_revoked = True, revocation_grace_seconds = Some 20\<rparr>,
     issuer_constraints = Some \<lparr>min_trust_level = Some 2, required_compliance_statuses = [], required_accreditations = []\<rparr>,
     allowed_issuers = [[2]], single_presentation = True, presentation_proof_required = True\<rparr>"

definition sample_request :: "nat VerifiedCredentialFacts list \<Rightarrow> bool \<Rightarrow> nat ServicePolicyEvaluationRequest" where
  "sample_request cs proof = \<lparr>req_policy = sample_policy, req_credentials = cs, evaluation_time = 100, presentation_verified = proof,
     holder_binding_verified = True, holder_binding_method = None, proof_profile = None, challenge_verified = True, audience_verified = False,
     replay_check_verified = False, proof_epoch_seconds = Some 95, external_authorization = None, presentation_count = Some 1\<rparr>"

lemma sample_allowed:
  "case evaluate_service_policy sample_policy_env (sample_request [sample_facts [8] False, sample_facts [4] True] True) of
     Ok res \<Rightarrow> decision res = Allow \<and> verified_claims res [1] = Some (JNumber 7) | _ \<Rightarrow> False"
  by code_simp

definition sample_partial :: "nat ServicePolicyEvaluationRequest" where
  "sample_partial = (sample_request [sample_facts [4] True] True)\<lparr>req_policy := sample_policy\<lparr>credential_requirements :=
     [sample_need, sample_need\<lparr>requirement_id := [10], requirement_template := [6]\<rparr>]\<rparr>\<rparr>"

lemma sample_reviewed:
  "case evaluate_service_policy sample_policy_env sample_partial of Ok res \<Rightarrow> decision res = ManualReview | _ \<Rightarrow> False"
  by code_simp

lemma sample_denied:
  "case evaluate_service_policy sample_policy_env (sample_request [sample_facts [8] False] True) of
     Ok res \<Rightarrow> decision res = Deny | _ \<Rightarrow> False"
  by code_simp

theorem policy_allow_exact_witness:
  "(\<exists>res. evaluate_service_policy sample_policy_env (sample_request [sample_facts [8] False, sample_facts [4] True] True) = Ok res
     \<and> decision res = Allow \<and> outcome_result res = Passed)
   \<and> policy_met sample_policy_env (sample_request [sample_facts [8] False, sample_facts [4] True] True)
   \<and> \<not> policy_met sample_policy_env (sample_request [sample_facts [8] False] True)"
proof -
  obtain a where a: "evaluate_service_policy sample_policy_env (sample_request [sample_facts [8] False, sample_facts [4] True] True) = Ok a"
    "decision a = Allow" using result_OkE [OF sample_allowed] by blast
  obtain d where d: "evaluate_service_policy sample_policy_env (sample_request [sample_facts [8] False] True) = Ok d"
    "decision d = Deny" using result_OkE [OF sample_denied] by blast
  show ?thesis using policy_allow_exact [OF a(1)] policy_allow_exact [OF d(1)] a d(2) by simp
qed

theorem policy_review_exact_witness:
  "(\<exists>res. evaluate_service_policy sample_policy_env sample_partial = Ok res \<and> decision res = ManualReview \<and> outcome_result res = Partial)
   \<and> \<not> policy_met sample_policy_env sample_partial \<and> 0 < credential_units sample_policy_env sample_partial"
proof -
  obtain a where a: "evaluate_service_policy sample_policy_env sample_partial = Ok a" "decision a = ManualReview"
    using result_OkE [OF sample_reviewed] by blast
  show ?thesis using policy_review_exact [OF a(1)] a by simp
qed

theorem released_claims_verified_witness:
  "\<exists>r c. (r = sample_need \<and> c \<in> {sample_facts [8] False, sample_facts [4] True}) \<and> signature_verified c
     \<and> acceptable sample_policy_env r sample_policy c 100 \<and> map_of (claims c) [1] = Some (JNumber 7)"
proof -
  obtain a where a: "evaluate_service_policy sample_policy_env (sample_request [sample_facts [8] False, sample_facts [4] True] True) = Ok a"
    "verified_claims a [1] = Some (JNumber 7)" using result_OkE [OF sample_allowed] by blast
  show ?thesis using released_claims_verified [OF a] by (auto simp: sample_request_def sample_policy_def)
qed

theorem credential_order_irrelevant_witness:
  "\<exists>res. decision res = Allow
     \<and> evaluate_service_policy sample_policy_env (sample_request [sample_facts [8] False, sample_facts [4] True] True) = Ok res
     \<and> evaluate_service_policy sample_policy_env (sample_request [sample_facts [4] True, sample_facts [8] False] True) = Ok res"
proof -
  obtain a where a: "evaluate_service_policy sample_policy_env (sample_request [sample_facts [8] False, sample_facts [4] True] True) = Ok a"
    "decision a = Allow" using result_OkE [OF sample_allowed] by blast
  show ?thesis
    using credential_order_irrelevant [of "[sample_facts [4] True, sample_facts [8] False]"
        "sample_request [sample_facts [8] False, sample_facts [4] True] True" sample_policy_env a] a
    by (simp add: sample_request_def sample_facts_def add_mset_commute)
qed

end
