(* ===== verification/MdlEngagement.thy ===== *)
theory MdlEngagement
  imports RustStr
begin

text \<open>
  Device engagement of ISO 18013-5, after \<open>marty-iso18013/src/core.rs\<close> and \<open>error.rs\<close>: the
  structure a holder advertises, its translation to and from the engagement type of the
  \<open>isomdl\<close> crate, its CBOR and QR forms with their size limits, and the one-use private key
  behind it. Clones of an engagement share that key through an \<open>Arc<Mutex<..>>\<close>, so it is a cell
  of an explicit store and an engagement holds its address. CBOR, the QR alphabet, UUID texts and
  the validation of curve points are arguments (\<open>engagement_env\<close>).
\<close>

subsection \<open>Errors and constants\<close>

datatype Error =
    SessionEstablishment ustr | InvalidState ustr | Timeout | Encryption ustr | Decryption ustr
  | CborEncode ustr | CborDecode ustr | Crypto ustr | Verification ustr | Transport ustr
  | TransportNotSupported | ConnectionFailed ustr | SendFailed ustr | ReceiveFailed ustr | QrCode ustr
  | InvalidEngagement ustr | InvalidRequest ustr | InvalidResponse ustr | CredentialNotFound
  | ConsentDenied | Io ustr | Other ustr

definition MAX_DEVICE_ENGAGEMENT_CBOR_BYTES :: nat where "MAX_DEVICE_ENGAGEMENT_CBOR_BYTES = 64 * 1024"
definition MAX_DEVICE_ENGAGEMENT_QR_URI_BYTES :: nat where "MAX_DEVICE_ENGAGEMENT_QR_URI_BYTES = 90 * 1024"
definition MAX_DEVICE_RETRIEVAL_METHODS :: nat where "MAX_DEVICE_RETRIEVAL_METHODS = 8"
definition MAX_TRANSPORT_PARAMETERS :: nat where "MAX_TRANSPORT_PARAMETERS = 16"
definition MAX_TRANSPORT_PARAMETER_NAME_BYTES :: nat where "MAX_TRANSPORT_PARAMETER_NAME_BYTES = 64"
definition MAX_TRANSPORT_PARAMETER_VALUE_BYTES :: nat where "MAX_TRANSPORT_PARAMETER_VALUE_BYTES = 4096"

subsection \<open>Data\<close>

datatype TransportMethod = BLE | NFC | WiFiAware | HTTPS

datatype EngagementMethod = EngagementQR | EngagementNFC

record TransportInfo =
  transport_method :: TransportMethod
  parameters :: "(ustr \<times> bytes) list"

type_synonym cell = nat

record DeviceEngagement =
  version :: ustr
  transports :: "TransportInfo list"
  engagement_method :: EngagementMethod
  device_key :: bytes
  device_data :: "(ustr \<times> bytes) list option"
  ephemeral_key :: "cell option"

text \<open>The types of \<open>isomdl\<close> that the translation builds and inspects.\<close>

datatype EC2Curve = P256 | OtherCurve nat
datatype EC2Y = Value bytes | SignBit bool
datatype 'i CoseKey = EC2 EC2Curve bytes EC2Y | OtherKey 'i

type_synonym uuid = "bytes"

datatype 'i DeviceRetrievalMethod = BleMethod "uuid option" "uuid option" | NfcMethod 'i | WifiMethod 'i

record 'i IsoEngagement =
  iso_version :: ustr
  iso_security :: "nat \<times> 'i CoseKey"
  iso_retrieval :: "'i DeviceRetrievalMethod list option"
  iso_server :: "'i option"
  iso_protocol_info :: "'i option"

text \<open>
  \<open>tag24_key\<close> and \<open>tag24_engagement\<close> wrap a value in an encoded CBOR tag and may fail;
  \<open>cbor_from_reader\<close> also returns the number of bytes it consumed; \<open>from_qr_code_uri\<close> returns the
  inner bytes of the tagged engagement.
\<close>

record 'i engagement_env =
  tag24_key :: "'i CoseKey \<Rightarrow> ustr + unit"
  tag24_engagement :: "'i IsoEngagement \<Rightarrow> ustr + unit"
  cbor_to_vec :: "'i IsoEngagement \<Rightarrow> ustr + bytes"
  cbor_from_reader :: "bytes \<Rightarrow> ustr + ('i IsoEngagement \<times> nat)"
  to_qr_code_uri :: "'i IsoEngagement \<Rightarrow> ustr + ustr"
  from_qr_code_uri :: "ustr \<Rightarrow> ustr + bytes"
  uuid_parse :: "ustr \<Rightarrow> ustr + uuid"
  uuid_hyphenated :: "uuid \<Rightarrow> ustr"
  p256_from_sec1 :: "bytes \<Rightarrow> ustr + unit"
  nfc_options_default :: 'i

definition validate_p256_public_key :: "('i, 'x) engagement_env_scheme \<Rightarrow> bytes \<Rightarrow> (unit, Error) result" where
  "validate_p256_public_key env key = lift_err (\<lambda>m. Crypto (lit ''Invalid P-256 public key: '' @ m)) (p256_from_sec1 env key)"

subsection \<open>Building an engagement\<close>

definition validate_transport :: "TransportInfo \<Rightarrow> (unit, Error) result" where
  "validate_transport t =
     rbind (ensure (\<not> length (parameters t) > MAX_TRANSPORT_PARAMETERS)
              (InvalidEngagement (lit ''too many transport parameters; maximum is '' @ dec_text MAX_TRANSPORT_PARAMETERS))) (\<lambda>_.
     ensure (\<not> list_ex (\<lambda>(name, v). str_len name > MAX_TRANSPORT_PARAMETER_NAME_BYTES
                              \<or> length v > MAX_TRANSPORT_PARAMETER_VALUE_BYTES) (parameters t))
       (InvalidEngagement (lit ''transport parameter exceeds its encoded size limit'')))"

primrec validate_transports :: "TransportInfo list \<Rightarrow> (unit, Error) result" where
  "validate_transports [] = Ok ()"
| "validate_transports (t # ts) = rbind (validate_transport t) (\<lambda>_. validate_transports ts)"

definition validate_resource_bounds :: "DeviceEngagement \<Rightarrow> (unit, Error) result" where
  "validate_resource_bounds e =
     rbind (ensure (\<not> length (transports e) > MAX_DEVICE_RETRIEVAL_METHODS)
              (InvalidEngagement (lit ''too many retrieval methods; maximum is '' @ dec_text MAX_DEVICE_RETRIEVAL_METHODS))) (\<lambda>_.
     validate_transports (transports e))"

text \<open>
  The store of one-use keys: the contents of a cell, \<open>None\<close> once taken. A new engagement gets a
  generated key pair, whose public key is \<open>pub k\<close>, in a fresh cell. The mutex around a cell is
  only held for \<open>Option::take\<close>, which does not panic, so it is never poisoned.
\<close>

type_synonym 'k cells = "cell \<rightharpoonup> 'k option"

definition new_qr :: "('k \<Rightarrow> bytes) \<Rightarrow> 'k \<Rightarrow> cell \<Rightarrow> 'k cells \<Rightarrow> DeviceEngagement \<times> 'k cells" where
  "new_qr pub k a cells =
     (\<lparr>version = lit ''1.0'', transports = [], engagement_method = EngagementQR, device_key = pub k,
       device_data = None, ephemeral_key = Some a\<rparr>,
      cells(a \<mapsto> Some k))"

definition add_ble_transport :: "ustr \<Rightarrow> DeviceEngagement \<Rightarrow> DeviceEngagement" where
  "add_ble_transport service_uuid e =
     e\<lparr>transports := transports e
        @ [\<lparr>transport_method = BLE, parameters = [(lit ''serviceUuid'', as_bytes service_uuid)]\<rparr>]\<rparr>"

definition add_nfc_transport :: "DeviceEngagement \<Rightarrow> DeviceEngagement" where
  "add_nfc_transport e = e\<lparr>transports := transports e @ [\<lparr>transport_method = NFC, parameters = []\<rparr>]\<rparr>"

definition add_https_transport :: "ustr \<Rightarrow> DeviceEngagement \<Rightarrow> DeviceEngagement" where
  "add_https_transport url e =
     e\<lparr>transports := transports e @ [\<lparr>transport_method = HTTPS, parameters = [(lit ''url'', as_bytes url)]\<rparr>]\<rparr>"

definition take_ephemeral_key_pair :: "DeviceEngagement \<Rightarrow> 'k cells \<Rightarrow> ('k, Error) result \<times> 'k cells" where
  "take_ephemeral_key_pair e cells =
     (case ephemeral_key e of
        None \<Rightarrow> (Err (InvalidEngagement (lit ''holder session requires a locally generated DeviceEngagement key'')), cells)
      | Some a \<Rightarrow>
          (case cells a of
             Some (Some k) \<Rightarrow> (Ok k, cells(a \<mapsto> None))
           | _ \<Rightarrow> (Err (InvalidState (lit ''DeviceEngagement key was already consumed'')), cells)))"

subsection \<open>Translation to and from the ISO structure\<close>

definition cose_key_from_sec1 :: "bytes \<Rightarrow> ('i CoseKey, Error) result" where
  "cose_key_from_sec1 key =
     rbind (ensure (\<not> (length key \<noteq> 65 \<or> get_at key 0 \<noteq> Some 0x04))
              (InvalidEngagement (lit ''EDeviceKey must be an uncompressed P-256 point''))) (\<lambda>_.
     rbind (slice key 1 33) (\<lambda>x.
     rbind (slice key 33 65) (\<lambda>y.
     Ok (EC2 P256 x (Value y)))))"

definition cose_key_to_sec1 :: "('i, 'x) engagement_env_scheme \<Rightarrow> 'i CoseKey \<Rightarrow> (bytes, Error) result" where
  "cose_key_to_sec1 env key =
     (case key of
        EC2 P256 x (Value y) \<Rightarrow>
          if length x = 32 \<and> length y = 32 then
            (let public_key = 0x04 # x @ y in
             rbind (validate_p256_public_key env public_key) (\<lambda>_. Ok public_key))
          else Err (InvalidEngagement (lit ''only an uncompressed P-256 EDeviceKey is supported''))
      | _ \<Rightarrow> Err (InvalidEngagement (lit ''only an uncompressed P-256 EDeviceKey is supported'')))"

definition to_retrieval_method ::
    "('i, 'x) engagement_env_scheme \<Rightarrow> TransportInfo \<Rightarrow> ('i DeviceRetrievalMethod, Error) result" where
  "to_retrieval_method env t =
     (case transport_method t of
        BLE \<Rightarrow>
          rbind (ok_or (map_of (parameters t) (lit ''serviceUuid''))
                   (InvalidEngagement (lit ''BLE transport is missing serviceUuid''))) (\<lambda>v.
          rbind (ok_or (from_utf8 v) (InvalidEngagement (lit ''BLE serviceUuid is not UTF-8''))) (\<lambda>s.
          rbind (lift_err (\<lambda>m. InvalidEngagement (lit ''invalid BLE serviceUuid: '' @ m)) (uuid_parse env s)) (\<lambda>u.
          Ok (BleMethod (Some u) None))))
      | NFC \<Rightarrow> Ok (NfcMethod (nfc_options_default env))
      | WiFiAware \<Rightarrow> Err (InvalidEngagement (lit ''Wi-Fi Aware parameters are not implemented''))
      | HTTPS \<Rightarrow> Err (InvalidEngagement
          (lit ''HTTPS is a server-retrieval transport and cannot be encoded as a device retrieval method'')))"

primrec traverse :: "('a \<Rightarrow> ('b, 'e) result) \<Rightarrow> 'a list \<Rightarrow> ('b list, 'e) result" where
  "traverse f [] = Ok []"
| "traverse f (x # xs) = rbind (f x) (\<lambda>y. rbind (traverse f xs) (\<lambda>ys. Ok (y # ys)))"

definition to_iso :: "('i, 'x) engagement_env_scheme \<Rightarrow> DeviceEngagement \<Rightarrow> ('i IsoEngagement, Error) result" where
  "to_iso env e =
     rbind (validate_resource_bounds e) (\<lambda>_.
     rbind (ensure (version e = lit ''1.0'')
              (InvalidEngagement (lit ''unsupported DeviceEngagement version '' @ version e))) (\<lambda>_.
     rbind (ensure (device_data e = None)
              (InvalidEngagement (lit ''device_data cannot be encoded as ISO 18013-5 protocolInfo''))) (\<lambda>_.
     rbind (cose_key_from_sec1 (device_key e)) (\<lambda>key.
     rbind (lift_err InvalidEngagement (tag24_key env key)) (\<lambda>_.
     rbind (traverse (to_retrieval_method env) (transports e)) (\<lambda>methods.
     Ok \<lparr>iso_version = version e, iso_security = (1, key),
         iso_retrieval = (if methods = [] then None else Some methods), iso_server = None, iso_protocol_info = None\<rparr>))))))"

definition from_retrieval_method ::
    "('i, 'x) engagement_env_scheme \<Rightarrow> 'i DeviceRetrievalMethod \<Rightarrow> (TransportInfo, Error) result" where
  "from_retrieval_method env m =
     (case m of
        BleMethod peripheral central \<Rightarrow>
          rbind (case (peripheral, central) of
                   (Some u, _) \<Rightarrow> Ok u
                 | (None, Some u) \<Rightarrow> Ok u
                 | (None, None) \<Rightarrow> Err (InvalidEngagement (lit ''BLE retrieval method enables neither mode''))) (\<lambda>u.
          Ok \<lparr>transport_method = BLE, parameters = [(lit ''serviceUuid'', as_bytes (uuid_hyphenated env u))]\<rparr>)
      | NfcMethod _ \<Rightarrow> Ok \<lparr>transport_method = NFC, parameters = []\<rparr>
      | WifiMethod _ \<Rightarrow> Err (InvalidEngagement (lit ''Wi-Fi Aware parameters are not implemented'')))"

definition from_iso :: "('i, 'x) engagement_env_scheme \<Rightarrow> 'i IsoEngagement \<Rightarrow> (DeviceEngagement, Error) result" where
  "from_iso env v =
     rbind (ensure (\<not> (iso_version v \<noteq> lit ''1.0'' \<or> fst (iso_security v) \<noteq> 1))
              (InvalidEngagement (lit ''unsupported DeviceEngagement version or cipher suite''))) (\<lambda>_.
     rbind (ensure (\<not> (iso_server v \<noteq> None \<or> iso_protocol_info v \<noteq> None))
              (InvalidEngagement (lit ''server retrieval and protocolInfo are not supported''))) (\<lambda>_.
     rbind (cose_key_to_sec1 env (snd (iso_security v))) (\<lambda>key.
     rbind (case iso_retrieval v of None \<Rightarrow> Ok [] | Some methods \<Rightarrow> traverse (from_retrieval_method env) methods) (\<lambda>ts.
     let e = \<lparr>version = iso_version v, transports = ts, engagement_method = EngagementQR, device_key = key,
              device_data = None, ephemeral_key = None\<rparr> in
     rbind (validate_resource_bounds e) (\<lambda>_. Ok e)))))"

subsection \<open>CBOR and QR forms\<close>

definition to_cbor :: "('i, 'x) engagement_env_scheme \<Rightarrow> DeviceEngagement \<Rightarrow> (bytes, Error) result" where
  "to_cbor env e = rbind (to_iso env e) (\<lambda>v. lift_err InvalidEngagement (cbor_to_vec env v))"

definition from_cbor :: "('i, 'x) engagement_env_scheme \<Rightarrow> bytes \<Rightarrow> (DeviceEngagement, Error) result" where
  "from_cbor env data =
     rbind (ensure (\<not> length data > MAX_DEVICE_ENGAGEMENT_CBOR_BYTES)
              (InvalidEngagement (lit ''DeviceEngagement CBOR exceeds '' @ dec_text MAX_DEVICE_ENGAGEMENT_CBOR_BYTES @ lit '' bytes''))) (\<lambda>_.
     rbind (lift_err CborDecode (cbor_from_reader env data)) (\<lambda>(v, position).
     rbind (ensure (position = length data) (InvalidEngagement (lit ''trailing bytes after DeviceEngagement''))) (\<lambda>_.
     from_iso env v)))"

definition to_qr_uri :: "('i, 'x) engagement_env_scheme \<Rightarrow> DeviceEngagement \<Rightarrow> (ustr, Error) result" where
  "to_qr_uri env e =
     rbind (to_iso env e) (\<lambda>v.
     rbind (lift_err InvalidEngagement (tag24_engagement env v)) (\<lambda>_.
     lift_err QrCode (to_qr_code_uri env v)))"

definition from_qr_uri :: "('i, 'x) engagement_env_scheme \<Rightarrow> ustr \<Rightarrow> (DeviceEngagement, Error) result" where
  "from_qr_uri env uri =
     rbind (ensure (\<not> str_len uri > MAX_DEVICE_ENGAGEMENT_QR_URI_BYTES)
              (InvalidEngagement (lit ''DeviceEngagement QR URI exceeds '' @ dec_text MAX_DEVICE_ENGAGEMENT_QR_URI_BYTES @ lit '' bytes''))) (\<lambda>_.
     rbind (lift_err InvalidEngagement (from_qr_code_uri env uri)) (\<lambda>inner_bytes.
     from_cbor env inner_bytes))"

subsection \<open>Round trip\<close>

text \<open>What the code relies on: the decoders of CBOR, QR payloads and UUID texts invert their encoders.\<close>

definition engagement_codecs :: "('i, 'x) engagement_env_scheme \<Rightarrow> bool" where
  "engagement_codecs env \<longleftrightarrow>
     (\<forall>v d. cbor_to_vec env v = Inr d \<longrightarrow> cbor_from_reader env d = Inr (v, length d))
     \<and> (\<forall>v u. to_qr_code_uri env v = Inr u \<longrightarrow> (\<exists>d. cbor_to_vec env v = Inr d \<and> from_qr_code_uri env u = Inr d))
     \<and> (\<forall>s u. uuid_parse env s = Inr u \<longrightarrow> uuid_parse env (uuid_hyphenated env u) = Inr u)
     \<and> (\<forall>u. is_ascii (uuid_hyphenated env u) \<and> length (uuid_hyphenated env u) = 36)"

lemma ascii_bytes_length: "is_ascii s \<Longrightarrow> length (as_bytes s) = length s"
  by (induction s) (auto simp: is_ascii_def as_bytes_def utf8_encode_def)

lemma retrieval_method_roundtrip:
  assumes "engagement_codecs env" and "to_retrieval_method env t = Ok m"
  obtains t' where "from_retrieval_method env m = Ok t'" "to_retrieval_method env t' = Ok m"
    "transport_method t' = transport_method t" "validate_transport t' = Ok ()"
proof (cases "transport_method t")
  case BLE
  then obtain u where m: "m = BleMethod (Some u) None" and u: "uuid_parse env (uuid_hyphenated env u) = Inr u"
    using assms by (auto simp: to_retrieval_method_def engagement_codecs_def)
  have a: "is_ascii (uuid_hyphenated env u)" "length (uuid_hyphenated env u) = 36"
    using assms(1) by (auto simp: engagement_codecs_def)
  let ?t = "\<lparr>transport_method = BLE, parameters = [(lit ''serviceUuid'', as_bytes (uuid_hyphenated env u))]\<rparr>"
  have "str_len (lit ''serviceUuid'') = 11" by code_simp
  then have "validate_transport ?t = Ok ()"
    using a by (simp add: validate_transport_def ascii_bytes_length MAX_TRANSPORT_PARAMETERS_def
        MAX_TRANSPORT_PARAMETER_NAME_BYTES_def MAX_TRANSPORT_PARAMETER_VALUE_BYTES_def)
  moreover have "to_retrieval_method env ?t = Ok m"
    using a u by (simp add: to_retrieval_method_def m from_utf8_ascii)
  moreover have "from_retrieval_method env m = Ok ?t" by (simp add: from_retrieval_method_def m)
  ultimately show ?thesis using that [of ?t] BLE by simp
next
  case NFC
  then show ?thesis
    using assms(2) that [of "\<lparr>transport_method = NFC, parameters = []\<rparr>"]
    by (auto simp: to_retrieval_method_def from_retrieval_method_def validate_transport_def)
qed (use assms(2) in \<open>simp_all add: to_retrieval_method_def\<close>)

lemma retrieval_methods_roundtrip:
  assumes "engagement_codecs env"
  shows "traverse (to_retrieval_method env) ts = Ok ms \<Longrightarrow>
    \<exists>ts'. traverse (from_retrieval_method env) ms = Ok ts' \<and> traverse (to_retrieval_method env) ts' = Ok ms
      \<and> map transport_method ts' = map transport_method ts \<and> validate_transports ts' = Ok ()"
proof (induction ts arbitrary: ms)
  case (Cons t ts)
  then obtain m ms' where m: "to_retrieval_method env t = Ok m" "ms = m # ms'" "traverse (to_retrieval_method env) ts = Ok ms'"
    by auto
  from Cons.IH [OF m(3)] obtain ts' where ts': "traverse (from_retrieval_method env) ms' = Ok ts'"
    "traverse (to_retrieval_method env) ts' = Ok ms'" "map transport_method ts' = map transport_method ts" "validate_transports ts' = Ok ()"
    by blast
  obtain t' where "from_retrieval_method env m = Ok t'" "to_retrieval_method env t' = Ok m"
    "transport_method t' = transport_method t" "validate_transport t' = Ok ()"
    by (rule retrieval_method_roundtrip [OF assms m(1)])
  with ts' m(2) show ?case by (intro exI [of _ "t' # ts'"]) simp
qed simp

lemma cose_key_roundtrip:
  assumes "cose_key_from_sec1 key = Ok ck" and "p256_from_sec1 env key = Inr ()"
  shows "cose_key_to_sec1 env ck = Ok key"
proof -
  have len: "length key = 65" and hd: "key ! 0 = 4" and ck: "ck = EC2 P256 (take 32 (drop 1 key)) (Value (take 32 (drop 33 key)))"
    using assms(1) by (auto simp: cose_key_from_sec1_def get_at_def slice_def split: if_splits)
  have "key = 4 # drop 1 key" using hd len by (cases key) auto
  moreover have "drop 1 key = take 32 (drop 1 key) @ drop 33 key" by (metis append_take_drop_id drop_drop numeral_plus_one semiring_norm(5))
  moreover have "take 32 (drop 33 key) = drop 33 key" using len by simp
  ultimately have "4 # take 32 (drop 1 key) @ take 32 (drop 33 key) = key" by simp
  then show ?thesis using len assms(2) by (simp add: ck cose_key_to_sec1_def validate_p256_public_key_def Let_def)
qed

lemma iso_roundtrip:
  assumes codecs: "engagement_codecs env" and iso: "to_iso env e = Ok v" and key: "p256_from_sec1 env (device_key e) = Inr ()"
  shows "\<exists>e'. from_iso env v = Ok e' \<and> to_iso env e' = Ok v \<and> device_key e' = device_key e \<and> ephemeral_key e' = None
     \<and> map transport_method (transports e') = map transport_method (transports e)"
proof -
  obtain ck ms where v: "cose_key_from_sec1 (device_key e) = Ok ck" "traverse (to_retrieval_method env) (transports e) = Ok ms"
      "v = \<lparr>iso_version = version e, iso_security = (1, ck), iso_retrieval = (if ms = [] then None else Some ms),
            iso_server = None, iso_protocol_info = None\<rparr>"
      "validate_resource_bounds e = Ok ()" "version e = lit ''1.0''" "tag24_key env ck = Inr ()"
    using iso by (auto simp: to_iso_def)
  obtain ts where ts: "traverse (from_retrieval_method env) ms = Ok ts" "traverse (to_retrieval_method env) ts = Ok ms"
      "map transport_method ts = map transport_method (transports e)" "validate_transports ts = Ok ()"
    using retrieval_methods_roundtrip [OF codecs v(2)] by blast
  let ?e = "\<lparr>version = version e, transports = ts, engagement_method = EngagementQR, device_key = device_key e,
      device_data = None, ephemeral_key = None\<rparr>"
  have "length ts = length (transports e)" using ts(3) by (metis length_map)
  then have bounds: "validate_resource_bounds ?e = Ok ()" using v(4) ts(4) by (simp add: validate_resource_bounds_def)
  have "(case iso_retrieval v of None \<Rightarrow> Ok [] | Some methods \<Rightarrow> traverse (from_retrieval_method env) methods) = Ok ts"
    using ts(1) by (auto simp: v(3))
  then have "from_iso env v = Ok ?e"
    using bounds cose_key_roundtrip [OF v(1) key] by (simp add: from_iso_def v(3,5))
  moreover have "to_iso env ?e = Ok v" using bounds v ts(2) by (simp add: to_iso_def)
  ultimately show ?thesis using ts(3) by auto
qed

lemma engagement_decodes:
  assumes "engagement_codecs env" and "p256_from_sec1 env (device_key e) = Inr ()"
    and "to_cbor env e = Ok d" and "length d \<le> MAX_DEVICE_ENGAGEMENT_CBOR_BYTES"
  shows "\<exists>e'. from_cbor env d = Ok e' \<and> to_cbor env e' = Ok d \<and> device_key e' = device_key e \<and> ephemeral_key e' = None
     \<and> map transport_method (transports e') = map transport_method (transports e)
     \<and> (\<forall>uri. to_qr_uri env e = Ok uri \<longrightarrow> str_len uri \<le> MAX_DEVICE_ENGAGEMENT_QR_URI_BYTES \<longrightarrow> from_qr_uri env uri = Ok e')"
proof -
  obtain v where v: "to_iso env e = Ok v" "cbor_to_vec env v = Inr d" using assms(3) by (auto simp: to_cbor_def)
  obtain e' where e': "from_iso env v = Ok e'" "to_iso env e' = Ok v" "device_key e' = device_key e" "ephemeral_key e' = None"
      "map transport_method (transports e') = map transport_method (transports e)"
    using iso_roundtrip [OF assms(1) v(1) assms(2)] by blast
  have decoded: "from_cbor env d = Ok e'"
    using assms(1,4) v(2) e'(1) by (auto simp: from_cbor_def engagement_codecs_def)
  have "from_qr_uri env uri = Ok e'" if "to_qr_uri env e = Ok uri" "str_len uri \<le> MAX_DEVICE_ENGAGEMENT_QR_URI_BYTES" for uri
  proof -
    have "to_qr_code_uri env v = Inr uri" using that(1) v(1) by (auto simp: to_qr_uri_def)
    then obtain d' where "cbor_to_vec env v = Inr d'" "from_qr_code_uri env uri = Inr d'"
      using assms(1) unfolding engagement_codecs_def by blast
    then have "from_qr_code_uri env uri = Inr d" using v(2) by simp
    then show ?thesis using that(2) decoded by (simp add: from_qr_uri_def)
  qed
  moreover have "to_cbor env e' = Ok d" using e'(2) v(2) by (simp add: to_cbor_def)
  ultimately show ?thesis using decoded e' by blast
qed


text \<open>An engagement with a BLE and an NFC transport, and codecs that know its encoding.\<close>

definition sample_point :: bytes where
  "sample_point = 4 # replicate 64 7"

definition sample_iso :: "unit IsoEngagement" where
  "sample_iso = \<lparr>iso_version = lit ''1.0'', iso_security = (1, EC2 P256 (replicate 32 7) (Value (replicate 32 7))),
     iso_retrieval = Some [BleMethod (Some [1, 2]) None, NfcMethod ()], iso_server = None, iso_protocol_info = None\<rparr>"

definition sample_uuid :: ustr where
  "sample_uuid = replicate 36 48"

definition sample_engagement_env :: "unit engagement_env" where
  "sample_engagement_env = \<lparr>tag24_key = (\<lambda>_. Inr ()), tag24_engagement = (\<lambda>_. Inr ()),
     cbor_to_vec = (\<lambda>v. if v = sample_iso then Inr [0xA3, 1] else Inl []),
     cbor_from_reader = (\<lambda>d. if d = [0xA3, 1] then Inr (sample_iso, 2) else Inl []),
     to_qr_code_uri = (\<lambda>v. if v = sample_iso then Inr (lit ''mdoc:owE'') else Inl []),
     from_qr_code_uri = (\<lambda>u. if u = lit ''mdoc:owE'' then Inr [0xA3, 1] else Inl []),
     uuid_parse = (\<lambda>s. if s = sample_uuid then Inr [1, 2] else Inl []), uuid_hyphenated = (\<lambda>_. sample_uuid),
     p256_from_sec1 = (\<lambda>p. if p = sample_point then Inr () else Inl []), nfc_options_default = ()\<rparr>"

definition sample_engagement :: DeviceEngagement where
  "sample_engagement = add_nfc_transport (add_ble_transport sample_uuid (fst (new_qr (\<lambda>_. sample_point) () 0 Map.empty)))"

lemma sample_codecs: "engagement_codecs sample_engagement_env"
  by (auto simp: engagement_codecs_def sample_engagement_env_def sample_uuid_def is_ascii_def list_all_iff split: if_splits)


end
