(* ===== verification/MdlSession.thy ===== *)
theory MdlSession
  imports MdlEngagement "HOL-Library.Sublist"
begin

text \<open>
  Sessions of ISO 18013-5, after \<open>marty-iso18013/src/session.rs\<close> and \<open>protocol.rs\<close>, with the key
  derivation of \<open>marty-crypto/src/kdf.rs\<close> and the AES-GCM wrappers of \<open>symmetric.rs\<close>. A session is
  shared behind \<open>RwLock\<close>s, and a call that fails may still have changed it; an operation is
  therefore a function from a session to an outcome and a session. Every \<open>Instant::now()\<close> is an
  argument, in nanoseconds. The parts of a call that run under one lock are definitions of their
  own, so that calls that interleave are sequences of such sections.
\<close>

subsection \<open>Keys and authenticated encryption\<close>

text \<open>
  Third-party code: AES-256-GCM (\<open>gcm_seal\<close>, \<open>gcm_open\<close> with key, nonce, additional data), HKDF
  with an optional salt, SHA-256, P-256 key pairs, and the CBOR pieces of a session transcript.
\<close>

record ('i, 'k) mdl_env = "'i engagement_env" +
  gcm_seal :: "bytes \<Rightarrow> bytes \<Rightarrow> bytes \<Rightarrow> bytes \<Rightarrow> ustr + bytes"
  gcm_open :: "bytes \<Rightarrow> bytes \<Rightarrow> bytes \<Rightarrow> bytes \<Rightarrow> bytes option"
  hkdf_expand :: "bytes option \<Rightarrow> bytes \<Rightarrow> bytes \<Rightarrow> nat \<Rightarrow> bytes option"
  sha256 :: "bytes \<Rightarrow> bytes"
  p256_public :: "'k \<Rightarrow> bytes"
  p256_dh :: "'k \<Rightarrow> bytes \<Rightarrow> bytes"
  tag24_from_bytes :: "bytes \<Rightarrow> ustr + 'i"
  tag24_reader_key :: "'i CoseKey \<Rightarrow> ustr + 'i"
  tag24_transcript :: "'i \<Rightarrow> 'i \<Rightarrow> ustr + 'i"
  transcript_to_vec :: "'i \<Rightarrow> ustr + bytes"

definition hkdf_sha256 ::
    "('i, 'k, 'x) mdl_env_scheme \<Rightarrow> bytes \<Rightarrow> bytes \<Rightarrow> bytes \<Rightarrow> nat \<Rightarrow> (bytes, Error) result" where
  "hkdf_sha256 env ikm salt info len =
     ok_or (hkdf_expand env (if salt = [] then None else Some salt) ikm info len)
       (Crypto (lit ''HKDF expansion failed: output length too long''))"

definition derive_mdl_session_keys ::
    "('i, 'k, 'x) mdl_env_scheme \<Rightarrow> bytes \<Rightarrow> bytes \<Rightarrow> (bytes \<times> bytes, Error) result" where
  "derive_mdl_session_keys env shared_secret session_transcript =
     (let salt = sha256 env session_transcript in
      rbind (hkdf_sha256 env shared_secret salt (as_bytes (lit ''SKDevice'')) 32) (\<lambda>device_key.
      rbind (hkdf_sha256 env shared_secret salt (as_bytes (lit ''SKReader'')) 32) (\<lambda>reader_key.
      Ok (device_key, reader_key))))"

definition aes_256_gcm_encrypt ::
    "('i, 'k, 'x) mdl_env_scheme \<Rightarrow> bytes \<Rightarrow> bytes \<Rightarrow> bytes \<Rightarrow> bytes \<Rightarrow> (bytes, Error) result" where
  "aes_256_gcm_encrypt env key nonce plaintext aad =
     rbind (ensure (length key = 32) (Crypto (lit ''AES-256-GCM requires 32-byte key''))) (\<lambda>_.
     rbind (ensure (length nonce = 12) (Crypto (lit ''AES-GCM requires 12-byte nonce''))) (\<lambda>_.
     lift_err (\<lambda>m. Crypto (lit ''AES-GCM encryption failed: '' @ m)) (gcm_seal env key nonce aad plaintext)))"

definition aes_256_gcm_decrypt ::
    "('i, 'k, 'x) mdl_env_scheme \<Rightarrow> bytes \<Rightarrow> bytes \<Rightarrow> bytes \<Rightarrow> bytes \<Rightarrow> (bytes, Error) result" where
  "aes_256_gcm_decrypt env key nonce ciphertext aad =
     rbind (ensure (length key = 32) (Crypto (lit ''AES-256-GCM requires 32-byte key''))) (\<lambda>_.
     rbind (ensure (length nonce = 12) (Crypto (lit ''AES-GCM requires 12-byte nonce''))) (\<lambda>_.
     ok_or (gcm_open env key nonce aad ciphertext) (Crypto (lit ''AES-GCM decryption failed: authentication failed''))))"

subsection \<open>Message encryption\<close>

datatype SessionDirection = DirReader | DirDevice

fun peer :: "SessionDirection \<Rightarrow> SessionDirection" where
  "peer DirDevice = DirReader"
| "peer DirReader = DirDevice"

fun iv_marker :: "SessionDirection \<Rightarrow> u8" where
  "iv_marker DirReader = 0"
| "iv_marker DirDevice = 1"

record SessionEncryption =
  send_key :: bytes
  receive_key :: bytes
  send_counter :: "32 word"
  receive_counter :: "32 word"
  send_direction :: SessionDirection
  receive_direction :: SessionDirection

definition new_directional ::
    "('i, 'k, 'x) mdl_env_scheme \<Rightarrow> bytes \<Rightarrow> bytes \<Rightarrow> SessionDirection \<Rightarrow> (SessionEncryption, Error) result" where
  "new_directional env shared_secret session_transcript direction =
     rbind (derive_mdl_session_keys env shared_secret session_transcript) (\<lambda>(device_key, reader_key).
     let (own, other) = (case direction of DirDevice \<Rightarrow> (device_key, reader_key) | DirReader \<Rightarrow> (reader_key, device_key)) in
     Ok \<lparr>send_key = own, receive_key = other, send_counter = 0, receive_counter = 0,
         send_direction = direction, receive_direction = peer direction\<rparr>)"

text \<open>\<open>u32::checked_add(1)\<close>, \<open>u32::to_be_bytes\<close> and the twelve-byte initialization vector.\<close>

definition checked_succ :: "32 word \<Rightarrow> 32 word option" where
  "checked_succ c = (if c = - 1 then None else Some (c + 1))"

definition be32 :: "32 word \<Rightarrow> bytes" where
  "be32 w = [ucast (drop_bit 24 w), ucast (drop_bit 16 w), ucast (drop_bit 8 w), ucast w]"

definition message_iv :: "SessionDirection \<Rightarrow> 32 word \<Rightarrow> bytes" where
  "message_iv d counter = replicate 7 0 @ [iv_marker d] @ be32 counter"

definition encrypt ::
    "('i, 'k, 'x) mdl_env_scheme \<Rightarrow> bytes \<Rightarrow> SessionEncryption \<Rightarrow> (bytes, Error) result \<times> SessionEncryption" where
  "encrypt env plaintext e =
     (case checked_succ (send_counter e) of
        None \<Rightarrow> (Err (Encryption (lit ''message counter exhausted'')), e)
      | Some next \<Rightarrow>
          (case aes_256_gcm_encrypt env (send_key e) (message_iv (send_direction e) next) plaintext [] of
             Ok ciphertext \<Rightarrow> (Ok ciphertext, e\<lparr>send_counter := next\<rparr>)
           | Err x \<Rightarrow> (Err x, e)
           | Panic \<Rightarrow> (Panic, e)))"

definition decrypt ::
    "('i, 'k, 'x) mdl_env_scheme \<Rightarrow> bytes \<Rightarrow> SessionEncryption \<Rightarrow> (bytes, Error) result \<times> SessionEncryption" where
  "decrypt env ciphertext e =
     (case checked_succ (receive_counter e) of
        None \<Rightarrow> (Err (Decryption (lit ''message counter exhausted'')), e)
      | Some next \<Rightarrow>
          (case aes_256_gcm_decrypt env (receive_key e) (message_iv (receive_direction e) next) ciphertext [] of
             Ok plaintext \<Rightarrow> (Ok plaintext, e\<lparr>receive_counter := next\<rparr>)
           | Err x \<Rightarrow> (Err x, e)
           | Panic \<Rightarrow> (Panic, e)))"

subsection \<open>Key agreement\<close>

record 'k SessionKeyAgreement =
  key_pair :: "'k option"
  agreement_public_key :: bytes
  peer_public_key :: "bytes option"

definition from_key_pair :: "('i, 'k, 'x) mdl_env_scheme \<Rightarrow> 'k \<Rightarrow> 'k SessionKeyAgreement" where
  "from_key_pair env k = \<lparr>key_pair = Some k, agreement_public_key = p256_public env k, peer_public_key = None\<rparr>"

definition clear_private_state :: "'k SessionKeyAgreement \<Rightarrow> 'k SessionKeyAgreement" where
  "clear_private_state ka = ka\<lparr>key_pair := None, peer_public_key := None\<rparr>"

definition validate_and_set_peer_key ::
    "('i, 'k, 'x) mdl_env_scheme \<Rightarrow> bytes \<Rightarrow> 'k SessionKeyAgreement \<Rightarrow> (unit, Error) result \<times> 'k SessionKeyAgreement" where
  "validate_and_set_peer_key env peer_key ka =
     (case validate_p256_public_key env peer_key of
        Ok _ \<Rightarrow> (Ok (), ka\<lparr>peer_public_key := Some peer_key\<rparr>)
      | Err x \<Rightarrow> (Err x, ka)
      | Panic \<Rightarrow> (Panic, ka))"

definition agree :: "('i, 'k, 'x) mdl_env_scheme \<Rightarrow> 'k \<Rightarrow> bytes \<Rightarrow> (bytes, Error) result" where
  "agree env k peer_public =
     rbind (lift_err (\<lambda>m. Crypto (lit ''Invalid P-256 public key: '' @ m)) (p256_from_sec1 env peer_public)) (\<lambda>_.
     Ok (p256_dh env k peer_public))"

definition derive_shared_secret ::
    "('i, 'k, 'x) mdl_env_scheme \<Rightarrow> 'k SessionKeyAgreement \<Rightarrow> (bytes, Error) result \<times> 'k SessionKeyAgreement" where
  "derive_shared_secret env ka =
     (case peer_public_key ka of
        None \<Rightarrow> (Err (InvalidState (lit ''Peer public key not set'')), ka)
      | Some peer_key \<Rightarrow>
          (case key_pair ka of
             None \<Rightarrow> (Err (InvalidState (lit ''ECDH agreement already consumed'')), ka)
           | Some k \<Rightarrow> (agree env k peer_key, ka\<lparr>key_pair := None\<rparr>)))"

subsection \<open>Sessions\<close>

definition MAX_SESSION_MESSAGE_BYTES :: nat where "MAX_SESSION_MESSAGE_BYTES = 1024 * 1024"
definition MAX_SESSION_TIMEOUT_SECS :: nat where "MAX_SESSION_TIMEOUT_SECS = 60 * 60"

datatype SessionState = Idle | Engagement | Establishing | Established | Processing | Responding | Terminated

record SessionConfig =
  timeout_secs :: nat
  max_message_size :: nat
  verbose :: bool

definition default_config :: SessionConfig where
  "default_config = \<lparr>timeout_secs = 300, max_message_size = 1024 * 1024, verbose = False\<rparr>"

definition validate_timeout :: "nat \<Rightarrow> (unit, Error) result" where
  "validate_timeout secs =
     ensure (1 \<le> secs \<and> secs \<le> MAX_SESSION_TIMEOUT_SECS)
       (InvalidRequest (lit ''Session timeout must be between 1 and '' @ dec_text MAX_SESSION_TIMEOUT_SECS @ lit '' seconds''))"

definition validate_config :: "SessionConfig \<Rightarrow> (unit, Error) result" where
  "validate_config config = validate_timeout (timeout_secs config)"

datatype SessionRole = RoleDevice | RoleReader

record 'k Session =
  session_state :: SessionState
  encryption :: "SessionEncryption option"
  key_agreement :: "'k SessionKeyAgreement"
  session_config :: SessionConfig
  deadline :: nat
  session_role :: SessionRole
  engagement_bytes :: bytes
  engagement_device_key :: bytes

text \<open>\<open>Instant::checked_add\<close> in whole seconds: the seconds of an instant are an \<open>i64\<close>.\<close>

definition instant_checked_add :: "nat \<Rightarrow> nat \<Rightarrow> nat option" where
  "instant_checked_add now secs =
     (if now div 10 ^ 9 + secs < 2 ^ 63 then Some (now + secs * 10 ^ 9) else None)"

definition new_for_role ::
    "('i, 'k, 'x) mdl_env_scheme \<Rightarrow> DeviceEngagement \<Rightarrow> SessionConfig \<Rightarrow> 'k SessionKeyAgreement \<Rightarrow> SessionRole \<Rightarrow> nat
       \<Rightarrow> ('k Session, Error) result" where
  "new_for_role env engagement config ka role now =
     rbind (validate_config config) (\<lambda>_.
     rbind (to_cbor env engagement) (\<lambda>bytes.
     rbind (ok_or (instant_checked_add now (timeout_secs config)) (InvalidRequest (lit ''Session timeout is too large''))) (\<lambda>end_time.
     Ok \<lparr>session_state = Engagement, encryption = None, key_agreement = ka, session_config = config, deadline = end_time,
         session_role = role, engagement_bytes = bytes, engagement_device_key = device_key engagement\<rparr>)))"

definition from_engagement ::
    "('i, 'k, 'x) mdl_env_scheme \<Rightarrow> DeviceEngagement \<Rightarrow> SessionConfig \<Rightarrow> nat \<Rightarrow> 'k cells
       \<Rightarrow> ('k Session, Error) result \<times> 'k cells" where
  "from_engagement env engagement config now cells =
     op_bind (validate_config config, cells) (\<lambda>_ cells.
     op_bind (take_ephemeral_key_pair engagement cells) (\<lambda>k cells.
     let ka = from_key_pair env k in
     op_bind (ensure (agreement_public_key ka = device_key engagement)
                (InvalidEngagement (lit ''DeviceEngagement public key does not match its private key'')), cells) (\<lambda>_ cells.
     (new_for_role env engagement config ka RoleDevice now, cells))))"

text \<open>The reader's key pair is generated: it is an argument.\<close>

definition reader_from_engagement ::
    "('i, 'k, 'x) mdl_env_scheme \<Rightarrow> DeviceEngagement \<Rightarrow> SessionConfig \<Rightarrow> 'k \<Rightarrow> nat \<Rightarrow> ('k Session, Error) result" where
  "reader_from_engagement env engagement config k now =
     rbind (validate_config config) (\<lambda>_. new_for_role env engagement config (from_key_pair env k) RoleReader now)"

subsection \<open>Expiry and termination\<close>

definition terminate :: "'k Session \<Rightarrow> (unit, Error) result \<times> 'k Session" where
  "terminate s =
     (Ok (), s\<lparr>session_state := Terminated, encryption := None, key_agreement := clear_private_state (key_agreement s)\<rparr>)"

definition expire_session :: "'k Session \<Rightarrow> 'k Session" where
  "expire_session s =
     s\<lparr>session_state := Terminated, encryption := None, key_agreement := clear_private_state (key_agreement s)\<rparr>"

definition ensure_not_expired :: "nat \<Rightarrow> 'k Session \<Rightarrow> (unit, Error) result \<times> 'k Session" where
  "ensure_not_expired now s = (if now < deadline s then (Ok (), s) else (Err Timeout, expire_session s))"

definition state_of :: "nat \<Rightarrow> 'k Session \<Rightarrow> SessionState \<times> 'k Session" where
  "state_of now s = (let s = snd (ensure_not_expired now s) in (session_state s, s))"

definition public_key :: "nat \<Rightarrow> nat \<Rightarrow> 'k Session \<Rightarrow> (bytes, Error) result \<times> 'k Session" where
  "public_key now later s =
     op_bind (ensure_not_expired now s) (\<lambda>_ s.
     op_bind (ensure (session_state s \<noteq> Terminated) (InvalidState (lit ''Session is terminated'')), s) (\<lambda>_ s.
     if later \<ge> deadline s then (Err Timeout, expire_session s)
     else (Ok (agreement_public_key (key_agreement s)), s)))"

subsection \<open>Establishment\<close>

definition build_session_transcript :: "('i, 'k, 'x) mdl_env_scheme \<Rightarrow> bytes \<Rightarrow> bytes \<Rightarrow> (bytes, Error) result" where
  "build_session_transcript env engagement reader_public_key =
     rbind (lift_err InvalidEngagement (tag24_from_bytes env engagement)) (\<lambda>tagged.
     rbind (cose_key_from_sec1 reader_public_key) (\<lambda>cose_key.
     rbind (lift_err SessionEstablishment (tag24_reader_key env cose_key)) (\<lambda>reader_key.
     rbind (lift_err SessionEstablishment (tag24_transcript env tagged reader_key)) (\<lambda>transcript.
     lift_err SessionEstablishment (transcript_to_vec env transcript)))))"

definition on_agreement ::
    "('k SessionKeyAgreement \<Rightarrow> ('a, Error) result \<times> 'k SessionKeyAgreement) \<Rightarrow> 'k Session \<Rightarrow> ('a, Error) result \<times> 'k Session" where
  "on_agreement f s = (case f (key_agreement s) of (r, ka) \<Rightarrow> (r, s\<lparr>key_agreement := ka\<rparr>))"

definition role_direction :: "SessionRole \<Rightarrow> SessionDirection" where
  "role_direction role = (case role of RoleDevice \<Rightarrow> DirDevice | RoleReader \<Rightarrow> DirReader)"

text \<open>The part of \<open>establish\<close> under the write lock of the state.\<close>

definition establish_locked ::
    "('i, 'k, 'x) mdl_env_scheme \<Rightarrow> nat \<Rightarrow> bytes \<Rightarrow> 'k Session \<Rightarrow> (unit, Error) result \<times> 'k Session" where
  "establish_locked env later peer_key s =
     op_bind (ensure (session_state s = Engagement) (InvalidState (lit ''Cannot establish from current state'')), s) (\<lambda>_ s.
     op_bind (ensure (\<not> (session_role s = RoleReader \<and> peer_key \<noteq> engagement_device_key s))
                (SessionEstablishment (lit ''peer key does not match DeviceEngagement EDeviceKey'')), s) (\<lambda>_ s.
     op_bind (on_agreement (validate_and_set_peer_key env peer_key) s) (\<lambda>_ s.
     let our_public_key = agreement_public_key (key_agreement s) in
     op_bind (on_agreement (derive_shared_secret env) s) (\<lambda>shared_secret s.
     let reader_public_key = (case session_role s of RoleDevice \<Rightarrow> peer_key | RoleReader \<Rightarrow> our_public_key) in
     op_bind (build_session_transcript env (engagement_bytes s) reader_public_key, s) (\<lambda>transcript s.
     op_bind (new_directional env shared_secret transcript (role_direction (session_role s)), s) (\<lambda>e s.
     if later \<ge> deadline s then (Err Timeout, expire_session s)
     else (Ok (), s\<lparr>encryption := Some e, session_state := Established\<rparr>)))))))"

definition establish ::
    "('i, 'k, 'x) mdl_env_scheme \<Rightarrow> nat \<Rightarrow> nat \<Rightarrow> bytes \<Rightarrow> 'k Session \<Rightarrow> (unit, Error) result \<times> 'k Session" where
  "establish env now later peer_key s =
     op_bind (ensure_not_expired now s) (\<lambda>_ s. establish_locked env later peer_key s)"

subsection \<open>Messages\<close>

text \<open>The parts of sending and receiving under the write lock of the encryption state.\<close>

definition encrypt_locked ::
    "('i, 'k, 'x) mdl_env_scheme \<Rightarrow> nat \<Rightarrow> bytes \<Rightarrow> 'k Session \<Rightarrow> (bytes, Error) result \<times> 'k Session" where
  "encrypt_locked env later message s =
     (if later \<ge> deadline s then (Err Timeout, expire_session (s\<lparr>encryption := None\<rparr>))
      else case encryption s of
          None \<Rightarrow> (Err (InvalidState (lit ''Session not established'')), s)
        | Some e \<Rightarrow> (case encrypt env message e of (r, e) \<Rightarrow> (r, s\<lparr>encryption := Some e\<rparr>)))"

definition decrypt_locked ::
    "('i, 'k, 'x) mdl_env_scheme \<Rightarrow> nat \<Rightarrow> bytes \<Rightarrow> 'k Session \<Rightarrow> (bytes, Error) result \<times> 'k Session" where
  "decrypt_locked env later ciphertext s =
     (if later \<ge> deadline s then (Err Timeout, expire_session (s\<lparr>encryption := None\<rparr>))
      else case encryption s of
          None \<Rightarrow> (Err (InvalidState (lit ''Session not established'')), s)
        | Some e \<Rightarrow> (case decrypt env ciphertext e of (r, e) \<Rightarrow> (r, s\<lparr>encryption := Some e\<rparr>)))"

definition message_limit :: "'k Session \<Rightarrow> nat" where
  "message_limit s = min (max_message_size (session_config s)) MAX_SESSION_MESSAGE_BYTES"

definition send_encrypted ::
    "('i, 'k, 'x) mdl_env_scheme \<Rightarrow> nat \<Rightarrow> nat \<Rightarrow> bytes \<Rightarrow> 'k Session \<Rightarrow> (bytes, Error) result \<times> 'k Session" where
  "send_encrypted env now later message s =
     op_bind (ensure_not_expired now s) (\<lambda>_ s.
     op_bind (ensure (session_state s = Established) (InvalidState (lit ''Cannot send outside an established session'')), s) (\<lambda>_ s.
     op_bind (ensure (\<not> length message > message_limit s)
                (InvalidRequest (lit ''Message exceeds '' @ dec_text (message_limit s) @ lit '' byte session limit'')), s) (\<lambda>_ s.
     encrypt_locked env later message s)))"

definition receive_encrypted ::
    "('i, 'k, 'x) mdl_env_scheme \<Rightarrow> nat \<Rightarrow> nat \<Rightarrow> bytes \<Rightarrow> 'k Session \<Rightarrow> (bytes, Error) result \<times> 'k Session" where
  "receive_encrypted env now later ciphertext s =
     op_bind (ensure_not_expired now s) (\<lambda>_ s.
     op_bind (ensure (session_state s = Established) (InvalidState (lit ''Cannot receive outside an established session'')), s) (\<lambda>_ s.
     op_bind (ensure (\<not> length ciphertext > sat_add (message_limit s) 16)
                (InvalidResponse (lit ''Encrypted message exceeds '' @ dec_text (sat_add (message_limit s) 16)
                  @ lit '' byte session limit'')), s) (\<lambda>_ s.
     decrypt_locked env later ciphertext s)))"

subsection \<open>Interleaved calls\<close>

text \<open>
  What concurrent calls can do to a session between two lock operations: the three writes of
  expiry and termination, the locked part of \<open>establish\<close>, and the locked parts of sending and
  receiving. \<open>session_run env s log t\<close> holds when some sequence of these sections leads from \<open>s\<close> to
  \<open>t\<close>; it covers every interleaving of calls. \<open>log\<close> lists the messages sealed on the way, each
  with key, initialization vector, plaintext and ciphertext.
\<close>

type_synonym seal = "bytes \<times> bytes \<times> bytes \<times> bytes"

definition sealed :: "('i, 'k, 'x) mdl_env_scheme \<Rightarrow> nat \<Rightarrow> bytes \<Rightarrow> 'k Session \<Rightarrow> seal list" where
  "sealed env later message s =
     (case (encryption s, encrypt_locked env later message s) of
        (Some e, (Ok c, s')) \<Rightarrow> [(send_key e, message_iv (send_direction e) (send_counter e + 1), message, c)]
      | _ \<Rightarrow> [])"

inductive session_run :: "('i, 'k, 'x) mdl_env_scheme \<Rightarrow> 'k Session \<Rightarrow> seal list \<Rightarrow> 'k Session \<Rightarrow> bool"
  for env :: "('i, 'k, 'x) mdl_env_scheme" and s :: "'k Session" where
  run_start: "session_run env s [] s"
| run_terminated: "session_run env s log t \<Longrightarrow> session_run env s log (t\<lparr>session_state := Terminated\<rparr>)"
| run_drop_encryption: "session_run env s log t \<Longrightarrow> session_run env s log (t\<lparr>encryption := None\<rparr>)"
| run_clear_keys:
    "session_run env s log t \<Longrightarrow> session_run env s log (t\<lparr>key_agreement := clear_private_state (key_agreement t)\<rparr>)"
| run_establish: "session_run env s log t \<Longrightarrow> session_run env s log (snd (establish_locked env later peer_key t))"
| run_encrypt:
    "session_run env s log t \<Longrightarrow> session_run env s (log @ sealed env later m t) (snd (encrypt_locked env later m t))"
| run_decrypt: "session_run env s log t \<Longrightarrow> session_run env s log (snd (decrypt_locked env later c t))"

definition nonce :: "seal \<Rightarrow> bytes \<times> bytes" where
  "nonce x = (fst x, fst (snd x))"

text \<open>The invariant of a run: the sealed messages are numbered from one under one key.\<close>

definition numbered :: "bytes \<Rightarrow> SessionDirection \<Rightarrow> seal list \<Rightarrow> bool" where
  "numbered k d log \<longleftrightarrow> length log < 2 ^ 32 \<and> map nonce log = map (\<lambda>i. (k, message_iv d (of_nat (Suc i)))) [0..<length log]"

definition run_inv :: "'k Session \<Rightarrow> seal list \<Rightarrow> 'k Session \<Rightarrow> bool" where
  "run_inv s log t \<longleftrightarrow> session_role t = session_role s
     \<and> (key_pair (key_agreement t) \<noteq> None \<longrightarrow> encryption t = None \<and> log = [])
     \<and> (\<exists>k. numbered k (role_direction (session_role s)) log
          \<and> (\<forall>e. encryption t = Some e \<longrightarrow> send_key e = k \<and> send_direction e = role_direction (session_role s)
                \<and> unat (send_counter e) = length log))"

lemma numbered_Nil [simp]: "numbered k d []"
  by (simp add: numbered_def)

lemma unat_succ: "c \<noteq> - 1 \<Longrightarrow> unat (c + 1) = Suc (unat c)" for c :: "32 word"
  by (metis add.commute add.inverse_inverse add_eq_0_iff unatSuc)

lemma checked_succ_Some: "checked_succ c = Some n \<Longrightarrow> n = c + 1 \<and> unat n = Suc (unat c)"
  by (auto simp: checked_succ_def unat_succ split: if_splits)

lemma u32_of_nat: "n < 2 ^ 32 \<Longrightarrow> unat (of_nat n :: 32 word) = n"
  by (simp add: unsigned_of_nat take_bit_nat_eq_self)

lemma numbered_snoc:
  assumes "numbered k d log" "unat c = length log" "c \<noteq> - 1" "nonce x = (k, message_iv d (c + 1))"
  shows "numbered k d (log @ [x])"
proof -
  have u: "unat (c + 1) = Suc (length log)" using assms(2,3) by (simp add: unat_succ)
  have "unat (c + 1) < 2 ^ 32" using unsigned_less [of "c + 1", where ?'a = nat] by simp
  moreover have "of_nat (Suc (length log)) = c + 1" using u by (metis of_nat_unat ucast_id)
  ultimately show ?thesis using assms(1,4) u by (simp add: numbered_def add.commute)
qed

lemma base_256: "n = n div 16777216 * 16777216 + n div 65536 mod 256 * 65536 + n div 256 mod 256 * 256 + n mod 256" for n :: nat
proof -
  have "n div 65536 = n div 256 div 256" "n div 16777216 = n div 256 div 256 div 256" by (simp_all flip: div_mult2_eq)
  moreover have "n = e * 16777216 + f * 65536 + d * 256 + b" if "a * 256 + b = n" "c * 256 + d = a" "e * 256 + f = c" for a b c d e f :: nat
    using that by simp
  ultimately show ?thesis
    using div_mult_mod_eq [of n 256] div_mult_mod_eq [of "n div 256" 256] div_mult_mod_eq [of "n div 256 div 256" 256] by metis
qed

lemma be32_inj: "be32 a = be32 b \<Longrightarrow> a = b"
proof -
  have val: "unat w = unat (ucast (drop_bit 24 w) :: u8) * 2 ^ 24 + unat (ucast (drop_bit 16 w) :: u8) * 2 ^ 16
      + unat (ucast (drop_bit 8 w) :: u8) * 2 ^ 8 + unat (ucast w :: u8)" for w :: "32 word"
  proof -
    have lt: "unat w < 4294967296" using unsigned_less [of w, where ?'a = nat] by simp
    define n where "n = unat w"
    have "n < 2 ^ 32" using lt by (simp add: n_def)
    moreover have "unat (ucast (drop_bit k w) :: u8) = n div 2 ^ k mod 256" for k
      unfolding n_def unsigned_ucast_eq unsigned_drop_bit_eq by (simp flip: drop_bit_eq_div) (simp add: take_bit_eq_mod lt)
    moreover from this [of 0] have "unat (ucast w :: u8) = n mod 256" by simp
    ultimately show ?thesis unfolding n_def [symmetric] using base_256 [of n] by simp
  qed
  assume "be32 a = be32 b"
  then have "unat a = unat b" using val [of a] val [of b] by (simp add: be32_def)
  then show ?thesis by (rule unsigned_word_eqI)
qed

lemma message_iv_inj: "message_iv d a = message_iv d' b \<longleftrightarrow> d = d' \<and> a = b"
  by (cases d; cases d') (auto simp: message_iv_def dest: be32_inj)

lemma numbered_distinct: "numbered k d log \<Longrightarrow> distinct (map nonce log)"
proof -
  assume n: "numbered k d log"
  have "inj_on (\<lambda>i. (k, message_iv d (of_nat (Suc i)))) {0..<length log}"
  proof (rule inj_onI)
    fix i j assume ij: "i \<in> {0..<length log}" "j \<in> {0..<length log}"
      "(k, message_iv d (of_nat (Suc i))) = (k, message_iv d (of_nat (Suc j)))"
    then have "(of_nat (Suc i) :: 32 word) = of_nat (Suc j)" by (simp only: prod.inject message_iv_inj)
    then have "unat (of_nat (Suc i) :: 32 word) = unat (of_nat (Suc j) :: 32 word)" by simp
    moreover have "Suc i < 2 ^ 32" "Suc j < 2 ^ 32" using ij n by (auto simp: numbered_def)
    ultimately show "i = j" by (simp only: u32_of_nat nat.inject)
  qed
  then show "distinct (map nonce log)" using n by (simp add: numbered_def distinct_map)
qed

lemma agreement_step:
  "on_agreement f s = (r, s') \<Longrightarrow> s' = s\<lparr>key_agreement := snd (f (key_agreement s))\<rparr> \<and> r = fst (f (key_agreement s))"
  by (auto simp: on_agreement_def split: prod.splits)

lemma set_peer_key_pair [simp]: "key_pair (snd (validate_and_set_peer_key env p ka)) = key_pair ka"
  "agreement_public_key (snd (validate_and_set_peer_key env p ka)) = agreement_public_key ka"
  by (simp_all add: validate_and_set_peer_key_def split: result.splits)

lemma derive_key_pair:
  "fst (derive_shared_secret env ka) = Ok z \<Longrightarrow> key_pair ka \<noteq> None \<and> key_pair (snd (derive_shared_secret env ka)) = None"
  "key_pair ka = None \<Longrightarrow> key_pair (snd (derive_shared_secret env ka)) = None"
  by (simp_all add: derive_shared_secret_def split: option.splits)

lemma new_directional_Ok:
  "new_directional env z tr d = Ok e \<Longrightarrow> send_counter e = 0 \<and> receive_counter e = 0 \<and> send_direction e = d \<and> receive_direction e = peer d"
  by (cases d) (auto simp: new_directional_def Let_def)

definition establishes :: "'k Session \<Rightarrow> 'k Session \<Rightarrow> bool" where
  "establishes t u \<longleftrightarrow> session_role u = session_role t \<and>
     ((encryption u \<in> {encryption t, None} \<and> (key_pair (key_agreement t) = None \<longrightarrow> key_pair (key_agreement u) = None))
      \<or> (key_pair (key_agreement t) \<noteq> None \<and> key_pair (key_agreement u) = None
          \<and> (\<exists>e. encryption u = Some e \<and> send_counter e = 0 \<and> send_direction e = role_direction (session_role t))))"

lemma set_peer_frame:
  "on_agreement (validate_and_set_peer_key env p) t = (x, u) \<Longrightarrow>
     session_role u = session_role t \<and> encryption u = encryption t \<and> key_pair (key_agreement u) = key_pair (key_agreement t)"
  by (auto dest: agreement_step)

lemma derive_frame:
  assumes "on_agreement (derive_shared_secret env) t = (x, u)"
  shows "session_role u = session_role t \<and> encryption u = encryption t
     \<and> (key_pair (key_agreement t) = None \<longrightarrow> key_pair (key_agreement u) = None)
     \<and> (\<forall>z. x = Ok z \<longrightarrow> key_pair (key_agreement t) \<noteq> None \<and> key_pair (key_agreement u) = None)"
  using agreement_step [OF assms] derive_key_pair(1) [of env "key_agreement t"] derive_key_pair(2) [of "key_agreement t" env] by auto

lemma establish_cases:
  assumes "establish_locked env later p t = (r, u)"
  shows "establishes t u"
  using assms unfolding establish_locked_def Let_def
  by (elim op_bindE; simp add: ensure_def split: if_splits;
      auto simp: establishes_def expire_session_def clear_private_state_def dest!: set_peer_frame derive_frame new_directional_Ok)

lemma encrypt_cases:
  "encrypt env m e = (r, e') \<Longrightarrow>
     (e' = e \<and> (\<forall>c. r \<noteq> Ok c))
     \<or> (\<exists>c. r = Ok c \<and> send_counter e \<noteq> - 1 \<and> e' = e\<lparr>send_counter := send_counter e + 1\<rparr>
           \<and> aes_256_gcm_encrypt env (send_key e) (message_iv (send_direction e) (send_counter e + 1)) m [] = Ok c)"
  by (cases "aes_256_gcm_encrypt env (send_key e) (message_iv (send_direction e) (send_counter e + 1)) m []")
    (auto simp: encrypt_def checked_succ_def split: if_splits)

lemma decrypt_cases:
  "decrypt env c e = (r, e') \<Longrightarrow>
     (e' = e \<and> (\<forall>m. r \<noteq> Ok m))
     \<or> (\<exists>m. r = Ok m \<and> receive_counter e \<noteq> - 1 \<and> e' = e\<lparr>receive_counter := receive_counter e + 1\<rparr>
           \<and> aes_256_gcm_decrypt env (receive_key e) (message_iv (receive_direction e) (receive_counter e + 1)) c [] = Ok m)"
  by (cases "aes_256_gcm_decrypt env (receive_key e) (message_iv (receive_direction e) (receive_counter e + 1)) c []")
    (auto simp: decrypt_def checked_succ_def split: if_splits)

lemma inv_establish: "run_inv s log t \<Longrightarrow> establishes t u \<Longrightarrow> run_inv s log u"
  unfolding run_inv_def establishes_def by auto

lemma inv_drop:
  "run_inv s log t \<Longrightarrow> session_role u = session_role t \<Longrightarrow> encryption u = None
     \<Longrightarrow> (key_pair (key_agreement u) = None \<or> key_pair (key_agreement u) = key_pair (key_agreement t)) \<Longrightarrow> run_inv s log u"
  unfolding run_inv_def by auto

lemma inv_encrypt:
  assumes "run_inv s log t"
  shows "run_inv s (log @ sealed env later m t) (snd (encrypt_locked env later m t))"
proof (cases "later \<ge> deadline t \<or> encryption t = None")
  case True
  then show ?thesis
    using assms inv_drop [OF assms, of "expire_session (t\<lparr>encryption := None\<rparr>)"]
    by (auto simp: sealed_def encrypt_locked_def expire_session_def clear_private_state_def split: option.splits)
next
  case False
  then obtain e where e: "encryption t = Some e" and "\<not> later \<ge> deadline t" by auto
  obtain r e' where c: "encrypt env m e = (r, e')" by force
  then have step: "encrypt_locked env later m t = (r, t\<lparr>encryption := Some e'\<rparr>)"
    using e \<open>\<not> later \<ge> deadline t\<close> by (simp add: encrypt_locked_def)
  obtain k where k: "numbered k (role_direction (session_role s)) log" "send_key e = k"
      "send_direction e = role_direction (session_role s)" "unat (send_counter e) = length log"
    using assms e by (auto simp: run_inv_def)
  have base: "session_role t = session_role s" "key_pair (key_agreement t) = None" using assms e by (auto simp: run_inv_def)
  from encrypt_cases [OF c] show ?thesis
  proof (elim disjE exE conjE)
    assume "e' = e" "\<forall>c. r \<noteq> Ok c"
    then show ?thesis using assms e step by (cases r) (simp_all add: sealed_def run_inv_def)
  next
    fix ct assume r: "r = Ok ct" "send_counter e \<noteq> - 1" "e' = e\<lparr>send_counter := send_counter e + 1\<rparr>"
    let ?x = "(send_key e, message_iv (send_direction e) (send_counter e + 1), m, ct)"
    have "numbered k (role_direction (session_role s)) (log @ [?x])"
      by (rule numbered_snoc [OF k(1,4) r(2)]) (simp add: nonce_def k)
    then show ?thesis
      using base k r e step by (auto simp: run_inv_def sealed_def unat_succ)
  qed
qed

lemma inv_decrypt:
  assumes "run_inv s log t"
  shows "run_inv s log (snd (decrypt_locked env later c t))"
proof (cases "later \<ge> deadline t \<or> encryption t = None")
  case True
  then show ?thesis
    using assms inv_drop [OF assms, of "expire_session (t\<lparr>encryption := None\<rparr>)"]
    by (auto simp: decrypt_locked_def expire_session_def clear_private_state_def split: option.splits)
next
  case False
  then obtain e where e': "encryption t = Some e" "\<not> later \<ge> deadline t" by auto
  obtain r e' where "decrypt env c e = (r, e')" by force
  note e = e' this
  then have "snd (decrypt_locked env later c t) = t\<lparr>encryption := Some e'\<rparr>" by (simp add: decrypt_locked_def)
  moreover have "send_key e' = send_key e" "send_direction e' = send_direction e" "send_counter e' = send_counter e"
    using decrypt_cases [OF e(3)] by auto
  ultimately show ?thesis using assms e(1) by (auto simp: run_inv_def)
qed

lemma run_invariant: "session_run env s log t \<Longrightarrow> encryption s = None \<Longrightarrow> run_inv s log t"
proof (induction rule: session_run.induct)
  case run_start
  then show ?case by (auto simp: run_inv_def)
next
  case (run_terminated log t)
  then show ?case by (auto simp: run_inv_def)
next
  case (run_drop_encryption log t)
  then show ?case by (auto intro: inv_drop)
next
  case (run_clear_keys log t)
  then show ?case by (auto simp: run_inv_def clear_private_state_def)
next
  case (run_establish log t later p)
  then show ?case by (metis inv_establish establish_cases prod.collapse)
next
  case (run_encrypt log t later m)
  then show ?case by (auto intro: inv_encrypt)
next
  case (run_decrypt log t later c)
  then show ?case by (auto intro: inv_decrypt)
qed

lemma run_sealed:
  "session_run env s log t \<Longrightarrow> (k, iv, m, c) \<in> set log \<Longrightarrow> length k = 32 \<and> gcm_seal env k iv [] m = Inr c"
proof (induction rule: session_run.induct)
  case (run_encrypt log t later m')
  then show ?case
    by (auto simp: sealed_def encrypt_locked_def aes_256_gcm_encrypt_def dest!: encrypt_cases split: option.splits prod.splits result.splits if_splits)
qed auto

text \<open>Whole calls are runs of sections.\<close>

lemma run_expire: "session_run env s log t \<Longrightarrow> session_run env s log (expire_session t)"
  using run_clear_keys [OF run_drop_encryption [OF run_terminated]] by (fastforce simp: expire_session_def)

lemma run_not_expired: "session_run env s log t \<Longrightarrow> session_run env s log (snd (ensure_not_expired now t))"
  by (simp add: ensure_not_expired_def run_expire)

lemma run_terminate: "session_run env s log t \<Longrightarrow> session_run env s log (snd (terminate t))"
  using run_expire by (fastforce simp: expire_session_def terminate_def)

lemma run_establish_call: "session_run env s log t \<Longrightarrow> session_run env s log (snd (establish env now later p t))"
  using run_establish run_expire by (fastforce simp: establish_def ensure_not_expired_def)

lemma run_receive_call: "session_run env s log t \<Longrightarrow> session_run env s log (snd (receive_encrypted env now later c t))"
  by (auto simp: receive_encrypted_def ensure_not_expired_def ensure_def intro: run_expire run_decrypt)

lemma run_send_call:
  assumes "session_run env s log t"
  shows "\<exists>sent. session_run env s (log @ sent) (snd (send_encrypted env now later m t))
     \<and> (\<forall>c. fst (send_encrypted env now later m t) = Ok c \<longrightarrow> map (snd \<circ> snd) sent = [(m, c)])"
proof (cases "now < deadline t \<and> session_state t = Established \<and> \<not> length m > message_limit t")
  case True
  then have eq: "send_encrypted env now later m t = encrypt_locked env later m t"
    by (simp add: send_encrypted_def ensure_not_expired_def)
  moreover have "map (snd \<circ> snd) (sealed env later m t) = [(m, c)]" if "fst (encrypt_locked env later m t) = Ok c" for c
    using that by (auto simp: sealed_def encrypt_locked_def split: option.splits prod.splits if_splits)
  ultimately show ?thesis using run_encrypt [OF assms, of later m] by auto
next
  case False
  then have "snd (send_encrypted env now later m t) \<in> {t, expire_session t} \<and> (\<forall>c. fst (send_encrypted env now later m t) \<noteq> Ok c)"
    by (auto simp: send_encrypted_def ensure_not_expired_def ensure_def)
  then show ?thesis using assms run_expire [OF assms] by (intro exI [of _ "[]"]) auto
qed

text \<open>
  C12: However the calls on a session and on its peer interleave, no key and initialization vector
  are used twice to seal a message, by one of them or by the two together; every sealed message
  is the AES-GCM encryption of its plaintext, and a session seals fewer than \<open>2 ^ 32\<close> messages.
\<close>

theorem mdl_nonces_unique:
  assumes "session_run env s log t" "encryption s = None" "session_run env s' log' t'" "encryption s' = None"
    and "session_role s \<noteq> session_role s'"
  shows "distinct (map nonce (log @ log')) \<and> length log < 2 ^ 32
     \<and> (\<forall>(k, iv, m, c) \<in> set log. gcm_seal env k iv [] m = Inr c)"
proof -
  obtain k where k: "numbered k (role_direction (session_role s)) log" using run_invariant [OF assms(1,2)] by (auto simp: run_inv_def)
  obtain k' where k': "numbered k' (role_direction (session_role s')) log'" using run_invariant [OF assms(3,4)] by (auto simp: run_inv_def)
  have dirs: "role_direction (session_role s) \<noteq> role_direction (session_role s')"
    using assms(5) by (cases "session_role s"; cases "session_role s'") (auto simp: role_direction_def)
  have "set (map nonce log) \<inter> set (map nonce log') = {}"
    using k k' dirs unfolding numbered_def by (auto simp: message_iv_inj)
  moreover have "distinct (map nonce log)" "distinct (map nonce log')" using k k' by (auto intro: numbered_distinct)
  moreover have "length log < 2 ^ 32" using k by (simp add: numbered_def)
  moreover have "\<forall>(k, iv, m, c) \<in> set log. gcm_seal env k iv [] m = Inr c" using run_sealed [OF assms(1)] by auto
  ultimately show ?thesis by simp
qed

subsection \<open>Two sessions exchanging messages\<close>

text \<open>
  Documented behaviour of the primitives: opening inverts sealing, a ciphertext is its plaintext
  and a tag of sixteen bytes, and P-256 agreement gives both sides the same secret.
\<close>

definition gcm_ok :: "('i, 'k, 'x) mdl_env_scheme \<Rightarrow> bool" where
  "gcm_ok env \<longleftrightarrow> (\<forall>k iv m c. length k = 32 \<longrightarrow> length iv = 12 \<longrightarrow> gcm_seal env k iv [] m = Inr c \<longrightarrow>
     gcm_open env k iv [] c = Some m \<and> length c = length m + 16)"

definition dh_ok :: "('i, 'k, 'x) mdl_env_scheme \<Rightarrow> bool" where
  "dh_ok env \<longleftrightarrow> (\<forall>a b. p256_dh env a (p256_public env b) = p256_dh env b (p256_public env a))"

text \<open>The two ends, the ciphertexts in transit each way, and the plaintexts sent and received so far.\<close>

record 'k exchange =
  holder :: "'k Session"
  reader :: "'k Session"
  to_reader :: "bytes list"
  to_holder :: "bytes list"
  holder_sent :: "bytes list"
  reader_got :: "bytes list"
  reader_sent :: "bytes list"
  holder_got :: "bytes list"

definition start_exchange :: "'k Session \<Rightarrow> 'k Session \<Rightarrow> 'k exchange" where
  "start_exchange h r = \<lparr>holder = h, reader = r, to_reader = [], to_holder = [], holder_sent = [], reader_got = [],
     reader_sent = [], holder_got = []\<rparr>"

inductive exchanged :: "('i, 'k, 'x) mdl_env_scheme \<Rightarrow> 'k exchange \<Rightarrow> 'k exchange \<Rightarrow> bool"
  for env :: "('i, 'k, 'x) mdl_env_scheme" and x0 :: "'k exchange" where
  exchange_start: "exchanged env x0 x0"
| holder_sends: "exchanged env x0 x \<Longrightarrow> send_encrypted env now later m (holder x) = (Ok c, s) \<Longrightarrow>
    exchanged env x0 (x\<lparr>holder := s, to_reader := to_reader x @ [c], holder_sent := holder_sent x @ [m]\<rparr>)"
| reader_sends: "exchanged env x0 x \<Longrightarrow> send_encrypted env now later m (reader x) = (Ok c, s) \<Longrightarrow>
    exchanged env x0 (x\<lparr>reader := s, to_holder := to_holder x @ [c], reader_sent := reader_sent x @ [m]\<rparr>)"
| reader_receives: "exchanged env x0 x \<Longrightarrow> to_reader x = c # cs \<Longrightarrow> receive_encrypted env now later c (reader x) = (Ok m, s) \<Longrightarrow>
    exchanged env x0 (x\<lparr>reader := s, to_reader := cs, reader_got := reader_got x @ [m]\<rparr>)"
| holder_receives: "exchanged env x0 x \<Longrightarrow> to_holder x = c # cs \<Longrightarrow> receive_encrypted env now later c (holder x) = (Ok m, s) \<Longrightarrow>
    exchanged env x0 (x\<lparr>holder := s, to_holder := cs, holder_got := holder_got x @ [m]\<rparr>)"

text \<open>One direction: the receiver expects exactly the messages in transit.\<close>

fun in_flight :: "('i, 'k, 'x) mdl_env_scheme \<Rightarrow> bytes \<Rightarrow> SessionDirection \<Rightarrow> nat \<Rightarrow> bytes list \<Rightarrow> bytes list \<Rightarrow> bool" where
  "in_flight env k d n [] [] \<longleftrightarrow> True"
| "in_flight env k d n (c # cs) (m # ms) \<longleftrightarrow>
     gcm_seal env k (message_iv d (of_nat (Suc n))) [] m = Inr c \<and> in_flight env k d (Suc n) cs ms"
| "in_flight env k d n _ _ \<longleftrightarrow> False"

definition linked ::
    "('i, 'k, 'x) mdl_env_scheme \<Rightarrow> 'k Session \<Rightarrow> 'k Session \<Rightarrow> bytes list \<Rightarrow> bytes list \<Rightarrow> bytes list \<Rightarrow> bool" where
  "linked env a b wire sent got \<longleftrightarrow>
     (\<exists>e f pending. encryption a = Some e \<and> encryption b = Some f \<and> send_key e = receive_key f
        \<and> send_direction e = receive_direction f \<and> length (send_key e) = 32 \<and> sent = got @ pending
        \<and> in_flight env (send_key e) (send_direction e) (unat (receive_counter f)) wire pending
        \<and> unat (send_counter e) = unat (receive_counter f) + length wire)"

lemma in_flight_snoc:
  "in_flight env k d n cs ms \<Longrightarrow> gcm_seal env k (message_iv d (of_nat (Suc (n + length cs)))) [] m = Inr c
     \<Longrightarrow> in_flight env k d n (cs @ [c]) (ms @ [m])"
proof (induction cs arbitrary: ms n)
  case Nil
  then show ?case by (cases ms) simp_all
next
  case (Cons x cs)
  then obtain y ys where "ms = y # ys" by (cases ms) auto
  with Cons show ?case by (simp del: of_nat_Suc)
qed

lemma of_nat_succ_unat: "of_nat (Suc (unat c)) = c + 1" for c :: "32 word"
  by (metis Suc_eq_plus1 of_nat_add of_nat_1 of_nat_unat ucast_id)

lemma send_Ok:
  assumes "send_encrypted env now later m s = (Ok c, s')"
  obtains e where "encryption s = Some e" "send_counter e \<noteq> - 1" "s' = s\<lparr>encryption := Some (e\<lparr>send_counter := send_counter e + 1\<rparr>)\<rparr>"
    "gcm_seal env (send_key e) (message_iv (send_direction e) (send_counter e + 1)) [] m = Inr c"
    "session_state s = Established" "now < deadline s" "later < deadline s" "length m \<le> message_limit s"
  using assms
  by (auto simp: send_encrypted_def ensure_not_expired_def encrypt_locked_def aes_256_gcm_encrypt_def
      split: if_splits option.splits prod.splits dest!: encrypt_cases)

lemma receive_Ok:
  assumes "receive_encrypted env now later c s = (Ok m, s')"
  obtains e where "encryption s = Some e" "receive_counter e \<noteq> - 1"
    "s' = s\<lparr>encryption := Some (e\<lparr>receive_counter := receive_counter e + 1\<rparr>)\<rparr>"
    "gcm_open env (receive_key e) (message_iv (receive_direction e) (receive_counter e + 1)) [] c = Some m"
    "session_state s = Established" "now < deadline s" "later < deadline s"
  using assms
  by (auto simp: receive_encrypted_def ensure_not_expired_def decrypt_locked_def aes_256_gcm_decrypt_def ok_or_def
      split: if_splits option.splits prod.splits dest!: decrypt_cases)

lemma message_iv_length [simp]: "length (message_iv d c) = 12"
  by (simp add: message_iv_def be32_def)

lemma linked_send:
  assumes "linked env a b wire sent got" "send_encrypted env now later m a = (Ok c, a')"
  shows "linked env a' b (wire @ [c]) (sent @ [m]) got"
proof -
  obtain e f pending where l: "encryption a = Some e" "encryption b = Some f" "send_key e = receive_key f"
      "send_direction e = receive_direction f" "length (send_key e) = 32" "sent = got @ pending"
      "in_flight env (send_key e) (send_direction e) (unat (receive_counter f)) wire pending"
      "unat (send_counter e) = unat (receive_counter f) + length wire"
    using assms(1) by (auto simp: linked_def)
  from send_Ok [OF assms(2)] l(1) have s: "send_counter e \<noteq> - 1" "a' = a\<lparr>encryption := Some (e\<lparr>send_counter := send_counter e + 1\<rparr>)\<rparr>"
      "gcm_seal env (send_key e) (message_iv (send_direction e) (send_counter e + 1)) [] m = Inr c"
    by (metis option.inject)+
  have "of_nat (Suc (unat (receive_counter f) + length wire)) = send_counter e + 1"
    using of_nat_succ_unat [of "send_counter e"] l(8) by simp
  then have "in_flight env (send_key e) (send_direction e) (unat (receive_counter f)) (wire @ [c]) (pending @ [m])"
    using in_flight_snoc [OF l(7), of m c] s(3) by (simp del: of_nat_Suc)
  moreover have "unat (send_counter e + 1) = unat (receive_counter f) + length (wire @ [c])"
    using s(1) l(8) by (simp add: unat_succ)
  ultimately show ?thesis unfolding linked_def using l s(2) by auto
qed

lemma linked_receive:
  assumes "gcm_ok env" "linked env a b (c # wire) sent got" "receive_encrypted env now later c b = (Ok m, b')"
  shows "linked env a b' wire sent (got @ [m])"
proof -
  obtain e f pending where l: "encryption a = Some e" "encryption b = Some f" "send_key e = receive_key f"
      "send_direction e = receive_direction f" "length (send_key e) = 32" "sent = got @ pending"
      "in_flight env (send_key e) (send_direction e) (unat (receive_counter f)) (c # wire) pending"
      "unat (send_counter e) = unat (receive_counter f) + length (c # wire)"
    using assms(2) by (auto simp: linked_def)
  from receive_Ok [OF assms(3)] l(2) have r: "receive_counter f \<noteq> - 1"
      "b' = b\<lparr>encryption := Some (f\<lparr>receive_counter := receive_counter f + 1\<rparr>)\<rparr>"
      "gcm_open env (receive_key f) (message_iv (receive_direction f) (receive_counter f + 1)) [] c = Some m"
    by (metis option.inject)+
  obtain m' rest where p: "pending = m' # rest"
      "gcm_seal env (send_key e) (message_iv (send_direction e) (of_nat (Suc (unat (receive_counter f))))) [] m' = Inr c"
      "in_flight env (send_key e) (send_direction e) (Suc (unat (receive_counter f))) wire rest"
    using l(7) by (cases pending) auto
  have "gcm_open env (send_key e) (message_iv (send_direction e) (receive_counter f + 1)) [] c = Some m'"
    using assms(1) l(5) p(2) unfolding gcm_ok_def of_nat_succ_unat by simp
  then have "m' = m" using r(3) by (simp add: l(3,4))
  then have "sent = (got @ [m]) @ rest" "in_flight env (send_key e) (send_direction e) (unat (receive_counter f + 1)) wire rest"
      "unat (send_counter e) = unat (receive_counter f + 1) + length wire"
    using l(6,8) p(1,3) r(1) by (simp_all add: unat_succ)
  then show ?thesis unfolding linked_def using l(1,3,4,5) r(2) by auto
qed

lemma linked_peer:
  "linked env a b wire sent got \<Longrightarrow> send_encrypted env now later m b = (Ok c, b') \<Longrightarrow> linked env a b' wire sent got"
  "linked env a b wire sent got \<Longrightarrow> receive_encrypted env now later c' a = (Ok m, a') \<Longrightarrow> linked env a' b wire sent got"
  by (auto simp: linked_def elim!: send_Ok receive_Ok)

lemma linked_delivers:
  assumes "gcm_ok env" "linked env a b (c # wire) sent got" and "session_state b = Established"
    and "now < deadline b" "later < deadline b" "length (sent ! length got) \<le> message_limit b"
  shows "fst (receive_encrypted env now later c b) = Ok (sent ! length got)"
proof -
  obtain e f pending where "encryption a = Some e" and l: "encryption b = Some f" "send_key e = receive_key f"
      "send_direction e = receive_direction f" "length (send_key e) = 32" "sent = got @ pending"
      "in_flight env (send_key e) (send_direction e) (unat (receive_counter f)) (c # wire) pending"
      "unat (send_counter e) = unat (receive_counter f) + length (c # wire)"
    using assms(2) unfolding linked_def by blast
  obtain m rest where p: "pending = m # rest"
      "gcm_seal env (send_key e) (message_iv (send_direction e) (receive_counter f + 1)) [] m = Inr c"
    using l(6) by (cases pending) (auto simp: of_nat_succ_unat simp del: of_nat_Suc)
  have dec: "gcm_open env (receive_key f) (message_iv (receive_direction f) (receive_counter f + 1)) [] c = Some m" "length c = length m + 16"
    using assms(1) [unfolded gcm_ok_def, rule_format, OF l(4) message_iv_length p(2)] by (simp_all add: l(2,3))
  have "unat (receive_counter f) < unat (send_counter e)" using l(7) by simp
  then have "receive_counter f \<noteq> - 1" using word_order.extremum [of "send_counter e"] by (metis leD word_less_nat_alt)
  then have succ: "checked_succ (receive_counter f) = Some (receive_counter f + 1)" by (simp add: checked_succ_def)
  have "decrypt env c f = (Ok m, f\<lparr>receive_counter := receive_counter f + 1\<rparr>)"
    using dec(1) l(2,4) by (simp add: decrypt_def succ aes_256_gcm_decrypt_def)
  moreover have "sent ! length got = m" using l(5) p(1) by simp
  moreover have "length c \<le> sat_add (message_limit b) 16"
    using dec(2) assms(6) calculation(2)
    by (simp add: sat_add_def usize_max_def message_limit_def MAX_SESSION_MESSAGE_BYTES_def)
  ultimately show ?thesis
    using assms(3-5) l(1) by (simp add: receive_encrypted_def ensure_not_expired_def decrypt_locked_def)
qed

lemma frame_ops:
  "send_encrypted env now later m s = (Ok c, s') \<Longrightarrow> session_state s' = session_state s \<and> deadline s' = deadline s \<and> message_limit s' = message_limit s"
  "receive_encrypted env now later c s = (Ok m, s') \<Longrightarrow> session_state s' = session_state s \<and> deadline s' = deadline s \<and> message_limit s' = message_limit s"
  by (auto simp: message_limit_def elim!: send_Ok receive_Ok)

definition exchange_inv :: "('i, 'k, 'x) mdl_env_scheme \<Rightarrow> 'k Session \<Rightarrow> 'k Session \<Rightarrow> 'k exchange \<Rightarrow> bool" where
  "exchange_inv env h r x \<longleftrightarrow>
     linked env (holder x) (reader x) (to_reader x) (holder_sent x) (reader_got x)
     \<and> linked env (reader x) (holder x) (to_holder x) (reader_sent x) (holder_got x)
     \<and> session_state (reader x) = session_state r \<and> deadline (reader x) = deadline r \<and> message_limit (reader x) = message_limit r
     \<and> session_state (holder x) = session_state h \<and> deadline (holder x) = deadline h \<and> message_limit (holder x) = message_limit h"

lemma exchange_invariant:
  assumes "gcm_ok env" "exchanged env (start_exchange h r) x" "linked env h r [] [] []" "linked env r h [] [] []"
  shows "exchange_inv env h r x"
  using assms(2)
proof (induction rule: exchanged.induct)
  case exchange_start
  then show ?case using assms(3,4) by (simp add: exchange_inv_def start_exchange_def)
next
  case (holder_sends x now later m c s)
  note i = holder_sends.IH [unfolded exchange_inv_def]
  have "linked env s (reader x) (to_reader x @ [c]) (holder_sent x @ [m]) (reader_got x)"
    "linked env (reader x) s (to_holder x) (reader_sent x) (holder_got x)"
    using i holder_sends(2) by (blast intro: linked_send linked_peer(1))+
  then show ?case using i frame_ops(1) [OF holder_sends(2)] by (simp add: exchange_inv_def)
next
  case (reader_sends x now later m c s)
  note i = reader_sends.IH [unfolded exchange_inv_def]
  have "linked env s (holder x) (to_holder x @ [c]) (reader_sent x @ [m]) (holder_got x)"
    "linked env (holder x) s (to_reader x) (holder_sent x) (reader_got x)"
    using i reader_sends(2) by (blast intro: linked_send linked_peer(1))+
  then show ?case using i frame_ops(1) [OF reader_sends(2)] by (simp add: exchange_inv_def)
next
  case (reader_receives x c cs now later m s)
  note i = reader_receives.IH [unfolded exchange_inv_def reader_receives(2)]
  have "linked env (holder x) s cs (holder_sent x) (reader_got x @ [m])"
    "linked env s (holder x) (to_holder x) (reader_sent x) (holder_got x)"
    using i reader_receives(3) by (blast intro: linked_receive [OF assms(1)] linked_peer(2))+
  then show ?case using i frame_ops(2) [OF reader_receives(3)] by (simp add: exchange_inv_def)
next
  case (holder_receives x c cs now later m s)
  note i = holder_receives.IH [unfolded exchange_inv_def holder_receives(2)]
  have "linked env (reader x) s cs (reader_sent x) (holder_got x @ [m])"
    "linked env s (reader x) (to_reader x) (holder_sent x) (reader_got x)"
    using i holder_receives(3) by (blast intro: linked_receive [OF assms(1)] linked_peer(2))+
  then show ?case using i frame_ops(2) [OF holder_receives(3)] by (simp add: exchange_inv_def)
qed

lemma linked_prefix: "linked env a b wire sent got \<Longrightarrow> prefix got sent"
  by (auto simp: linked_def)

subsection \<open>From engagement to messages\<close>

definition kdf_ok :: "('i, 'k, 'x) mdl_env_scheme \<Rightarrow> bool" where
  "kdf_ok env \<longleftrightarrow> (\<forall>salt ikm info n k. hkdf_expand env salt ikm info n = Some k \<longrightarrow> length k = n)"

lemma establish_Ok:
  assumes "establish env now later p s = (Ok (), s')"
  obtains k tr e where "key_pair (key_agreement s) = Some k" "session_state s' = Established" "encryption s' = Some e"
    "build_session_transcript env (engagement_bytes s)
       (case session_role s of RoleDevice \<Rightarrow> p | RoleReader \<Rightarrow> agreement_public_key (key_agreement s)) = Ok tr"
    "new_directional env (p256_dh env k p) tr (role_direction (session_role s)) = Ok e"
proof -
  from assms obtain ta z tb where a: "on_agreement (validate_and_set_peer_key env p) s = (Ok (), ta)"
      and b: "on_agreement (derive_shared_secret env) ta = (Ok z, tb)" and rest:
      "\<exists>tr e. build_session_transcript env (engagement_bytes tb)
         (case session_role tb of RoleDevice \<Rightarrow> p | RoleReader \<Rightarrow> agreement_public_key (key_agreement ta)) = Ok tr
         \<and> new_directional env z tr (role_direction (session_role tb)) = Ok e \<and> s' = tb\<lparr>encryption := Some e, session_state := Established\<rparr>"
    by (auto simp: establish_def establish_locked_def ensure_not_expired_def Let_def split: if_splits)
  note sa = agreement_step [OF a] and sb = agreement_step [OF b]
  have ta: "ta = s\<lparr>key_agreement := (key_agreement s)\<lparr>peer_public_key := Some p\<rparr>\<rparr>"
    using sa by (auto simp: validate_and_set_peer_key_def split: result.splits)
  have "fst (derive_shared_secret env (key_agreement ta)) = Ok z" using sb by simp
  then obtain k where "key_pair (key_agreement s) = Some k" "z = p256_dh env k p"
    by (auto simp: ta derive_shared_secret_def agree_def split: option.splits)
  moreover have pub: "agreement_public_key (key_agreement ta) = agreement_public_key (key_agreement s)" by (simp add: ta)
  moreover obtain tr e where "build_session_transcript env (engagement_bytes tb)
         (case session_role tb of RoleDevice \<Rightarrow> p | RoleReader \<Rightarrow> agreement_public_key (key_agreement s)) = Ok tr"
         "new_directional env z tr (role_direction (session_role tb)) = Ok e" "s' = tb\<lparr>encryption := Some e, session_state := Established\<rparr>"
    using rest unfolding pub by blast
  moreover have "engagement_bytes tb = engagement_bytes s" "session_role tb = session_role s" using sb ta by auto
  ultimately show ?thesis using that by simp
qed

lemma directional_keys:
  assumes "kdf_ok env" "new_directional env z tr DirDevice = Ok e" "new_directional env z tr DirReader = Ok f"
  shows "send_key e = receive_key f" "receive_key e = send_key f" "length (send_key e) = 32" "length (send_key f) = 32"
  using assms by (auto simp: new_directional_def derive_mdl_session_keys_def hkdf_sha256_def ok_or_def kdf_ok_def Let_def split: option.splits)

lemma engagement_decoded_bytes:
  assumes "engagement_codecs env" "p256_from_sec1 env (device_key e) = Inr ()" "to_qr_uri env e = Ok uri" "from_qr_uri env uri = Ok e'"
    and "to_cbor env e = Ok d"
  shows "to_cbor env e' = Ok d" "device_key e' = device_key e"
proof -
  obtain v where v: "to_iso env e = Ok v" "cbor_to_vec env v = Inr d" using assms(5) by (auto simp: to_cbor_def)
  then have "to_qr_code_uri env v = Inr uri" using assms(3) by (auto simp: to_qr_uri_def)
  then obtain d' where d': "cbor_to_vec env v = Inr d'" "from_qr_code_uri env uri = Inr d'"
    using assms(1) unfolding engagement_codecs_def by blast
  with v have "from_qr_code_uri env uri = Inr d" by simp
  then have "str_len uri \<le> MAX_DEVICE_ENGAGEMENT_QR_URI_BYTES" "length d \<le> MAX_DEVICE_ENGAGEMENT_CBOR_BYTES"
    using assms(4) by (auto simp: from_qr_uri_def from_cbor_def)
  with engagement_decodes [OF assms(1,2,5)] assms(3,4) show "to_cbor env e' = Ok d" "device_key e' = device_key e"
    by (auto dest!: spec)
qed

lemma established_linked:
  assumes ok: "dh_ok env" "kdf_ok env"
    and h: "establish env t1 t2 (p256_public env k) h0 = (Ok (), h)" "session_role h0 = RoleDevice"
      "key_pair (key_agreement h0) = Some kd"
    and r: "establish env t3 t4 (p256_public env kd) r0 = (Ok (), r)" "session_role r0 = RoleReader"
      "key_pair (key_agreement r0) = Some k" "agreement_public_key (key_agreement r0) = p256_public env k"
    and bytes: "engagement_bytes h0 = engagement_bytes r0"
  shows "linked env h r [] [] []" "linked env r h [] [] []"
proof -
  obtain k1 tr e where e1: "key_pair (key_agreement h0) = Some k1" "session_state h = Established" "encryption h = Some e"
      "build_session_transcript env (engagement_bytes h0) (case session_role h0 of RoleDevice \<Rightarrow> p256_public env k
         | RoleReader \<Rightarrow> agreement_public_key (key_agreement h0)) = Ok tr"
      "new_directional env (p256_dh env k1 (p256_public env k)) tr (role_direction (session_role h0)) = Ok e"
    by (rule establish_Ok [OF h(1)])
  then have e: "build_session_transcript env (engagement_bytes h0) (p256_public env k) = Ok tr" "encryption h = Some e"
      "new_directional env (p256_dh env kd (p256_public env k)) tr DirDevice = Ok e"
    using h(2,3) by (simp_all add: role_direction_def)
  obtain k2 tr' f where f1: "key_pair (key_agreement r0) = Some k2" "session_state r = Established" "encryption r = Some f"
      "build_session_transcript env (engagement_bytes r0) (case session_role r0 of RoleDevice \<Rightarrow> p256_public env kd
         | RoleReader \<Rightarrow> agreement_public_key (key_agreement r0)) = Ok tr'"
      "new_directional env (p256_dh env k2 (p256_public env kd)) tr' (role_direction (session_role r0)) = Ok f"
    by (rule establish_Ok [OF r(1)])
  then have f: "build_session_transcript env (engagement_bytes r0) (p256_public env k) = Ok tr'" "encryption r = Some f"
      "new_directional env (p256_dh env k (p256_public env kd)) tr' DirReader = Ok f"
    using r(2-4) by (simp_all add: role_direction_def)
  have "tr' = tr" using e(1) f(1) bytes by simp
  moreover have "p256_dh env k (p256_public env kd) = p256_dh env kd (p256_public env k)" using ok(1) by (simp add: dh_ok_def)
  ultimately have f': "new_directional env (p256_dh env kd (p256_public env k)) tr DirReader = Ok f" using f(3) by simp
  note keys = directional_keys [OF ok(2) e(3) f'] and ce = new_directional_Ok [OF e(3)] and cf = new_directional_Ok [OF f']
  show "linked env h r [] [] []" "linked env r h [] [] []"
    unfolding linked_def using e(2) f(2) keys ce cf by (auto intro!: exI [of _ "[]"])
qed

lemma new_for_role_Ok:
  assumes "new_for_role env e config ka role now = Ok s"
  obtains d where "to_cbor env e = Ok d" "engagement_bytes s = d" "key_agreement s = ka" "session_role s = role" "encryption s = None"
    "session_state s = Engagement" "engagement_device_key s = device_key e" "deadline s = now + timeout_secs config * 10 ^ 9"
    "1 \<le> timeout_secs config" "timeout_secs config \<le> MAX_SESSION_TIMEOUT_SECS"
  using assms that by (auto simp: new_for_role_def validate_config_def validate_timeout_def ok_or_def instant_checked_add_def split: option.splits if_splits)

lemma from_engagement_Ok:
  assumes "from_engagement env e config now cells = (Ok s, cells')"
  obtains k where "take_ephemeral_key_pair e cells = (Ok k, cells')" "p256_public env k = device_key e"
    "new_for_role env e config (from_key_pair env k) RoleDevice now = Ok s"
  using assms that by (auto simp: from_engagement_def Let_def from_key_pair_def)


subsection \<open>Closing a session\<close>

text \<open>The calls on a session, with a value for those that return none.\<close>

datatype call = CallPublicKey | CallEstablish bytes | CallSend bytes | CallReceive bytes

fun perform :: "('i, 'k, 'x) mdl_env_scheme \<Rightarrow> nat \<Rightarrow> nat \<Rightarrow> call \<Rightarrow> 'k Session \<Rightarrow> (bytes, Error) result \<times> 'k Session" where
  "perform env now later CallPublicKey s = public_key now later s"
| "perform env now later (CallEstablish p) s = op_bind (establish env now later p s) (\<lambda>_ s. (Ok [], s))"
| "perform env now later (CallSend m) s = send_encrypted env now later m s"
| "perform env now later (CallReceive c) s = receive_encrypted env now later c s"

definition closed :: "'k Session \<Rightarrow> bool" where
  "closed s \<longleftrightarrow> session_state s = Terminated \<and> encryption s = None
     \<and> key_pair (key_agreement s) = None \<and> peer_public_key (key_agreement s) = None"

lemma closed_expire [simp]: "closed (expire_session s)" "closed (snd (terminate s))"
  by (simp_all add: closed_def expire_session_def clear_private_state_def terminate_def)

lemma expired_call: "deadline s \<le> now \<Longrightarrow> perform env now later c s = (Err Timeout, expire_session s)"
  by (cases c) (simp_all add: public_key_def establish_def send_encrypted_def receive_encrypted_def ensure_not_expired_def)

lemma closed_call:
  assumes "closed s"
  shows "\<forall>v. fst (perform env now later c s) \<noteq> Ok v" "closed (snd (perform env now later c s))"
proof -
  have "perform env now later c s = (Err Timeout, expire_session s) \<or> (\<exists>x. perform env now later c s = (Err x, s))"
    using assms
    by (cases c) (auto simp: public_key_def establish_def establish_locked_def send_encrypted_def receive_encrypted_def
        ensure_not_expired_def ensure_def closed_def)
  then show "\<forall>v. fst (perform env now later c s) \<noteq> Ok v" "closed (snd (perform env now later c s))" using assms by auto
qed

lemma keys_no_timeout: "derive_mdl_session_keys env z tr \<noteq> Err Timeout"
  by (auto simp: derive_mdl_session_keys_def hkdf_sha256_def Let_def rbind_eq_Err ok_or_def split: option.splits)

lemma no_timeout [simp]:
  "aes_256_gcm_encrypt env k iv m a \<noteq> Err Timeout" "aes_256_gcm_decrypt env k iv m a \<noteq> Err Timeout"
  "validate_p256_public_key env p \<noteq> Err Timeout" "agree env kp p \<noteq> Err Timeout"
  "build_session_transcript env b p \<noteq> Err Timeout" "new_directional env z tr d \<noteq> Err Timeout"
  by (auto simp: aes_256_gcm_encrypt_def aes_256_gcm_decrypt_def validate_p256_public_key_def agree_def build_session_transcript_def
      cose_key_from_sec1_def slice_def ok_or_def rbind_eq_Err lift_err_eq_Err split: if_splits option.splits)
    (cases d; auto simp: new_directional_def rbind_eq_Err keys_no_timeout)+

lemma agreement_no_timeout [simp]:
  "on_agreement (validate_and_set_peer_key env p) t \<noteq> (Err Timeout, u)" "on_agreement (derive_shared_secret env) t \<noteq> (Err Timeout, u)"
  by (auto simp: on_agreement_def validate_and_set_peer_key_def derive_shared_secret_def split: prod.splits result.splits option.splits)

lemma encrypt_no_timeout [simp]: "encrypt env m e \<noteq> (Err Timeout, f)" "decrypt env m e \<noteq> (Err Timeout, f)"
  by (auto simp: encrypt_def decrypt_def split: option.splits result.splits)

lemma establish_timeout: "establish_locked env later p t = (Err Timeout, u) \<Longrightarrow> closed u"
  unfolding establish_locked_def Let_def by (auto simp: op_bind_eq_Err split: if_splits)

lemma timeout_call:
  assumes "perform env now later c s = (Err Timeout, t)"
  shows "closed t"
  using assms
  by (cases c) (auto simp: public_key_def establish_def send_encrypted_def receive_encrypted_def encrypt_locked_def decrypt_locked_def
      ensure_not_expired_def op_bind_eq_Err split: if_splits option.splits prod.splits dest: establish_timeout)

text \<open>
  C14: Termination and expiry are final and erase the keys. A call after the deadline returns a
  timeout; a call that returns a timeout, and \<open>terminate\<close>, leave no session key, no private key
  and no peer key; and after that no call succeeds or brings a key back. The private key of an
  engagement makes one holder session, also through clones of the engagement.
\<close>

theorem mdl_session_closes:
  "closed (snd (terminate s))
   \<and> (deadline s \<le> now \<longrightarrow> fst (perform env now later c s) = Err Timeout)
   \<and> (fst (perform env now later c s) = Err Timeout \<longrightarrow> closed (snd (perform env now later c s)))
   \<and> (closed s \<longrightarrow> (\<forall>v. fst (perform env now later c s) \<noteq> Ok v) \<and> closed (snd (perform env now later c s)))
   \<and> (from_engagement env e config t cells = (Ok h, cells') \<and> ephemeral_key e' = ephemeral_key e \<longrightarrow>
        (\<forall>h'. fst (from_engagement env e' config' t' cells') \<noteq> Ok h'))"
proof -
  have "fst (from_engagement env e' config' t' cells') \<noteq> Ok h'"
    if once: "from_engagement env e config t cells = (Ok h, cells')" and same: "ephemeral_key e' = ephemeral_key e" for h'
  proof
    assume "fst (from_engagement env e' config' t' cells') = Ok h'"
    then obtain cells2 where "from_engagement env e' config' t' cells' = (Ok h', cells2)" by (metis prod.collapse)
    then obtain k2 where "take_ephemeral_key_pair e' cells' = (Ok k2, cells2)" by (rule from_engagement_Ok)
    moreover obtain k1 where "take_ephemeral_key_pair e cells = (Ok k1, cells')" by (rule from_engagement_Ok [OF once])
    ultimately show False using same by (auto simp: take_ephemeral_key_pair_def split: option.splits)
  qed
  moreover have "fst (perform env now later c s) = Err Timeout \<Longrightarrow> closed (snd (perform env now later c s))"
    using timeout_call [of env now later c s "snd (perform env now later c s)"] by (metis prod.collapse)
  ultimately show ?thesis using closed_call [of s env now later c] expired_call [of s now env later c] by auto
qed

subsection \<open>Witnesses\<close>

text \<open>
  Primitives with the laws above: sealing appends the nonce and a piece of the key, a derived key
  repeats the last byte of its label, and agreement combines the two public keys.
\<close>

definition sample_public :: "bool \<Rightarrow> bytes" where
  "sample_public k = (if k then sample_point else 4 # replicate 64 9)"

definition sample_mdl_env :: "(unit, bool) mdl_env" where
  "sample_mdl_env =
     (let E = sample_engagement_env in
      \<lparr>tag24_key = tag24_key E, tag24_engagement = tag24_engagement E, cbor_to_vec = cbor_to_vec E, cbor_from_reader = cbor_from_reader E,
       to_qr_code_uri = to_qr_code_uri E, from_qr_code_uri = from_qr_code_uri E, uuid_parse = uuid_parse E, uuid_hyphenated = uuid_hyphenated E,
       p256_from_sec1 = (\<lambda>p. if p = sample_public True \<or> p = sample_public False then Inr () else Inl []), nfc_options_default = (),
       gcm_seal = (\<lambda>k iv a m. Inr (m @ take 16 (iv @ k))),
       gcm_open = (\<lambda>k iv a c. if 16 \<le> length c \<and> drop (length c - 16) c = take 16 (iv @ k) then Some (take (length c - 16) c) else None),
       hkdf_expand = (\<lambda>salt ikm info n. Some (replicate n (last info))), sha256 = (\<lambda>b. [1]),
       p256_public = sample_public, p256_dh = (\<lambda>k p. xor_bytes (sample_public k) p), tag24_from_bytes = (\<lambda>b. Inr ()),
       tag24_reader_key = (\<lambda>k. Inr ()), tag24_transcript = (\<lambda>a b. Inr ()), transcript_to_vec = (\<lambda>t. Inr [3])\<rparr>)"

definition sample_session :: "bool \<Rightarrow> SessionRole \<Rightarrow> bool Session" where
  "sample_session k role = \<lparr>session_state = Engagement, encryption = None, key_agreement = from_key_pair sample_mdl_env k,
     session_config = default_config, deadline = 300 * 10 ^ 9, session_role = role, engagement_bytes = [0xA3, 1],
     engagement_device_key = sample_point\<rparr>"

lemma sample_mdl_laws:
  "engagement_codecs sample_mdl_env" "gcm_ok sample_mdl_env" "dh_ok sample_mdl_env" "kdf_ok sample_mdl_env"
  using sample_codecs
  by (simp_all add: engagement_codecs_def gcm_ok_def dh_ok_def kdf_ok_def sample_mdl_env_def Let_def xor_bytes_commute) 

theorem mdl_nonces_unique_witness:
  "\<exists>s log t s' log' t'. session_run sample_mdl_env s log t \<and> session_run sample_mdl_env s' log' t'
     \<and> map (fst \<circ> snd \<circ> snd) log = [[1], [2]] \<and> map (fst \<circ> snd \<circ> snd) log' = [[3]] \<and> distinct (map nonce (log @ log'))"
proof -
  let ?E = sample_mdl_env and ?s = "sample_session True RoleDevice" and ?s' = "sample_session False RoleReader"
  let ?a = "snd (establish_locked ?E 1 (sample_public False) ?s)" and ?a' = "snd (establish_locked ?E 1 sample_point ?s')"
  let ?b = "snd (encrypt_locked ?E 2 [1] ?a)"
  note run = run_encrypt [OF run_encrypt [OF run_establish [OF run_start [of ?E ?s], of 1 "sample_public False"], of 2 "[1]"], of 3 "[2]"]
    and run' = run_encrypt [OF run_establish [OF run_start [of ?E ?s'], of 1 sample_point], of 2 "[3]"]
  have logs: "map (fst \<circ> snd \<circ> snd) (([] @ sealed ?E 2 [1] ?a) @ sealed ?E 3 [2] ?b) = [[1], [2]]"
      "map (fst \<circ> snd \<circ> snd) ([] @ sealed ?E 2 [3] ?a') = [[3]]"
    by code_simp+
  have fresh: "encryption ?s = None" "encryption ?s' = None" "session_role ?s \<noteq> session_role ?s'" by (simp_all add: sample_session_def)
  have "distinct (map nonce ((([] @ sealed ?E 2 [1] ?a) @ sealed ?E 3 [2] ?b) @ [] @ sealed ?E 2 [3] ?a'))"
    using mdl_nonces_unique [OF run fresh(1) run' fresh(2,3)] by (rule conjunct1)
  with run run' logs show ?thesis by (intro exI conjI)
qed

lemma sample_established:
  "fst (from_engagement sample_mdl_env sample_engagement default_config 0 [0 \<mapsto> Some True]) = Ok (sample_session True RoleDevice)"
  "from_qr_uri sample_mdl_env (lit ''mdoc:owE'') = Ok (sample_engagement\<lparr>ephemeral_key := None\<rparr>)"
  "to_qr_uri sample_mdl_env sample_engagement = Ok (lit ''mdoc:owE'')"
  "reader_from_engagement sample_mdl_env (sample_engagement\<lparr>ephemeral_key := None\<rparr>) default_config False 0 = Ok (sample_session False RoleReader)"
  "fst (establish sample_mdl_env 1 2 (sample_public False) (sample_session True RoleDevice)) = Ok ()"
  "fst (establish sample_mdl_env 3 4 sample_point (sample_session False RoleReader)) = Ok ()"
  "p256_from_sec1 sample_mdl_env (device_key sample_engagement) = Inr ()"
  by code_simp+

definition sample_holder :: "bool Session" where
  "sample_holder = snd (establish sample_mdl_env 1 2 (sample_public False) (sample_session True RoleDevice))"

definition sample_reader :: "bool Session" where
  "sample_reader = snd (establish sample_mdl_env 3 4 sample_point (sample_session False RoleReader))"

lemma sample_ends:
  "establish sample_mdl_env 1 2 (sample_public False) (sample_session True RoleDevice) = (Ok (), sample_holder)"
  "establish sample_mdl_env 3 4 sample_point (sample_session False RoleReader) = (Ok (), sample_reader)"
  using sample_established(5,6) by (simp_all add: sample_holder_def sample_reader_def prod_eq_iff)

lemma sample_sends: "is_ok (fst (send_encrypted sample_mdl_env 5 6 [1, 2] sample_holder))" "8 < deadline sample_reader" "2 \<le> message_limit sample_reader"
  by code_simp+


theorem mdl_session_closes_witness:
  "closed (snd (perform sample_mdl_env 400000000000 400000000001 (CallSend [1]) sample_holder))
   \<and> closed (snd (perform sample_mdl_env 7 8 (CallSend [1]) (snd (terminate sample_holder))))
   \<and> (\<forall>h. fst (from_engagement sample_mdl_env sample_engagement default_config 1
         (snd (from_engagement sample_mdl_env sample_engagement default_config 0 [0 \<mapsto> Some True]))) \<noteq> Ok h)"
proof -
  have late: "deadline sample_holder \<le> 400000000000" by code_simp
  have holder: "from_engagement sample_mdl_env sample_engagement default_config 0 [0 \<mapsto> Some True]
      = (Ok (sample_session True RoleDevice), snd (from_engagement sample_mdl_env sample_engagement default_config 0 [0 \<mapsto> Some True]))"
    using sample_established(1) by (simp add: prod_eq_iff)
  show ?thesis
    using late holder
      mdl_session_closes [of sample_holder 400000000000 sample_mdl_env 400000000001 "CallSend [1]" sample_engagement default_config 0
        "[0 \<mapsto> Some True]" "sample_session True RoleDevice" _ sample_engagement default_config 1]
      mdl_session_closes [of "snd (terminate sample_holder)" 7 sample_mdl_env 8 "CallSend [1]"]
    by blast
qed

end
