(* ===== verification/MdlTransport.thy ===== *)
theory MdlTransport
  imports MdlSession Apdu
begin

text \<open>
  Transports of ISO 18013-5, after \<open>marty-iso18013/src/transport\<close>: the \<open>Transport\<close> trait as a
  record of operations, the mock, HTTPS, NFC and BLE implementations, and the session channel that
  couples a transport with a session. What lies behind a transport (an HTTP server, a smart card,
  a BLE peripheral) is a state of an arbitrary type with the operations of the library that drives
  it. The locale \<open>transport_contract\<close> states what every implementation promises; all four are
  interpretations, and the mock, a pair of queues, also interprets its extension \<open>fifo_transport\<close>.
\<close>

subsection \<open>The trait\<close>

record 't Transport =
  connect :: "'t \<Rightarrow> (unit, Error) result \<times> 't"
  send :: "bytes \<Rightarrow> 't \<Rightarrow> (unit, Error) result \<times> 't"
  receive :: "'t \<Rightarrow> (bytes, Error) result \<times> 't"
  close :: "'t \<Rightarrow> (unit, Error) result \<times> 't"
  is_connected :: "'t \<Rightarrow> bool"

definition not_connected :: Error where
  "not_connected = ConnectionFailed (lit ''Not connected'')"

subsection \<open>Mock transport\<close>

record MockTransport =
  mock_connected :: bool
  send_queue :: "bytes list"
  receive_queue :: "bytes list"

definition mock_new :: MockTransport where
  "mock_new = \<lparr>mock_connected = False, send_queue = [], receive_queue = []\<rparr>"

definition queue_receive :: "bytes \<Rightarrow> MockTransport \<Rightarrow> MockTransport" where
  "queue_receive d t = t\<lparr>receive_queue := receive_queue t @ [d]\<rparr>"

definition get_sent :: "MockTransport \<Rightarrow> bytes option \<times> MockTransport" where
  "get_sent t = (case send_queue t of [] \<Rightarrow> (None, t) | d # ds \<Rightarrow> (Some d, t\<lparr>send_queue := ds\<rparr>))"

definition mock_connect :: "MockTransport \<Rightarrow> (unit, Error) result \<times> MockTransport" where
  "mock_connect t = (Ok (), t\<lparr>mock_connected := True\<rparr>)"

definition mock_send :: "bytes \<Rightarrow> MockTransport \<Rightarrow> (unit, Error) result \<times> MockTransport" where
  "mock_send d t = (if \<not> mock_connected t then (Err not_connected, t) else (Ok (), t\<lparr>send_queue := send_queue t @ [d]\<rparr>))"

definition mock_receive :: "MockTransport \<Rightarrow> (bytes, Error) result \<times> MockTransport" where
  "mock_receive t =
     (if \<not> mock_connected t then (Err not_connected, t)
      else case receive_queue t of
          [] \<Rightarrow> (Err (ReceiveFailed (lit ''No data available'')), t)
        | d # ds \<Rightarrow> (Ok d, t\<lparr>receive_queue := ds\<rparr>))"

definition mock_close :: "MockTransport \<Rightarrow> (unit, Error) result \<times> MockTransport" where
  "mock_close t = (Ok (), t\<lparr>mock_connected := False\<rparr>)"

definition mock_transport :: "MockTransport Transport" where
  "mock_transport = \<lparr>connect = mock_connect, send = mock_send, receive = mock_receive, close = mock_close, is_connected = mock_connected\<rparr>"

subsection \<open>HTTPS transport\<close>

text \<open>A response is its status and, when read, its body.\<close>

record 'w http_env =
  http_post :: "ustr \<Rightarrow> bytes \<Rightarrow> 'w \<Rightarrow> (ustr + nat) \<times> 'w"
  http_get :: "ustr \<Rightarrow> 'w \<Rightarrow> (ustr + (nat \<times> (ustr + bytes))) \<times> 'w"
  status_text :: "nat \<Rightarrow> ustr"

record 'w HttpsTransport =
  https_url :: ustr
  https_connected :: bool
  https_world :: 'w

definition http_success :: "nat \<Rightarrow> bool" where
  "http_success status \<longleftrightarrow> 200 \<le> status \<and> status < 300"

definition https_connect :: "'w HttpsTransport \<Rightarrow> (unit, Error) result \<times> 'w HttpsTransport" where
  "https_connect t = (Ok (), t\<lparr>https_connected := True\<rparr>)"

definition https_send :: "'w http_env \<Rightarrow> bytes \<Rightarrow> 'w HttpsTransport \<Rightarrow> (unit, Error) result \<times> 'w HttpsTransport" where
  "https_send env d t =
     (if \<not> https_connected t then (Err not_connected, t)
      else case http_post env (https_url t) d (https_world t) of (r, w) \<Rightarrow>
        (rbind (lift_err SendFailed r) (\<lambda>status.
         ensure (http_success status) (SendFailed (lit ''HTTP error: '' @ status_text env status))), t\<lparr>https_world := w\<rparr>))"

definition https_receive :: "'w http_env \<Rightarrow> 'w HttpsTransport \<Rightarrow> (bytes, Error) result \<times> 'w HttpsTransport" where
  "https_receive env t =
     (if \<not> https_connected t then (Err not_connected, t)
      else case http_get env (https_url t) (https_world t) of (r, w) \<Rightarrow>
        (rbind (lift_err ReceiveFailed r) (\<lambda>(status, body).
         rbind (ensure (http_success status) (ReceiveFailed (lit ''HTTP error: '' @ status_text env status))) (\<lambda>_.
         lift_err ReceiveFailed body)), t\<lparr>https_world := w\<rparr>))"

definition https_close :: "'w HttpsTransport \<Rightarrow> (unit, Error) result \<times> 'w HttpsTransport" where
  "https_close t = (Ok (), t\<lparr>https_connected := False\<rparr>)"

definition https_transport :: "'w http_env \<Rightarrow> 'w HttpsTransport Transport" where
  "https_transport env = \<lparr>connect = https_connect, send = https_send env, receive = https_receive env, close = https_close,
     is_connected = https_connected\<rparr>"

subsection \<open>NFC transport\<close>

record NfcApdu =
  apdu_cla :: u8
  apdu_ins :: u8
  apdu_p1 :: u8
  apdu_p2 :: u8
  apdu_data :: bytes
  apdu_le :: "nat option"

definition MAX_DATA_LENGTH :: nat where
  "MAX_DATA_LENGTH = 65535"

definition to_bytes :: "NfcApdu \<Rightarrow> (bytes, Error) result" where
  "to_bytes a =
     rbind (ensure (\<not> length (apdu_data a) > MAX_DATA_LENGTH)
              (SendFailed (lit ''APDU data exceeds '' @ dec_text MAX_DATA_LENGTH @ lit '' byte extended-length limit''))) (\<lambda>_.
     rbind (ensure (\<not> (apdu_le a = Some 0 \<or> (case apdu_le a of None \<Rightarrow> False | Some n \<Rightarrow> n > 65536)))
              (SendFailed (lit ''APDU Le must be between 1 and 65536''))) (\<lambda>_.
     let header = [apdu_cla a, apdu_ins a, apdu_p1 a, apdu_p2 a];
         extended = (length (apdu_data a) > 255 \<or> (case apdu_le a of None \<Rightarrow> False | Some n \<Rightarrow> n > 256));
         body = (if apdu_data a \<noteq> [] then
                   (if extended then [0x00] @ be16 (length (apdu_data a) mod 65536) else [of_nat (length (apdu_data a))]) @ apdu_data a
                 else if extended then [0x00] else []);
         trailer = (case apdu_le a of
                      None \<Rightarrow> []
                    | Some n \<Rightarrow> if extended then be16 (if n = 65536 then 0 else n mod 65536)
                                else [if n = 256 then 0 else of_nat n]) in
     Ok (header @ body @ trailer)))"

definition apdu_select :: "bytes \<Rightarrow> NfcApdu" where
  "apdu_select aid = \<lparr>apdu_cla = 0x00, apdu_ins = 0xA4, apdu_p1 = 0x04, apdu_p2 = 0x00, apdu_data = aid, apdu_le = Some 256\<rparr>"

definition apdu_get_data :: "u16 \<Rightarrow> NfcApdu" where
  "apdu_get_data tag = \<lparr>apdu_cla = 0x00, apdu_ins = 0xCA, apdu_p1 = ucast (drop_bit 8 tag AND 0xFF), apdu_p2 = ucast (tag AND 0xFF),
     apdu_data = [], apdu_le = Some 65536\<rparr>"

definition envelope :: "bytes \<Rightarrow> bool \<Rightarrow> NfcApdu" where
  "envelope data chained = \<lparr>apdu_cla = (if chained then 0x10 else 0x00), apdu_ins = 0xC3, apdu_p1 = 0x00, apdu_p2 = 0x00,
     apdu_data = data, apdu_le = Some 256\<rparr>"

definition envelope_chunks :: "bytes \<Rightarrow> NfcApdu list" where
  "envelope_chunks data =
     (if data = [] then [envelope [] False]
      else let chunk_count = div_ceil (length data) MAX_DATA_LENGTH in
        map (\<lambda>(index, chunk). envelope chunk (index + 1 < chunk_count)) (enumerate 0 (chunks MAX_DATA_LENGTH data)))"

text \<open>
  PC/SC: opening a card and exchanging one command with it. The errors for a poisoned mutex are
  left out: a mutex is poisoned only by a panic under its guard, which ends a run of the model.
\<close>

record 'c pcsc_env =
  pcsc_establish :: "ustr + unit"
  pcsc_list_readers :: "ustr + ustr list"
  pcsc_connect :: "ustr \<Rightarrow> ustr + 'c"
  pcsc_transmit :: "bytes \<Rightarrow> 'c \<Rightarrow> (ustr + bytes) \<times> 'c"

record 'c NfcTransport =
  nfc_context :: bool
  nfc_card :: "'c option"
  nfc_connected :: bool
  mdl_aid :: bytes

definition nfc_uninitialized :: "'c NfcTransport" where
  "nfc_uninitialized = \<lparr>nfc_context = False, nfc_card = None, nfc_connected = False,
     mdl_aid = [0xA0, 0x00, 0x00, 0x02, 0x48, 0x02, 0x00]\<rparr>"

definition transmit_apdu :: "'c pcsc_env \<Rightarrow> NfcApdu \<Rightarrow> 'c \<Rightarrow> (bytes, Error) result \<times> 'c" where
  "transmit_apdu env a icc =
     op_bind (to_bytes a, icc) (\<lambda>command icc.
     case pcsc_transmit env command icc of (r, icc) \<Rightarrow> (lift_err (\<lambda>m. Transport (lit ''APDU transmit failed: '' @ m)) r, icc))"

definition hex_byte :: "u8 \<Rightarrow> ustr" where
  "hex_byte b = (let digit = (\<lambda>n. if n < 10 then 48 + n else 55 + n) in [digit (unat b div 16), digit (unat b mod 16)])"

definition extract_data :: "bytes \<Rightarrow> (bytes, Error) result" where
  "extract_data response =
     rbind (ensure (\<not> length response < 2) (ReceiveFailed (lit ''Invalid response''))) (\<lambda>_.
     rbind (index_at response (length response - 2)) (\<lambda>a.
     rbind (index_at response (length response - 1)) (\<lambda>b.
     if a = 0x90 \<and> b = 0x00 then slice response 0 (length response - 2)
     else Err (ReceiveFailed (lit ''APDU error: SW='' @ hex_byte a @ hex_byte b)))))"

definition nfc_connect :: "'c pcsc_env \<Rightarrow> 'c NfcTransport \<Rightarrow> (unit, Error) result \<times> 'c NfcTransport" where
  "nfc_connect env t =
     op_bind (lift_err (\<lambda>m. Transport (lit ''PCSC context error: '' @ m)) (pcsc_establish env), t) (\<lambda>_ t.
     op_bind (lift_err (\<lambda>m. Transport (lit ''No NFC readers found: '' @ m)) (pcsc_list_readers env), t) (\<lambda>readers t.
     op_bind (ok_or (get_at readers 0) (Transport (lit ''No NFC reader available'')), t) (\<lambda>reader t.
     op_bind (lift_err (\<lambda>m. ConnectionFailed (lit ''Card connection failed: '' @ m)) (pcsc_connect env reader), t) (\<lambda>icc t.
     case transmit_apdu env (apdu_select (mdl_aid t)) icc of (r, icc) \<Rightarrow>
     op_bind (r, t) (\<lambda>response t.
     op_bind (ensure (\<not> (length response < 2 \<or> drop (length response - 2) response \<noteq> [0x90, 0x00]))
                (Transport (lit ''Failed to select mDL application'')), t) (\<lambda>_ t.
     (Ok (), t\<lparr>nfc_context := True, nfc_card := Some icc, nfc_connected := True\<rparr>)))))))"

primrec send_envelopes :: "'c pcsc_env \<Rightarrow> NfcApdu list \<Rightarrow> 'c \<Rightarrow> (unit, Error) result \<times> 'c" where
  "send_envelopes env [] icc = (Ok (), icc)"
| "send_envelopes env (a # as) icc =
     op_bind (transmit_apdu env a icc) (\<lambda>response icc.
     op_bind (extract_data response, icc) (\<lambda>_ icc.
     send_envelopes env as icc))"

definition nfc_send :: "'c pcsc_env \<Rightarrow> bytes \<Rightarrow> 'c NfcTransport \<Rightarrow> (unit, Error) result \<times> 'c NfcTransport" where
  "nfc_send env d t =
     (if \<not> nfc_connected t then (Err not_connected, t)
      else case nfc_card t of
          None \<Rightarrow> (Err (Transport (lit ''No card connected'')), t)
        | Some icc \<Rightarrow> (case send_envelopes env (envelope_chunks d) icc of (r, icc) \<Rightarrow> (r, t\<lparr>nfc_card := Some icc\<rparr>)))"

definition nfc_receive :: "'c pcsc_env \<Rightarrow> 'c NfcTransport \<Rightarrow> (bytes, Error) result \<times> 'c NfcTransport" where
  "nfc_receive env t =
     (if \<not> nfc_connected t then (Err not_connected, t)
      else case nfc_card t of
          None \<Rightarrow> (Err (Transport (lit ''No card connected'')), t)
        | Some icc \<Rightarrow>
            (case transmit_apdu env (apdu_get_data 0x53) icc of (r, icc) \<Rightarrow> (rbind r extract_data, t\<lparr>nfc_card := Some icc\<rparr>)))"

definition nfc_close :: "'c NfcTransport \<Rightarrow> (unit, Error) result \<times> 'c NfcTransport" where
  "nfc_close t = (Ok (), t\<lparr>nfc_card := None, nfc_context := False, nfc_connected := False\<rparr>)"

definition nfc_transport :: "'c pcsc_env \<Rightarrow> 'c NfcTransport Transport" where
  "nfc_transport env = \<lparr>connect = nfc_connect env, send = nfc_send env, receive = nfc_receive env, close = nfc_close,
     is_connected = nfc_connected\<rparr>"

subsection \<open>BLE transport\<close>

text \<open>\<open>Uuid::from_u128\<close>, and the operations of the BLE library on adapters and peripherals.\<close>

definition uuid_from_u128 :: "nat \<Rightarrow> uuid" where
  "uuid_from_u128 n = map (\<lambda>i. of_nat (n div 256 ^ (15 - i) mod 256)) [0..<16]"

definition MDL_SERVICE_UUID :: nat where "MDL_SERVICE_UUID = 0x0000fff000001000800000805f9b34fb"
definition CHAR_CLIENT2SERVER :: nat where "CHAR_CLIENT2SERVER = 0x0000fff200001000800000805f9b34fb"
definition CHAR_SERVER2CLIENT :: nat where "CHAR_SERVER2CLIENT = 0x0000fff300001000800000805f9b34fb"

record ('a, 'p, 'ch) ble_env =
  ble_manager :: "ustr + unit"
  ble_adapters :: "ustr + 'a list"
  ble_start_scan :: "'a \<Rightarrow> ustr + unit"
  ble_peripherals :: "'a \<Rightarrow> ustr + 'p list"
  ble_properties :: "'p \<Rightarrow> ustr + uuid list option"
  ble_connect_to :: "'p \<Rightarrow> (ustr + unit) \<times> 'p"
  ble_discover_services :: "'p \<Rightarrow> (ustr + unit) \<times> 'p"
  ble_characteristics :: "'p \<Rightarrow> 'ch list"
  ble_char_uuid :: "'ch \<Rightarrow> uuid"
  ble_subscribe :: "'ch \<Rightarrow> 'p \<Rightarrow> (ustr + unit) \<times> 'p"
  ble_write :: "'ch \<Rightarrow> bytes \<Rightarrow> 'p \<Rightarrow> (ustr + unit) \<times> 'p"
  ble_read :: "'ch \<Rightarrow> 'p \<Rightarrow> (ustr + bytes) option \<times> 'p"
  ble_disconnect :: "'p \<Rightarrow> (ustr + unit) \<times> 'p"

record ('p, 'ch) BleTransport =
  peripheral :: "'p option"
  service_uuid :: uuid
  client2server :: "'ch option"
  server2client :: "'ch option"
  ble_connected :: bool
  mtu :: nat

definition ble_new :: "('p, 'ch) BleTransport" where
  "ble_new = \<lparr>peripheral = None, service_uuid = uuid_from_u128 MDL_SERVICE_UUID, client2server = None, server2client = None,
     ble_connected = False, mtu = 512\<rparr>"

definition with_service_uuid :: "(ustr \<Rightarrow> ustr + uuid) \<Rightarrow> ustr \<Rightarrow> (('p, 'ch) BleTransport, Error) result" where
  "with_service_uuid parse s =
     rbind (lift_err (\<lambda>m. Transport (lit ''Invalid UUID: '' @ m)) (parse s)) (\<lambda>u. Ok (ble_new\<lparr>service_uuid := u\<rparr>))"

definition attach ::
    "('a, 'p, 'ch) ble_env \<Rightarrow> 'p \<Rightarrow> ('p, 'ch) BleTransport \<Rightarrow> (bool, Error) result \<times> ('p, 'ch) BleTransport" where
  "attach env p t =
     (case ble_connect_to env p of (r, p) \<Rightarrow>
      op_bind (lift_err (\<lambda>m. ConnectionFailed (lit ''Connection failed: '' @ m)) r, t) (\<lambda>_ t.
      case ble_discover_services env p of (r, p) \<Rightarrow>
      op_bind (lift_err (\<lambda>m. Transport (lit ''Service discovery failed: '' @ m)) r, t) (\<lambda>_ t.
      let t = t\<lparr>client2server := List.find (\<lambda>c. ble_char_uuid env c = uuid_from_u128 CHAR_CLIENT2SERVER) (ble_characteristics env p),
                server2client := List.find (\<lambda>c. ble_char_uuid env c = uuid_from_u128 CHAR_SERVER2CLIENT) (ble_characteristics env p)\<rparr> in
      (case (client2server t, server2client t) of
         (Some _, Some c) \<Rightarrow>
           (case ble_subscribe env c p of (r, p) \<Rightarrow>
              op_bind (lift_err (\<lambda>m. Transport (lit ''Subscribe failed: '' @ m)) r, t\<lparr>peripheral := Some p, ble_connected := True\<rparr>)
                (\<lambda>_ t. (Ok True, t)))
       | _ \<Rightarrow> (Ok False, t)))))"

primrec attach_first ::
    "('a, 'p, 'ch) ble_env \<Rightarrow> 'p list \<Rightarrow> ('p, 'ch) BleTransport \<Rightarrow> (unit, Error) result \<times> ('p, 'ch) BleTransport" where
  "attach_first env [] t = (Err (ConnectionFailed (lit ''No MDL device found'')), t)"
| "attach_first env (p # ps) t =
     op_bind (lift_err (\<lambda>m. Transport (lit ''Failed to get properties: '' @ m)) (ble_properties env p), t) (\<lambda>properties t.
     if (case properties of Some services \<Rightarrow> service_uuid t \<in> set services | None \<Rightarrow> False)
     then op_bind (attach env p t) (\<lambda>done t. if done then (Ok (), t) else attach_first env ps t)
     else attach_first env ps t)"

definition discover_and_connect ::
    "('a, 'p, 'ch) ble_env \<Rightarrow> ('p, 'ch) BleTransport \<Rightarrow> (unit, Error) result \<times> ('p, 'ch) BleTransport" where
  "discover_and_connect env t =
     op_bind (lift_err (\<lambda>m. Transport (lit ''BLE manager error: '' @ m)) (ble_manager env), t) (\<lambda>_ t.
     op_bind (lift_err (\<lambda>m. Transport (lit ''No BLE adapters: '' @ m)) (ble_adapters env), t) (\<lambda>adapters t.
     op_bind (ok_or (get_at adapters 0) (Transport (lit ''No BLE adapter found'')), t) (\<lambda>adapter t.
     op_bind (lift_err (\<lambda>m. Transport (lit ''Scan failed: '' @ m)) (ble_start_scan env adapter), t) (\<lambda>_ t.
     op_bind (lift_err (\<lambda>m. Transport (lit ''Failed to get peripherals: '' @ m)) (ble_peripherals env adapter), t) (\<lambda>ps t.
     attach_first env ps t)))))"

text \<open>\<open>mtu - 3\<close> and \<open>chunks(0)\<close> panic for an MTU of at most three bytes.\<close>

definition fragment_message :: "('p, 'ch) BleTransport \<Rightarrow> bytes \<Rightarrow> (bytes list, Error) result" where
  "fragment_message t data = (if mtu t \<le> 3 then Panic else Ok (chunks (mtu t - 3) data))"

definition reassemble_fragments :: "bytes list \<Rightarrow> bytes" where
  "reassemble_fragments fragments = concat fragments"

primrec write_fragments :: "('a, 'p, 'ch) ble_env \<Rightarrow> 'ch \<Rightarrow> bytes list \<Rightarrow> 'p \<Rightarrow> (unit, Error) result \<times> 'p" where
  "write_fragments env c [] p = (Ok (), p)"
| "write_fragments env c (f # fs) p =
     (case ble_write env c f p of (r, p) \<Rightarrow>
        op_bind (lift_err (\<lambda>m. SendFailed (lit ''BLE write failed: '' @ m)) r, p) (\<lambda>_ p. write_fragments env c fs p))"

definition ble_send ::
    "('a, 'p, 'ch) ble_env \<Rightarrow> bytes \<Rightarrow> ('p, 'ch) BleTransport \<Rightarrow> (unit, Error) result \<times> ('p, 'ch) BleTransport" where
  "ble_send env d t =
     (if \<not> ble_connected t then (Err not_connected, t)
      else case peripheral t of
          None \<Rightarrow> (Err (Transport (lit ''No peripheral'')), t)
        | Some p \<Rightarrow>
            (case client2server t of
               None \<Rightarrow> (Err (Transport (lit ''No characteristic'')), t)
             | Some c \<Rightarrow>
                 op_bind (fragment_message t d, t) (\<lambda>fragments t.
                 case write_fragments env c fragments p of (r, p) \<Rightarrow> (r, t\<lparr>peripheral := Some p\<rparr>))))"

definition ble_receive ::
    "('a, 'p, 'ch) ble_env \<Rightarrow> ('p, 'ch) BleTransport \<Rightarrow> (bytes, Error) result \<times> ('p, 'ch) BleTransport" where
  "ble_receive env t =
     (if \<not> ble_connected t then (Err not_connected, t)
      else case peripheral t of
          None \<Rightarrow> (Err (Transport (lit ''No peripheral'')), t)
        | Some p \<Rightarrow>
            (case server2client t of
               None \<Rightarrow> (Err (Transport (lit ''No characteristic'')), t)
             | Some c \<Rightarrow>
                 (case ble_read env c p of
                    (None, p) \<Rightarrow> (Err Timeout, t\<lparr>peripheral := Some p\<rparr>)
                  | (Some r, p) \<Rightarrow> (lift_err (\<lambda>m. ReceiveFailed (lit ''BLE read failed: '' @ m)) r, t\<lparr>peripheral := Some p\<rparr>))))"

definition ble_close ::
    "('a, 'p, 'ch) ble_env \<Rightarrow> ('p, 'ch) BleTransport \<Rightarrow> (unit, Error) result \<times> ('p, 'ch) BleTransport" where
  "ble_close env t =
     op_bind (case peripheral t of
                None \<Rightarrow> (Ok (), t)
              | Some p \<Rightarrow> (case ble_disconnect env p of (r, p) \<Rightarrow>
                  (lift_err (\<lambda>m. Transport (lit ''Disconnect failed: '' @ m)) r, t\<lparr>peripheral := Some p\<rparr>))) (\<lambda>_ t.
     (Ok (), t\<lparr>ble_connected := False, peripheral := None, client2server := None, server2client := None\<rparr>))"

definition ble_transport :: "('a, 'p, 'ch) ble_env \<Rightarrow> ('p, 'ch) BleTransport Transport" where
  "ble_transport env = \<lparr>connect = discover_and_connect env, send = ble_send env, receive = ble_receive env, close = ble_close env,
     is_connected = ble_connected\<rparr>"

subsection \<open>Session channel\<close>

record ('k, 't) SessionChannel =
  session :: "'k Session"
  transport :: 't

definition on_session ::
    "('k Session \<Rightarrow> ('a, Error) result \<times> 'k Session) \<Rightarrow> ('k, 't) SessionChannel \<Rightarrow> ('a, Error) result \<times> ('k, 't) SessionChannel" where
  "on_session f ch = (case f (session ch) of (r, s) \<Rightarrow> (r, ch\<lparr>session := s\<rparr>))"

definition on_transport ::
    "('t \<Rightarrow> ('a, Error) result \<times> 't) \<Rightarrow> ('k, 't) SessionChannel \<Rightarrow> ('a, Error) result \<times> ('k, 't) SessionChannel" where
  "on_transport f ch = (case f (transport ch) of (r, t) \<Rightarrow> (r, ch\<lparr>transport := t\<rparr>))"

text \<open>The error of a failed step, after terminating the session.\<close>

definition or_terminate :: "('a, Error) result \<times> ('k, 't) SessionChannel \<Rightarrow> ('a, Error) result \<times> ('k, 't) SessionChannel" where
  "or_terminate m =
     (case m of
        (Err x, ch) \<Rightarrow> op_bind (on_session terminate ch) (\<lambda>_ ch. (Err x, ch))
      | _ \<Rightarrow> m)"

definition channel_connect ::
    "'t Transport \<Rightarrow> 'k Session \<Rightarrow> 't \<Rightarrow> (unit, Error) result \<times> ('k, 't) SessionChannel" where
  "channel_connect T s t = or_terminate (on_transport (connect T) \<lparr>session = s, transport = t\<rparr>)"

definition channel_send ::
    "('i, 'k, 'x) mdl_env_scheme \<Rightarrow> 't Transport \<Rightarrow> nat \<Rightarrow> nat \<Rightarrow> bytes \<Rightarrow> ('k, 't) SessionChannel
       \<Rightarrow> (unit, Error) result \<times> ('k, 't) SessionChannel" where
  "channel_send env T now later plaintext ch =
     op_bind (on_session (send_encrypted env now later plaintext) ch) (\<lambda>ciphertext ch.
     or_terminate (on_transport (send T ciphertext) ch))"

definition channel_receive ::
    "('i, 'k, 'x) mdl_env_scheme \<Rightarrow> 't Transport \<Rightarrow> nat \<Rightarrow> nat \<Rightarrow> ('k, 't) SessionChannel
       \<Rightarrow> (bytes, Error) result \<times> ('k, 't) SessionChannel" where
  "channel_receive env T now later ch =
     op_bind (or_terminate (on_transport (receive T) ch)) (\<lambda>ciphertext ch.
     or_terminate (on_session (receive_encrypted env now later ciphertext) ch))"

definition channel_close :: "'t Transport \<Rightarrow> ('k, 't) SessionChannel \<Rightarrow> (unit, Error) result \<times> ('k, 't) SessionChannel" where
  "channel_close T ch =
     (case on_transport (close T) ch of
        (Panic, ch) \<Rightarrow> (Panic, ch)
      | (transport_result, ch) \<Rightarrow> op_bind (on_session terminate ch) (\<lambda>_ ch. (transport_result, ch)))"

subsection \<open>Channel operations fail closed\<close>

lemma or_terminate_simps [simp]:
  "or_terminate (Ok v, ch) = (Ok v, ch)" "or_terminate (Panic, ch) = (Panic, ch)"
  "or_terminate (Err x, ch) = (Err x, ch\<lparr>session := snd (terminate (session ch))\<rparr>)"
  by (simp_all add: or_terminate_def on_session_def terminate_def)

lemma on_session_eq: "on_session f ch = (fst (f (session ch)), ch\<lparr>session := snd (f (session ch))\<rparr>)"
  by (simp add: on_session_def split_beta)

lemma on_transport_eq: "on_transport f ch = (fst (f (transport ch)), ch\<lparr>transport := snd (f (transport ch))\<rparr>)"
  by (simp add: on_transport_def split_beta)

lemma or_terminate_Err: "or_terminate m = (Err x, ch) \<Longrightarrow> closed (session ch) \<and> transport ch = transport (snd m)"
  by (cases m; cases "fst m") auto

lemma or_terminate_closed: "closed (session (snd m)) \<Longrightarrow> closed (session (snd (or_terminate m)))"
  by (cases m; cases "fst m") auto

lemma or_terminate_Ok [simp]: "or_terminate m = (Ok v, ch) \<longleftrightarrow> m = (Ok v, ch)" "transport (snd (or_terminate m)) = transport (snd m)"
  "fst (or_terminate m) = fst m"
  by (cases m; cases "fst m"; auto)+

lemma channel_close_session: "fst (channel_close T ch) \<noteq> Panic \<Longrightarrow> closed (session (snd (channel_close T ch)))"
  by (auto simp: channel_close_def on_transport_eq on_session_def terminate_def closed_def clear_private_state_def split: result.splits)

lemma channel_receive_Err: "channel_receive env T now later ch = (Err x, ch') \<Longrightarrow> closed (session ch')"
  by (auto simp: channel_receive_def op_bind_eq_Err dest: or_terminate_Err)

lemma channel_send_Err:
  "channel_send env T now later m ch = (Err x, ch') \<Longrightarrow>
     closed (session ch') \<or> transport ch' = transport ch \<and> send_encrypted env now later m (session ch) = (Err x, session ch')"
  unfolding channel_send_def op_bind_eq_Err
  by (cases "send_encrypted env now later m (session ch)") (auto simp: on_session_def dest: or_terminate_Err)

lemma closed_session_calls:
  assumes "closed s"
  shows "\<exists>x. fst (send_encrypted env now later m s) = Err x" "closed (snd (send_encrypted env now later m s))"
    "\<exists>x. fst (receive_encrypted env now later m s) = Err x" "closed (snd (receive_encrypted env now later m s))"
  using assms by (auto simp: send_encrypted_def receive_encrypted_def ensure_not_expired_def ensure_def closed_def
      expire_session_def clear_private_state_def)

lemma closed_channel_send:
  assumes "closed (session ch)"
  shows "\<exists>x ch'. channel_send env T now later m ch = (Err x, ch') \<and> closed (session ch') \<and> transport ch' = transport ch"
  using closed_session_calls(1,2) [OF assms, of env now later m] by (auto simp: channel_send_def on_session_eq)

lemma closed_channel_receive:
  assumes "closed (session ch)"
  shows "(\<forall>v. fst (channel_receive env T now later ch) \<noteq> Ok v) \<and> closed (session (snd (channel_receive env T now later ch)))"
proof (cases "fst (receive T (transport ch))")
  case (Ok c)
  then show ?thesis using closed_session_calls(3,4) [OF assms, of env now later c]
    by (auto simp: channel_receive_def on_session_eq on_transport_eq)
qed (use assms in \<open>auto simp: channel_receive_def on_transport_eq\<close>)

subsection \<open>What every transport promises\<close>

text \<open>What a disconnected transport makes of the calls on its channel.\<close>

definition refuses ::
    "('i, 'k, 'x) mdl_env_scheme \<Rightarrow> 't Transport \<Rightarrow> nat \<Rightarrow> nat \<Rightarrow> bytes \<Rightarrow> ('k, 't) SessionChannel \<Rightarrow> bool" where
  "refuses env T now later m ch \<longleftrightarrow>
     fst (channel_send env T now later m ch) \<noteq> Ok () \<and> transport (snd (channel_send env T now later m ch)) = transport ch
     \<and> (\<exists>x ch'. channel_receive env T now later ch = (Err x, ch') \<and> transport ch' = transport ch \<and> closed (session ch'))"

text \<open>
  A transport that is not connected refuses to send and to receive and stays as it is; connecting
  and closing, when they succeed, make it connected and not connected; and the connection does not
  change while data is exchanged.
\<close>

locale transport_contract =
  fixes T :: "'t Transport"
  assumes send_refused: "\<not> is_connected T t \<Longrightarrow> \<exists>x. send T d t = (Err x, t)"
    and receive_refused: "\<not> is_connected T t \<Longrightarrow> \<exists>x. receive T t = (Err x, t)"
    and connect_ok: "connect T t = (Ok (), t') \<Longrightarrow> is_connected T t'"
    and close_ok: "close T t = (Ok (), t') \<Longrightarrow> \<not> is_connected T t'"
    and send_keeps: "send T d t = (r, t') \<Longrightarrow> is_connected T t' = is_connected T t"
    and receive_keeps: "receive T t = (v, t') \<Longrightarrow> is_connected T t' = is_connected T t"
begin

lemma connected_channel: "channel_connect T s t = (Ok (), ch) \<Longrightarrow> is_connected T (transport ch) \<and> session ch = s"
  using connect_ok by (auto simp: channel_connect_def or_terminate_def on_transport_def split: prod.splits result.splits)

lemma closed_channel: "fst (channel_close T ch) = Ok () \<Longrightarrow> \<not> is_connected T (transport (snd (channel_close T ch)))"
  using close_ok [of "transport ch" "snd (close T (transport ch))"]
  by (auto simp: channel_close_def on_transport_eq on_session_def terminate_def prod_eq_iff split: result.splits)

lemma disconnected_send:
  assumes "\<not> is_connected T (transport ch)"
  shows "transport (snd (channel_send env T now later m ch)) = transport ch \<and> fst (channel_send env T now later m ch) \<noteq> Ok ()"
  using send_refused [OF assms, of "case fst (send_encrypted env now later m (session ch)) of Ok c \<Rightarrow> c | _ \<Rightarrow> []"]
  by (cases "fst (send_encrypted env now later m (session ch))") (auto simp: channel_send_def on_session_eq on_transport_eq)

lemma disconnected_receive:
  assumes "\<not> is_connected T (transport ch)"
  shows "\<exists>x ch'. channel_receive env T now later ch = (Err x, ch') \<and> transport ch' = transport ch \<and> closed (session ch')"
  using receive_refused [OF assms] by (auto simp: channel_receive_def on_transport_eq)

lemma disconnected: "\<not> is_connected T (transport ch) \<Longrightarrow> refuses env T now later m ch"
  using disconnected_send [of ch env now later m] disconnected_receive [of ch env now later] by (simp add: refuses_def)

end

text \<open>A transport that hands over its incoming messages in order and keeps what was sent.\<close>

locale fifo_transport = transport_contract +
  fixes outgoing incoming :: "'t \<Rightarrow> bytes list"
  assumes send_appends: "is_connected T t \<Longrightarrow> \<exists>t'. send T d t = (Ok (), t') \<and> outgoing t' = outgoing t @ [d] \<and> incoming t' = incoming t"
    and receive_pops: "is_connected T t \<Longrightarrow> incoming t = d # ds
      \<Longrightarrow> \<exists>t'. receive T t = (Ok d, t') \<and> incoming t' = ds \<and> outgoing t' = outgoing t"
begin

lemma channel_sends:
  assumes "is_connected T (transport ch)" "send_encrypted env now later m (session ch) = (Ok c, s)"
  shows "\<exists>ch'. channel_send env T now later m ch = (Ok (), ch') \<and> session ch' = s
     \<and> outgoing (transport ch') = outgoing (transport ch) @ [c] \<and> incoming (transport ch') = incoming (transport ch)"
  using send_appends [OF assms(1), of c] assms(2)
  by (auto simp: channel_send_def on_session_def on_transport_def or_terminate_def)

lemma channel_receives:
  assumes "is_connected T (transport ch)" "incoming (transport ch) = c # cs" "receive_encrypted env now later c (session ch) = (Ok m, s)"
  shows "\<exists>ch'. channel_receive env T now later ch = (Ok m, ch') \<and> session ch' = s
     \<and> incoming (transport ch') = cs \<and> outgoing (transport ch') = outgoing (transport ch)"
  using receive_pops [OF assms(1,2)] assms(3)
  by (auto simp: channel_receive_def on_session_def on_transport_def or_terminate_def)

end

interpretation mock: fifo_transport mock_transport send_queue receive_queue
  by unfold_locales
    (auto simp: mock_transport_def mock_send_def mock_receive_def mock_connect_def mock_close_def split: list.splits if_splits)

lemma mock_channels_deliver:
  assumes "gcm_ok env" "linked env (session a) (session b) [] [] []" "send_encrypted env now later m (session a) = (Ok c, s)"
    and "mock_connected (transport a)" "send_queue (transport a) = []" "mock_connected (transport b)" "receive_queue (transport b) = []"
    and "session_state (session b) = Established" "now' < deadline (session b)" "later' < deadline (session b)"
      "length m \<le> message_limit (session b)"
  shows "\<exists>a' b'. channel_send env mock_transport now later m a = (Ok (), a') \<and> send_queue (transport a') = [c]
     \<and> channel_receive env mock_transport now' later' (b\<lparr>transport := queue_receive c (transport b)\<rparr>) = (Ok m, b')"
proof -
  have conn: "is_connected mock_transport = mock_connected" by (simp add: mock_transport_def)
  have "linked env s (session b) [c] [m] []" using linked_send [OF assms(2,3)] by simp
  from linked_delivers [OF assms(1) this assms(8-10)] assms(11)
  have "receive_encrypted env now' later' c (session b) = (Ok m, snd (receive_encrypted env now' later' c (session b)))"
    by (simp add: prod_eq_iff)
  then show ?thesis
    using mock.channel_sends [of a env now later m c s] mock.channel_receives [of "b\<lparr>transport := queue_receive c (transport b)\<rparr>" c "[]"]
      assms(3-7) unfolding conn by (fastforce simp: queue_receive_def)
qed

interpretation https: transport_contract "https_transport env"
  by unfold_locales
    (auto simp: https_transport_def https_send_def https_receive_def https_connect_def https_close_def split: prod.splits if_splits)

lemma nfc_connect_Ok: "nfc_connect env t = (Ok (), t') \<Longrightarrow> nfc_connected t'"
  by (cases "transmit_apdu env (apdu_select (mdl_aid t)) (projr (pcsc_connect env (hd (projr (pcsc_list_readers env)))))")
    (auto simp: nfc_connect_def split_beta)

interpretation nfc: transport_contract "nfc_transport env"
  by unfold_locales
    (auto simp: nfc_transport_def nfc_send_def nfc_receive_def nfc_close_def nfc_connect_Ok split: prod.splits if_splits option.splits)

lemma attach_Ok: "attach env p t = (Ok True, t') \<Longrightarrow> ble_connected t'"
  by (auto simp: attach_def Let_def split: prod.splits option.splits)

lemma attach_first_Ok: "attach_first env ps t = (Ok (), t') \<Longrightarrow> ble_connected t'"
  by (induction ps arbitrary: t) (auto split: if_splits dest: attach_Ok)

lemma ble_send_keeps: "ble_send env d t = (r, t') \<Longrightarrow> ble_connected t' = ble_connected t"
  by (auto simp: ble_send_def fragment_message_def split: if_splits option.splits prod.splits)

interpretation ble: transport_contract "ble_transport env"
proof unfold_locales
  show "connect (ble_transport env) t = (Ok (), t') \<Longrightarrow> is_connected (ble_transport env) t'" for t t'
    by (auto simp: ble_transport_def discover_and_connect_def dest: attach_first_Ok)
qed (auto simp: ble_transport_def ble_receive_def ble_close_def ble_send_def fragment_message_def
    split: if_splits option.splits prod.splits)


definition sample_channel :: "(bool, MockTransport) SessionChannel" where
  "sample_channel = \<lparr>session = sample_holder, transport = mock_new\<lparr>mock_connected := True\<rparr>\<rparr>"


text \<open>
  A disconnected channel moves no data, whichever of the four transports it uses: after a
  successful \<open>close\<close> the transport is not connected, and on a transport that is not connected a
  send fails and leaves the transport as it was, and a receive fails, leaves the transport as it
  was and terminates the session.
\<close>

theorem disconnected_channels_refuse:
  "(fst (channel_close mock_transport a) = Ok () \<longrightarrow> \<not> mock_connected (transport (snd (channel_close mock_transport a))))
   \<and> (\<not> mock_connected (transport a) \<longrightarrow> refuses env mock_transport now later m a)
   \<and> (fst (channel_close (https_transport w) b) = Ok () \<longrightarrow> \<not> https_connected (transport (snd (channel_close (https_transport w) b))))
   \<and> (\<not> https_connected (transport b) \<longrightarrow> refuses env (https_transport w) now later m b)
   \<and> (fst (channel_close (nfc_transport r) c) = Ok () \<longrightarrow> \<not> nfc_connected (transport (snd (channel_close (nfc_transport r) c))))
   \<and> (\<not> nfc_connected (transport c) \<longrightarrow> refuses env (nfc_transport r) now later m c)
   \<and> (fst (channel_close (ble_transport q) d) = Ok () \<longrightarrow> \<not> ble_connected (transport (snd (channel_close (ble_transport q) d))))
   \<and> (\<not> ble_connected (transport d) \<longrightarrow> refuses env (ble_transport q) now later m d)"
proof -
  have conn: "is_connected mock_transport = mock_connected" "is_connected (https_transport w) = https_connected"
    "is_connected (nfc_transport r) = nfc_connected" "is_connected (ble_transport q) = ble_connected"
    by (simp_all add: mock_transport_def https_transport_def nfc_transport_def ble_transport_def)
  show ?thesis
    using mock.disconnected [of a env now later m] mock.closed_channel [of a]
      https.disconnected [of w b env now later m] https.closed_channel [of w b]
      nfc.disconnected [of r c env now later m] nfc.closed_channel [of r c]
      ble.disconnected [of q d env now later m] ble.closed_channel [of q d]
    unfolding conn by blast
qed

theorem disconnected_channels_refuse_witness:
  "fst (channel_close mock_transport sample_channel) = Ok ()
   \<and> refuses sample_mdl_env mock_transport 5 6 [1, 2] (snd (channel_close mock_transport sample_channel))"
proof -
  have "fst (channel_close mock_transport sample_channel) = Ok ()"
    by (simp add: channel_close_def on_transport_def on_session_def terminate_def mock_transport_def mock_close_def)
  then show ?thesis
    using disconnected_channels_refuse [of sample_channel] disconnected_channels_refuse [of "snd (channel_close mock_transport sample_channel)"]
    by blast
qed

subsection \<open>Envelopes\<close>

lemma envelope_chunks_nth:
  assumes "i < length (envelope_chunks d)"
  shows "\<exists>b. envelope_chunks d ! i = envelope b (i + 1 < length (envelope_chunks d)) \<and> length b \<le> MAX_DATA_LENGTH"
proof (cases "d = []")
  case False
  have pos: "0 < MAX_DATA_LENGTH" by (simp add: MAX_DATA_LENGTH_def)
  have "i < length (chunks MAX_DATA_LENGTH d)" using assms False by (simp add: envelope_chunks_def)
  moreover from this have "length (chunks MAX_DATA_LENGTH d ! i) \<le> MAX_DATA_LENGTH" using chunks_lengths [OF pos nth_mem] by blast
  ultimately show ?thesis
    using False by (auto simp: envelope_chunks_def nth_enumerate_eq length_chunks [OF pos])
qed (use assms in \<open>auto simp: envelope_chunks_def intro: exI [of _ "[]"]\<close>)

lemma envelope_chunks_data: "concat (map apdu_data (envelope_chunks d)) = d"
proof (cases "d = []")
  case False
  have "map apdu_data (envelope_chunks d) = map snd (enumerate 0 (chunks MAX_DATA_LENGTH d))"
    using False by (simp add: envelope_chunks_def envelope_def Let_def comp_def split_beta del: map_snd_enumerate)
  then show ?thesis by (simp add: concat_chunks MAX_DATA_LENGTH_def)
qed (simp add: envelope_chunks_def envelope_def)

lemma envelope_chunks_nonempty: "envelope_chunks d \<noteq> []"
  by (cases "d = []") (auto simp: envelope_chunks_def chunks.simps [of _ d] MAX_DATA_LENGTH_def Let_def)

text \<open>The expected length a card reads: in the short and the extended form, the maximum is written as zero.\<close>

definition coded_le :: "NfcApdu \<Rightarrow> nat option" where
  "coded_le a = map_option (\<lambda>n. if length (apdu_data a) > 255 \<or> n > 256 then n mod 65536 else n mod 256) (apdu_le a)"

lemma to_bytes_Ok:
  "to_bytes a = Ok raw \<Longrightarrow> length (apdu_data a) \<le> 65535 \<and> (\<forall>n. apdu_le a = Some n \<longrightarrow> 0 < n \<and> n \<le> 65536)"
  by (auto simp: to_bytes_def MAX_DATA_LENGTH_def split: option.splits)

lemma to_bytes_decodes:
  assumes "to_bytes a = Ok raw"
  shows "command_from_bytes raw = Ok \<lparr>cla = apdu_cla a, ins = apdu_ins a, p1 = apdu_p1 a, p2 = apdu_p2 a, cmd_data = apdu_data a,
     le = coded_le a\<rparr>"
proof -
  define extended where "extended \<longleftrightarrow> length (apdu_data a) > 255 \<or> (case apdu_le a of None \<Rightarrow> False | Some n \<Rightarrow> n > 256)"
  define e where "e = coded_le a"
  have len: "length (apdu_data a) \<le> 65535" and le: "\<And>n. apdu_le a = Some n \<Longrightarrow> 0 < n \<and> n \<le> 65536"
    using to_bytes_Ok [OF assms] by auto
  have e16: "\<forall>n. e = Some n \<longrightarrow> n \<le> 65535" and e8: "\<not> extended \<Longrightarrow> \<forall>n. e = Some n \<longrightarrow> n \<le> 255"
    by (auto simp: e_def coded_le_def extended_def split: if_splits)
  have trailer: "(case apdu_le a of None \<Rightarrow> [] | Some n \<Rightarrow> if extended then be16 (if n = 65536 then 0 else n mod 65536)
        else [if n = 256 then 0 else of_nat n]) = (case e of None \<Rightarrow> [] | Some n \<Rightarrow> if extended then be16 n else [of_nat n])"
    using le by (cases "apdu_le a") (auto simp: e_def coded_le_def extended_def le_less)
  have raw: "raw = [apdu_cla a, apdu_ins a, apdu_p1 a, apdu_p2 a]
      @ (if apdu_data a \<noteq> [] then
           (if extended then [0x00] @ be16 (length (apdu_data a)) else [of_nat (length (apdu_data a))]) @ apdu_data a
         else if extended then [0x00] else [])
      @ (case e of None \<Rightarrow> [] | Some n \<Rightarrow> if extended then be16 n else [of_nat n])"
    using assms len unfolding to_bytes_def Let_def extended_def [symmetric] trailer by auto
  show ?thesis
  proof (cases "apdu_data a = []")
    case True
    then have "extended \<Longrightarrow> e \<noteq> None" by (auto simp: extended_def e_def coded_le_def split: option.splits)
    then show ?thesis
      unfolding e_def [symmetric] raw using True e8 e16
      by (cases e; cases extended) (simp_all add: command_from_bytes_def Let_def be16_def be16_value u8_of_nat)
  next
    case False
    then show ?thesis
      unfolding e_def [symmetric] raw
      using command_from_short [of "apdu_data a" e "apdu_cla a" "apdu_ins a" "apdu_p1 a" "apdu_p2 a", OF False]
        command_from_extended [of "apdu_data a" e "apdu_cla a" "apdu_ins a" "apdu_p1 a" "apdu_p2 a", OF False len e16] e8
      by (cases extended) (auto simp: extended_def not_less split: option.splits)
  qed
qed

text \<open>A conversation with the card: the commands in order, the answers, and the card afterwards.\<close>

primrec converse :: "'c pcsc_env \<Rightarrow> bytes list \<Rightarrow> 'c \<Rightarrow> (ustr + bytes) list \<times> 'c" where
  "converse env [] icc = ([], icc)"
| "converse env (c # cs) icc =
     (case pcsc_transmit env c icc of (r, icc) \<Rightarrow> case converse env cs icc of (rs, icc) \<Rightarrow> (r # rs, icc))"

definition accepted :: "ustr + bytes \<Rightarrow> bool" where
  "accepted r \<longleftrightarrow> (case r of Inl _ \<Rightarrow> False | Inr response \<Rightarrow> suffix [0x90, 0x00] response)"

lemma extract_data_Ok: "extract_data response = Ok d \<longleftrightarrow> response = d @ [0x90, 0x00]"
  apply (cases response rule: rev_exhaust) apply (simp add: extract_data_def)
  subgoal for xs b
    by (cases xs rule: rev_exhaust) (auto simp: extract_data_def nth_append slice_def index_at_def)
  done

lemma transmit_Ok:
  "transmit_apdu env a icc = (Ok response, icc') \<longleftrightarrow> (\<exists>raw. to_bytes a = Ok raw \<and> pcsc_transmit env raw icc = (Inr response, icc'))"
proof (cases "to_bytes a")
  case (Ok raw)
  then show ?thesis by (cases "pcsc_transmit env raw icc") (auto simp: transmit_apdu_def)
qed (simp_all add: transmit_apdu_def)

lemma send_envelopes_Ok:
  "send_envelopes env as icc = (Ok (), icc') \<Longrightarrow>
     \<exists>raws rs. map to_bytes as = map Ok raws \<and> converse env raws icc = (rs, icc') \<and> (\<forall>r \<in> set rs. accepted r)"
proof (induction as arbitrary: icc)
  case (Cons a as)
  from Cons.prems obtain raw response icc1 d where step: "to_bytes a = Ok raw" "pcsc_transmit env raw icc = (Inr response, icc1)"
      "extract_data response = Ok d" "send_envelopes env as icc1 = (Ok (), icc')"
    by (auto simp: transmit_Ok)
  from Cons.IH [OF step(4)] obtain raws rs where "map to_bytes as = map Ok raws" "converse env raws icc1 = (rs, icc')" "\<forall>r \<in> set rs. accepted r"
    by blast
  then have "map to_bytes (a # as) = map Ok (raw # raws) \<and> converse env (raw # raws) icc = (Inr response # rs, icc')
      \<and> (\<forall>r \<in> set (Inr response # rs). accepted r)"
    using step by (auto simp: extract_data_Ok accepted_def suffix_def)
  then show ?case by blast
qed (auto intro!: exI [of _ "[]"])

lemma envelope_encodes: "length b \<le> MAX_DATA_LENGTH \<Longrightarrow> \<exists>raw. to_bytes (envelope b chained) = Ok raw"
  by (simp add: to_bytes_def envelope_def Let_def not_less)

text \<open>The commands a message is sent with: ENVELOPE, chained except for the last.\<close>

definition envelope_commands :: "ApduCommand list \<Rightarrow> bool" where
  "envelope_commands cmds \<longleftrightarrow> cmds \<noteq> [] \<and>
     list_all (\<lambda>i. cla (cmds ! i) = (if i + 1 < length cmds then 0x10 else 0x00) \<and> ins (cmds ! i) = 0xC3
        \<and> p1 (cmds ! i) = 0 \<and> p2 (cmds ! i) = 0 \<and> length (cmd_data (cmds ! i)) \<le> MAX_DATA_LENGTH) [0..<length cmds]"

lemma sent_commands:
  assumes "map to_bytes (envelope_chunks m) = map Ok raws"
  shows "\<exists>cmds. map command_from_bytes raws = map Ok cmds \<and> concat (map cmd_data cmds) = m \<and> envelope_commands cmds"
proof -
  let ?as = "envelope_chunks m"
  let ?command = "\<lambda>a. \<lparr>cla = apdu_cla a, ins = apdu_ins a, p1 = apdu_p1 a, p2 = apdu_p2 a, cmd_data = apdu_data a, le = coded_le a\<rparr>"
  have len: "length raws = length ?as" using arg_cong [OF assms, of length] by simp
  have "to_bytes (?as ! i) = Ok (raws ! i)" if "i < length ?as" for i
    using that len arg_cong [OF assms, of "\<lambda>l. l ! i"] by simp
  then have "map command_from_bytes raws = map Ok (map ?command ?as)"
    using len by (auto intro!: nth_equalityI simp: to_bytes_decodes)
  moreover have "concat (map cmd_data (map ?command ?as)) = m" by (simp add: comp_def envelope_chunks_data)
  moreover have "envelope_commands (map ?command ?as)"
    unfolding envelope_commands_def list_all_iff
  proof (intro conjI ballI)
    fix i assume "i \<in> set [0..<length (map ?command ?as)]"
    then obtain b where "?as ! i = envelope b (i + 1 < length ?as)" "length b \<le> MAX_DATA_LENGTH" "i < length ?as"
      using envelope_chunks_nth [of i m] by auto
    then show "cla (map ?command ?as ! i) = (if i + 1 < length (map ?command ?as) then 0x10 else 0x00)" "ins (map ?command ?as ! i) = 0xC3"
      "p1 (map ?command ?as ! i) = 0" "p2 (map ?command ?as ! i) = 0" "length (cmd_data (map ?command ?as ! i)) \<le> MAX_DATA_LENGTH"
      by (simp_all add: envelope_def)
  qed (simp add: envelope_chunks_nonempty)
  ultimately show ?thesis by blast
qed

text \<open>
  C16: A message sent over NFC reaches the card whole. Every envelope of a message can be encoded,
  and when \<open>send\<close> succeeds the card has received exactly the ENVELOPE commands of the message, in
  order and each accepted with status 9000: read back by the command parser of the chip reader,
  their data concatenate to the message, every one fits the extended length, and all but the last
  carry the chaining bit.
\<close>

theorem nfc_message_exact:
  "(\<forall>a \<in> set (envelope_chunks m). \<exists>raw. to_bytes a = Ok raw)
   \<and> (nfc_send env m t = (Ok (), t') \<longrightarrow>
      (\<exists>icc icc' raws rs cmds. nfc_card t = Some icc \<and> nfc_card t' = Some icc' \<and> converse env raws icc = (rs, icc')
         \<and> (\<forall>r \<in> set rs. accepted r) \<and> map command_from_bytes raws = map Ok cmds
         \<and> concat (map cmd_data cmds) = m \<and> envelope_commands cmds))"
proof (intro conjI impI ballI)
  fix a assume "a \<in> set (envelope_chunks m)"
  then show "\<exists>raw. to_bytes a = Ok raw" using envelope_chunks_nth [of _ m] envelope_encodes by (metis in_set_conv_nth)
next
  assume "nfc_send env m t = (Ok (), t')"
  then obtain icc icc' where card: "nfc_card t = Some icc" "nfc_card t' = Some icc'"
      and run: "send_envelopes env (envelope_chunks m) icc = (Ok (), icc')"
    by (auto simp: nfc_send_def split_beta prod_eq_iff split: if_splits option.splits)
  from send_envelopes_Ok [OF run] obtain raws rs where sent: "map to_bytes (envelope_chunks m) = map Ok raws"
      "converse env raws icc = (rs, icc')" "\<forall>r \<in> set rs. accepted r" by blast
  with sent_commands [OF sent(1)] card show "\<exists>icc icc' raws rs cmds. nfc_card t = Some icc \<and> nfc_card t' = Some icc'
      \<and> converse env raws icc = (rs, icc') \<and> (\<forall>r \<in> set rs. accepted r) \<and> map command_from_bytes raws = map Ok cmds
      \<and> concat (map cmd_data cmds) = m \<and> envelope_commands cmds" by blast
qed

text \<open>A card that records what it receives and accepts every command.\<close>

definition sample_pcsc :: "bytes list pcsc_env" where
  "sample_pcsc = \<lparr>pcsc_establish = Inr (), pcsc_list_readers = Inr [lit ''reader''], pcsc_connect = (\<lambda>_. Inr []),
     pcsc_transmit = (\<lambda>c icc. (Inr [0x90, 0x00], icc @ [c]))\<rparr>"

definition sample_nfc :: "bytes list NfcTransport" where
  "sample_nfc = snd (nfc_connect sample_pcsc nfc_uninitialized)"

theorem nfc_message_exact_witness:
  "fst (nfc_send sample_pcsc [1, 2, 3] sample_nfc) = Ok ()
   \<and> (\<exists>cmds. envelope_commands cmds \<and> concat (map cmd_data cmds) = [1, 2, 3])"
proof -
  have "nfc_send sample_pcsc [1, 2, 3] sample_nfc = (Ok (), snd (nfc_send sample_pcsc [1, 2, 3] sample_nfc))" by code_simp
  with nfc_message_exact [of "[1, 2, 3]" sample_pcsc sample_nfc "snd (nfc_send sample_pcsc [1, 2, 3] sample_nfc)"]
  show ?thesis by (metis fst_conv)
qed

end
