(* ===== verification/SelectiveDisclosure.thy ===== *)
theory SelectiveDisclosure
  imports MdlEngagement
begin

text \<open>
  Selective disclosure of mDL data elements, after \<open>marty-iso18013/src/selective.rs\<close>. Hash sets are
  sets and hash maps are maps; where the code iterates over one, the order is an argument: the
  request is the list of its entries and \<open>mandatory_order\<close> lists the mandatory elements.
\<close>

subsection \<open>The manager\<close>

record SelectiveDisclosure =
  available :: "ustr \<rightharpoonup> ustr set"
  mandatory :: "ustr set"

definition disclosure_new :: SelectiveDisclosure where
  "disclosure_new = \<lparr>available = Map.empty, mandatory = {}\<rparr>"

definition add_namespace :: "ustr \<Rightarrow> ustr list \<Rightarrow> SelectiveDisclosure \<Rightarrow> SelectiveDisclosure" where
  "add_namespace namespace elements sd = sd\<lparr>available := (available sd)(namespace \<mapsto> set elements)\<rparr>"

definition add_mandatory :: "ustr \<Rightarrow> SelectiveDisclosure \<Rightarrow> SelectiveDisclosure" where
  "add_mandatory element sd = sd\<lparr>mandatory := insert element (mandatory sd)\<rparr>"

definition unavailable :: "ustr \<Rightarrow> Error" where
  "unavailable namespace = Other (lit ''Namespace not available: '' @ namespace)"

subsection \<open>Filtering a request\<close>

primrec push_requested :: "SelectiveDisclosure \<Rightarrow> ustr set \<Rightarrow> ustr set \<Rightarrow> ustr list \<Rightarrow> ustr list \<Rightarrow> ustr list" where
  "push_requested sd avail approved [] acc = acc"
| "push_requested sd avail approved (element # elements) acc =
     push_requested sd avail approved elements
       (if element \<notin> avail then acc
        else if element \<in> mandatory sd \<or> element \<in> approved then acc @ [element] else acc)"

primrec push_mandatory :: "ustr set \<Rightarrow> ustr list \<Rightarrow> ustr list \<Rightarrow> ustr list" where
  "push_mandatory avail [] acc = acc"
| "push_mandatory avail (element # elements) acc =
     push_mandatory avail elements (if element \<in> avail \<and> element \<notin> set acc then acc @ [element] else acc)"

primrec filter_namespaces ::
    "SelectiveDisclosure \<Rightarrow> ustr list \<Rightarrow> (ustr \<rightharpoonup> ustr list) \<Rightarrow> (ustr \<times> ustr list) list \<Rightarrow> (ustr \<rightharpoonup> ustr list)
       \<Rightarrow> (ustr \<rightharpoonup> ustr list, Error) result" where
  "filter_namespaces sd mandatory_order user_approved [] filtered = Ok filtered"
| "filter_namespaces sd mandatory_order user_approved (entry # requested) filtered =
     (case entry of (namespace, elements) \<Rightarrow>
      rbind (ok_or (available sd namespace) (unavailable namespace)) (\<lambda>avail.
      let approved = (case user_approved namespace of None \<Rightarrow> {} | Some v \<Rightarrow> set v);
          namespace_elements = push_mandatory avail mandatory_order (push_requested sd avail approved elements []) in
      filter_namespaces sd mandatory_order user_approved requested
        (if namespace_elements \<noteq> [] then filtered(namespace \<mapsto> namespace_elements) else filtered)))"

definition filter_request ::
    "SelectiveDisclosure \<Rightarrow> ustr list \<Rightarrow> (ustr \<times> ustr list) list \<Rightarrow> (ustr \<rightharpoonup> ustr list) \<Rightarrow> (ustr \<rightharpoonup> ustr list, Error) result" where
  "filter_request sd mandatory_order requested user_approved =
     filter_namespaces sd mandatory_order user_approved requested Map.empty"

subsection \<open>What is disclosed\<close>

text \<open>The elements of one namespace: what was asked for and may be shown, then the mandatory rest.\<close>

definition permitted :: "SelectiveDisclosure \<Rightarrow> (ustr \<rightharpoonup> ustr list) \<Rightarrow> ustr \<Rightarrow> ustr \<Rightarrow> bool" where
  "permitted sd user_approved namespace element \<longleftrightarrow>
     (case available sd namespace of None \<Rightarrow> False | Some avail \<Rightarrow> element \<in> avail)
     \<and> (element \<in> mandatory sd \<or> (case user_approved namespace of None \<Rightarrow> False | Some v \<Rightarrow> element \<in> set v))"

definition disclosed :: "SelectiveDisclosure \<Rightarrow> ustr list \<Rightarrow> (ustr \<rightharpoonup> ustr list) \<Rightarrow> ustr \<Rightarrow> ustr list \<Rightarrow> ustr list" where
  "disclosed sd mandatory_order user_approved namespace elements =
     (let asked = filter (permitted sd user_approved namespace) elements in
      asked @ filter (\<lambda>e. permitted sd user_approved namespace e \<and> e \<notin> set asked) mandatory_order)"

lemma push_requested_filter:
  "push_requested sd avail approved elements acc = acc @ filter (\<lambda>e. e \<in> avail \<and> (e \<in> mandatory sd \<or> e \<in> approved)) elements"
  by (induction elements arbitrary: acc) auto

lemma push_mandatory_filter:
  "distinct order \<Longrightarrow> push_mandatory avail order acc = acc @ filter (\<lambda>e. e \<in> avail \<and> e \<notin> set acc) order"
proof (induction order arbitrary: acc)
  case (Cons e es)
  then have "filter (\<lambda>x. x \<in> avail \<and> x \<notin> set (acc @ [e])) es = filter (\<lambda>x. x \<in> avail \<and> x \<notin> set acc) es"
    by (auto intro: filter_cong)
  with Cons show ?case by auto
qed simp

lemma namespace_disclosed:
  assumes "available sd namespace = Some avail" "distinct order" "set order = mandatory sd"
  shows "push_mandatory avail order
      (push_requested sd avail (case user_approved namespace of None \<Rightarrow> {} | Some v \<Rightarrow> set v) elements [])
    = disclosed sd order user_approved namespace elements"
proof -
  let ?approved = "case user_approved namespace of None \<Rightarrow> {} | Some v \<Rightarrow> set v"
  have p: "permitted sd user_approved namespace e \<longleftrightarrow> e \<in> avail \<and> (e \<in> mandatory sd \<or> e \<in> ?approved)" for e
    using assms(1) by (auto simp: permitted_def split: option.splits)
  have "filter (\<lambda>e. e \<in> avail \<and> e \<notin> A) order = filter (\<lambda>e. permitted sd user_approved namespace e \<and> e \<notin> A) order" for A
    using assms(3) by (intro filter_cong) (auto simp: p)
  moreover have "(\<lambda>e. e \<in> avail \<and> (e \<in> mandatory sd \<or> e \<in> ?approved)) = permitted sd user_approved namespace"
    by (simp add: p fun_eq_iff)
  ultimately show ?thesis
    unfolding push_requested_filter push_mandatory_filter [OF assms(2)] disclosed_def Let_def append_Nil by (simp only:)
qed

lemma filter_namespaces_Ok:
  assumes "distinct order" "set order = mandatory sd"
  shows "distinct (map fst requested) \<Longrightarrow> \<forall>ns \<in> fst ` set requested. available sd ns \<noteq> None \<Longrightarrow>
    filter_namespaces sd order user_approved requested filtered = Ok (\<lambda>ns. case map_of requested ns of
        None \<Rightarrow> filtered ns
      | Some elements \<Rightarrow> (if disclosed sd order user_approved ns elements \<noteq> []
          then Some (disclosed sd order user_approved ns elements) else filtered ns))"
proof (induction requested arbitrary: filtered)
  case (Cons x rest)
  obtain ns elements where x: "x = (ns, elements)" by (cases x)
  from Cons.prems obtain avail where avail: "available sd ns = Some avail" by (auto simp: x)
  have "map_of rest ns = None" using Cons.prems(1) by (simp add: x map_of_eq_None_iff)
  with Cons avail namespace_disclosed [OF avail assms, of user_approved elements] show ?case
    by (auto simp: x Let_def fun_eq_iff split: option.splits)
qed simp

lemma filter_namespaces_Err:
  "\<exists>ns \<in> fst ` set requested. available sd ns = None \<Longrightarrow>
     \<exists>ns \<in> fst ` set requested. available sd ns = None \<and> filter_namespaces sd order user_approved requested filtered = Err (unavailable ns)"
proof (induction requested arbitrary: filtered)
  case (Cons x rest)
  then show ?case by (cases x; cases "available sd (fst x)") (auto simp: Let_def)
qed simp

lemma disclosed_set:
  "set order = mandatory sd \<Longrightarrow> e \<in> set (disclosed sd order user_approved ns elements) \<longleftrightarrow>
     permitted sd user_approved ns e \<and> (e \<in> set elements \<or> e \<in> mandatory sd)"
  by (auto simp: disclosed_def Let_def)


definition sample_disclosure :: SelectiveDisclosure where
  "sample_disclosure = add_mandatory (lit ''family_name'')
     (add_namespace (lit ''iso'') [lit ''family_name'', lit ''given_name'', lit ''birth_date''] disclosure_new)"


end
