(* ===== verification/SigningBatch.thy ===== *)
theory SigningBatch
  imports RustStr "HOL-Library.Multiset"
begin

text \<open>
  Batches of ES256 credential signatures, after \<open>marty-oid4vci/src/signing_batch.rs\<close>: a scope
  frozen to one signer, preparation of every item before the first signature, the serial and the
  concurrent executor, validation of the executor's results by identity, and assembly in the
  order of the caller. The signer (a trait object), the preparation and assembly functions of the
  credential formats and the P-256 signature parser are arguments. The concurrent executor is a
  state machine of workers: \<open>worker_step\<close> is one step of one worker, \<open>reached\<close> the states some
  interleaving of steps leads to, and \<open>drive\<close> runs the workers under a given schedule.
\<close>

subsection \<open>Inputs and errors\<close>

datatype SigningAlgorithm = ES256 | EdDSA | ES256K | ES384 | RS256

type_synonym uuid_bytes = bytes
type_synonym SigningRouteId = "64 word"

text \<open>The key parameters of a holder JWK: of each kind, the members that hold private material.\<close>

datatype Params =
    ParamsOKP (okp_private_key: "bytes option")
  | ParamsEC (ecc_private_key: "bytes option")
  | ParamsRSA (private_exponent: "bytes option") (first_prime_factor: "bytes option") (second_prime_factor: "bytes option")
      (first_prime_factor_crt_exponent: "bytes option") (second_prime_factor_crt_exponent: "bytes option")
      (first_crt_coefficient: "bytes option") (other_primes_info: "bytes option")
  | ParamsSymmetric

record 'w JWK =
  params :: Params
  public_members :: 'w

datatype ('c, 'w) Es256SigningBatchInput =
    JwtVcInput SigningRouteId 'c
  | SdJwtInput SigningRouteId 'c "'w JWK"
  | MdocInput SigningRouteId 'c

fun route_id :: "('c, 'w) Es256SigningBatchInput \<Rightarrow> SigningRouteId" where
  "route_id (JwtVcInput r c) = r"
| "route_id (SdJwtInput r c k) = r"
| "route_id (MdocInput r c) = r"

datatype SigningBatchErrorKind = InvalidScope | DuplicateRoute | PreparationFailed | SignerMetadataChanged | ExecutorFailed
  | InvalidExecutorResults | InvalidSignature | AssemblyFailed

record SigningBatchError =
  kind :: SigningBatchErrorKind
  item_ordinal :: "nat option"

definition batch_error :: "SigningBatchErrorKind \<Rightarrow> SigningBatchError" where
  "batch_error k = \<lparr>kind = k, item_ordinal = None\<rparr>"

definition item_error :: "SigningBatchErrorKind \<Rightarrow> nat \<Rightarrow> SigningBatchError" where
  "item_error k ordinal = \<lparr>kind = k, item_ordinal = Some ordinal\<rparr>"

fun has_private_material :: "Params \<Rightarrow> bool" where
  "has_private_material (ParamsOKP d) = (d \<noteq> None)"
| "has_private_material (ParamsEC d) = (d \<noteq> None)"
| "has_private_material (ParamsRSA d p q dp dq qi others) =
     (d \<noteq> None \<or> p \<noteq> None \<or> q \<noteq> None \<or> dp \<noteq> None \<or> dq \<noteq> None \<or> qi \<noteq> None \<or> others \<noteq> None)"
| "has_private_material ParamsSymmetric = True"

definition sd_jwt_input :: "SigningRouteId \<Rightarrow> 'c \<Rightarrow> 'w JWK \<Rightarrow> (('c, 'w) Es256SigningBatchInput, ustr) result" where
  "sd_jwt_input r claims verified_holder_jwk =
     (if has_private_material (params verified_holder_jwk)
      then Err (lit ''SD-JWT batch input requires a verified public holder JWK'')
      else Ok (SdJwtInput r claims verified_holder_jwk))"

text \<open>The scan of \<open>validate_unique_routes\<close>: first ordinals by route, and the lowest repeated one so far.\<close>

fun scan_routes ::
    "nat \<Rightarrow> ('c, 'w) Es256SigningBatchInput list \<Rightarrow> (SigningRouteId \<rightharpoonup> nat) \<Rightarrow> nat option \<Rightarrow> nat option" where
  "scan_routes ordinal [] first_ordinals lowest = lowest"
| "scan_routes ordinal (input # inputs) first_ordinals lowest =
     (case first_ordinals (route_id input) of
        Some first \<Rightarrow> scan_routes (Suc ordinal) inputs first_ordinals
          (Some (case lowest of None \<Rightarrow> first | Some l \<Rightarrow> min l first))
      | None \<Rightarrow> scan_routes (Suc ordinal) inputs (first_ordinals(route_id input \<mapsto> ordinal)) lowest)"

definition validate_unique_routes :: "('c, 'w) Es256SigningBatchInput list \<Rightarrow> (unit, SigningBatchError) result" where
  "validate_unique_routes inputs =
     (case scan_routes 0 inputs Map.empty None of
        Some ordinal \<Rightarrow> Err (item_error DuplicateRoute ordinal)
      | None \<Rightarrow> Ok ())"

subsection \<open>The signer and its frozen identity\<close>

text \<open>
  A signer is what its trait methods return in a state of the backend. A call of \<open>sign\<close> may change
  that state, fail or panic.
\<close>

record 's CredentialSigner =
  sign :: "bytes \<Rightarrow> 's \<Rightarrow> (bytes, ustr) result \<times> 's"
  algorithm :: "'s \<Rightarrow> SigningAlgorithm"
  issuer_id :: "'s \<Rightarrow> ustr"
  kid_url :: "'s \<Rightarrow> ustr"
  public_jwk :: "'s \<Rightarrow> ustr + ustr"

record FrozenSignerIdentity =
  frozen_algorithm :: SigningAlgorithm
  frozen_issuer_id :: ustr
  frozen_kid_url :: ustr
  frozen_public_jwk :: ustr

definition validate_identity :: "FrozenSignerIdentity \<Rightarrow> (unit, SigningBatchError) result" where
  "validate_identity i =
     ensure (\<not> (frozen_algorithm i \<noteq> ES256 \<or> trim (frozen_issuer_id i) = [] \<or> trim (frozen_kid_url i) = [])) (batch_error InvalidScope)"

definition capture :: "'s CredentialSigner \<Rightarrow> 's \<Rightarrow> (FrozenSignerIdentity, SigningBatchError) result" where
  "capture signer s =
     rbind (lift_err (\<lambda>_. batch_error InvalidScope) (public_jwk signer s)) (\<lambda>jwk.
     let identity = \<lparr>frozen_algorithm = algorithm signer s, frozen_issuer_id = issuer_id signer s, frozen_kid_url = kid_url signer s,
           frozen_public_jwk = jwk\<rparr> in
     rbind (validate_identity identity) (\<lambda>_. Ok identity))"

definition matches :: "FrozenSignerIdentity \<Rightarrow> 's CredentialSigner \<Rightarrow> 's \<Rightarrow> bool" where
  "matches i signer s \<longleftrightarrow> algorithm signer s = frozen_algorithm i \<and> issuer_id signer s = frozen_issuer_id i
     \<and> kid_url signer s = frozen_kid_url i \<and> public_jwk signer s = Inr (frozen_public_jwk i)"

record Es256SignerScope =
  identity :: FrozenSignerIdentity
  scope_id :: uuid_bytes

definition new_scope :: "'s CredentialSigner \<Rightarrow> uuid_bytes \<Rightarrow> 's \<Rightarrow> (Es256SignerScope, SigningBatchError) result" where
  "new_scope signer fresh s = rbind (capture signer s) (\<lambda>i. Ok \<lparr>identity = i, scope_id = fresh\<rparr>)"

definition MAX_CONCURRENT_SIGNING_WORKERS :: nat where
  "MAX_CONCURRENT_SIGNING_WORKERS = 64"

record ConcurrentEs256SignerScope =
  concurrent_scope :: Es256SignerScope
  worker_limit :: nat

text \<open>\<open>authorized\<close> is the non-zero bound returned by \<open>max_concurrent_signing_workers\<close>; zero is no such bound.\<close>

definition new_concurrent_scope ::
    "'s CredentialSigner \<Rightarrow> uuid_bytes \<Rightarrow> nat \<Rightarrow> 's \<Rightarrow> (ConcurrentEs256SignerScope, SigningBatchError) result" where
  "new_concurrent_scope signer fresh authorized s =
     rbind (capture signer s) (\<lambda>i.
     let limit = min authorized MAX_CONCURRENT_SIGNING_WORKERS in
     if limit = 0 then Panic
     else Ok \<lparr>concurrent_scope = \<lparr>identity = i, scope_id = fresh\<rparr>, worker_limit = limit\<rparr>)"

subsection \<open>Preparation\<close>

datatype 'p PreparedCredential = PreparedJwtVc 'p | PreparedSdJwt 'p | PreparedMdoc 'p

text \<open>
  What the credential formats provide: preparation for a signer identity, the payload to be signed,
  assembly with a signature; and whether 64 bytes are a P-256 signature.
\<close>

record ('c, 'w, 'p, 'v) formats =
  prepare_jwt_vc :: "FrozenSignerIdentity \<Rightarrow> 'c \<Rightarrow> ustr + 'p"
  prepare_sd_jwt_with_holder_public_jwk :: "FrozenSignerIdentity \<Rightarrow> 'c \<Rightarrow> 'w JWK \<Rightarrow> ustr + 'p"
  prepare_mdoc :: "FrozenSignerIdentity \<Rightarrow> 'c \<Rightarrow> ustr + 'p"
  jwt_vc_payload :: "'p \<Rightarrow> bytes"
  sd_jwt_payload :: "'p \<Rightarrow> bytes"
  mdoc_payload :: "'p \<Rightarrow> bytes"
  assemble_jwt_vc :: "'p \<Rightarrow> bytes \<Rightarrow> ustr + 'v"
  assemble_sd_jwt :: "'p \<Rightarrow> bytes \<Rightarrow> ustr + 'v"
  assemble_mdoc :: "'p \<Rightarrow> bytes \<Rightarrow> ustr + 'v"
  p256_signature :: "bytes \<Rightarrow> bool"

fun signing_payload :: "('c, 'w, 'p, 'v) formats \<Rightarrow> 'p PreparedCredential \<Rightarrow> bytes" where
  "signing_payload fmt (PreparedJwtVc p) = jwt_vc_payload fmt p"
| "signing_payload fmt (PreparedSdJwt p) = sd_jwt_payload fmt p"
| "signing_payload fmt (PreparedMdoc p) = mdoc_payload fmt p"

record SigningJobIdentity =
  job_scope_id :: uuid_bytes
  job_batch_id :: uuid_bytes
  job_route_id :: SigningRouteId
  job_id :: nat

record 'p PreparedSigningItem =
  item_identity :: SigningJobIdentity
  credential :: "'p PreparedCredential"

fun prepare_credential ::
    "('c, 'w, 'p, 'v) formats \<Rightarrow> FrozenSignerIdentity \<Rightarrow> ('c, 'w) Es256SigningBatchInput \<Rightarrow> ustr + 'p PreparedCredential" where
  "prepare_credential fmt i (JwtVcInput r claims) = map_sum id PreparedJwtVc (prepare_jwt_vc fmt i claims)"
| "prepare_credential fmt i (SdJwtInput r claims jwk) =
     map_sum id PreparedSdJwt (prepare_sd_jwt_with_holder_public_jwk fmt i claims jwk)"
| "prepare_credential fmt i (MdocInput r claims) = map_sum id PreparedMdoc (prepare_mdoc fmt i claims)"

primrec prepare ::
    "('c, 'w, 'p, 'v) formats \<Rightarrow> FrozenSignerIdentity \<Rightarrow> uuid_bytes \<Rightarrow> uuid_bytes \<Rightarrow> nat \<Rightarrow> ('c, 'w) Es256SigningBatchInput list
       \<Rightarrow> ('p PreparedSigningItem list, SigningBatchError) result" where
  "prepare fmt i scope batch ordinal [] = Ok []"
| "prepare fmt i scope batch ordinal (input # inputs) =
     rbind (ensure (ordinal < 2 ^ 64) (item_error PreparationFailed ordinal)) (\<lambda>_.
     rbind (lift_err (\<lambda>_. item_error PreparationFailed ordinal) (prepare_credential fmt i input)) (\<lambda>c.
     rbind (prepare fmt i scope batch (Suc ordinal) inputs) (\<lambda>items.
     Ok (\<lparr>item_identity = \<lparr>job_scope_id = scope, job_batch_id = batch, job_route_id = route_id input, job_id = ordinal\<rparr>,
          credential = c\<rparr> # items))))"

record SigningJob =
  job_identity :: SigningJobIdentity
  payload :: bytes

definition jobs_of :: "('c, 'w, 'p, 'v) formats \<Rightarrow> 'p PreparedSigningItem list \<Rightarrow> SigningJob list" where
  "jobs_of fmt items = map (\<lambda>item. \<lparr>job_identity = item_identity item, payload = signing_payload fmt (credential item)\<rparr>) items"

subsection \<open>The serial executor\<close>

datatype SigningOutcome = Signature bytes | Failed

record SigningResult =
  result_identity :: SigningJobIdentity
  outcome :: SigningOutcome

primrec serial_execute ::
    "'s CredentialSigner \<Rightarrow> nat \<Rightarrow> SigningJob list \<Rightarrow> 's \<Rightarrow> (SigningResult list, nat option) result \<times> 's" where
  "serial_execute signer ordinal [] s = (Ok [], s)"
| "serial_execute signer ordinal (job # jobs) s =
     (case sign signer (payload job) s of (r, s) \<Rightarrow>
      op_bind (map_err (\<lambda>_. Some ordinal) r, s) (\<lambda>signature s.
      op_bind (serial_execute signer (Suc ordinal) jobs s) (\<lambda>results s.
      (Ok (\<lparr>result_identity = job_identity job, outcome = Signature signature\<rparr> # results), s))))"

subsection \<open>The concurrent executor\<close>

text \<open>
  A worker claims a job under the lock, calls the signer, and either keeps the result and goes on
  or unwinds; unwinding reaches the boundary of the worker, which records the panic and gives up
  the worker's results. \<open>call_log\<close> notes the calls of the signer as they return.
\<close>

datatype phase = Ready | Calling nat | Unwinding | Finished

record worker =
  phase :: phase
  worker_results :: "SigningResult list"

record 's execution =
  next_ordinal :: nat
  stopped :: bool
  first_panic :: bool
  workers :: "worker list"
  backend :: 's
  call_log :: "(nat \<times> (bytes, ustr) result) list"

definition claim :: "nat \<Rightarrow> 's execution \<Rightarrow> nat option \<times> 's execution" where
  "claim job_count x =
     (if stopped x \<or> next_ordinal x \<ge> job_count then (None, x)
      else (Some (next_ordinal x), x\<lparr>next_ordinal := next_ordinal x + 1\<rparr>))"

definition record_panic :: "'s execution \<Rightarrow> 's execution" where
  "record_panic x = x\<lparr>stopped := True, first_panic := True\<rparr>"

definition outcome_of :: "(bytes, ustr) result \<Rightarrow> SigningOutcome" where
  "outcome_of r = (case r of Ok signature \<Rightarrow> Signature signature | _ \<Rightarrow> Failed)"

definition set_worker :: "nat \<Rightarrow> worker \<Rightarrow> 's execution \<Rightarrow> 's execution" where
  "set_worker w v x = x\<lparr>workers := (workers x)[w := v]\<rparr>"

definition worker_step :: "'s CredentialSigner \<Rightarrow> SigningJob list \<Rightarrow> nat \<Rightarrow> 's execution \<Rightarrow> 's execution" where
  "worker_step signer jobs w x =
     (let v = workers x ! w in
      case phase v of
        Ready \<Rightarrow>
          (case claim (length jobs) x of
             (Some ordinal, x) \<Rightarrow> set_worker w (v\<lparr>phase := Calling ordinal\<rparr>) x
           | (None, x) \<Rightarrow> set_worker w (v\<lparr>phase := Finished\<rparr>) x)
      | Calling ordinal \<Rightarrow>
          (case sign signer (payload (jobs ! ordinal)) (backend x) of (r, s) \<Rightarrow>
           let x = x\<lparr>backend := s, call_log := call_log x @ [(ordinal, r)]\<rparr> in
           if r = Panic then set_worker w (v\<lparr>phase := Unwinding\<rparr>) x
           else set_worker w \<lparr>phase = Ready, worker_results = worker_results v
                  @ [\<lparr>result_identity = job_identity (jobs ! ordinal), outcome = outcome_of r\<rparr>]\<rparr> x)
      | Unwinding \<Rightarrow> set_worker w \<lparr>phase = Finished, worker_results = []\<rparr> (record_panic x)
      | Finished \<Rightarrow> x)"

definition start_execution :: "nat \<Rightarrow> 's \<Rightarrow> 's execution" where
  "start_execution k s = \<lparr>next_ordinal = 0, stopped = False, first_panic = False,
     workers = replicate k \<lparr>phase = Ready, worker_results = []\<rparr>, backend = s, call_log = []\<rparr>"

inductive reached :: "'s CredentialSigner \<Rightarrow> SigningJob list \<Rightarrow> nat \<Rightarrow> 's \<Rightarrow> 's execution \<Rightarrow> bool"
  for signer :: "'s CredentialSigner" and jobs :: "SigningJob list" and k :: nat and s :: 's where
  reached_start: "reached signer jobs k s (start_execution k s)"
| reached_step: "reached signer jobs k s x \<Longrightarrow> w < length (workers x) \<Longrightarrow> reached signer jobs k s (worker_step signer jobs w x)"

definition running :: "'s execution \<Rightarrow> nat list" where
  "running x = filter (\<lambda>w. phase (workers x ! w) \<noteq> Finished) [0..<length (workers x)]"

text \<open>How much is left to do: it bounds the number of steps of any schedule.\<close>

fun phase_work :: "phase \<Rightarrow> nat" where
  "phase_work Ready = 1"
| "phase_work (Calling i) = 3"
| "phase_work Unwinding = 2"
| "phase_work Finished = 0"

definition work_left :: "SigningJob list \<Rightarrow> 's execution \<Rightarrow> nat" where
  "work_left jobs x = 3 * (length jobs - next_ordinal x) + sum_list (map (\<lambda>v. phase_work (phase v)) (workers x))"

lemma sum_list_update_nat: "i < length xs \<Longrightarrow> sum_list (xs[i := v]) + xs ! i = sum_list xs + v" for v :: nat
proof (induction xs arbitrary: i)
  case (Cons x xs)
  then show ?case by (cases i) auto
qed simp

lemma phase_sum_update:
  "w < length vs \<Longrightarrow> sum_list (map (\<lambda>v. phase_work (phase v)) (vs[w := v])) + phase_work (phase (vs ! w))
     = sum_list (map (\<lambda>v. phase_work (phase v)) vs) + phase_work (phase v)"
  using sum_list_update_nat [of w "map (\<lambda>v. phase_work (phase v)) vs" "phase_work (phase v)"] by (simp add: map_update)

lemma phase_sum_less:
  "w < length vs \<Longrightarrow> phase_work (phase v) < phase_work (phase (vs ! w)) \<Longrightarrow>
     sum_list (map (\<lambda>v. phase_work (phase v)) (vs[w := v])) < sum_list (map (\<lambda>v. phase_work (phase v)) vs)"
  using phase_sum_update [of w vs v] by linarith

lemma worker_step_decreases:
  assumes "w < length (workers x)" "phase (workers x ! w) \<noteq> Finished"
  shows "work_left jobs (worker_step signer jobs w x) < work_left jobs x"
proof (cases "phase (workers x ! w)")
  case Ready
  then show ?thesis
    using assms(1) phase_sum_update [OF assms(1), of "(workers x ! w)\<lparr>phase := Calling (next_ordinal x)\<rparr>"]
    by (auto simp: worker_step_def claim_def set_worker_def work_left_def Let_def intro!: phase_sum_less)
qed (use assms in \<open>auto simp: worker_step_def set_worker_def record_panic_def work_left_def Let_def split_beta intro!: phase_sum_less\<close>)

lemma runningD: "w \<in> set (running x) \<Longrightarrow> w < length (workers x) \<and> phase (workers x ! w) \<noteq> Finished"
  by (simp add: running_def)

text \<open>
  The workers under a schedule: in its \<open>n\<close>-th step, \<open>pick n\<close> selects one of the workers that are
  still running. Every interleaving is given by some \<open>pick\<close>.
\<close>

function drive :: "'s CredentialSigner \<Rightarrow> SigningJob list \<Rightarrow> (nat \<Rightarrow> nat) \<Rightarrow> nat \<Rightarrow> 's execution \<Rightarrow> 's execution" where
  "drive signer jobs pick n x =
     (if running x = [] then x
      else drive signer jobs pick (Suc n) (worker_step signer jobs (running x ! (pick n mod length (running x))) x))"
  by pat_completeness auto
termination
proof (relation "measure (\<lambda>(signer, jobs, pick, n, x). work_left jobs x)", simp)
  fix signer :: "'s CredentialSigner" and jobs and pick :: "nat \<Rightarrow> nat" and n and x :: "'s execution"
  assume "running x \<noteq> []"
  then have "running x ! (pick n mod length (running x)) \<in> set (running x)" by simp
  then show "((signer, jobs, pick, Suc n, worker_step signer jobs (running x ! (pick n mod length (running x))) x),
      (signer, jobs, pick, n, x)) \<in> measure (\<lambda>(signer, jobs, pick, n, x). work_left jobs x)"
    using runningD [of _ x] worker_step_decreases by fastforce
qed

declare drive.simps [simp del]

text \<open>
  The executor: \<open>spawned\<close> is the number of extra threads that could be started, at most as many as
  asked for; the caller is always a worker. The results are collected worker by worker.
\<close>

definition concurrent_execute ::
    "'s CredentialSigner \<Rightarrow> nat \<Rightarrow> nat \<Rightarrow> (nat \<Rightarrow> nat) \<Rightarrow> SigningJob list \<Rightarrow> 's \<Rightarrow> (SigningResult list, nat option) result \<times> 's" where
  "concurrent_execute signer limit spawned pick jobs s =
     (if jobs = [] then (Ok [], s)
      else let worker_count = min limit (length jobs);
               x = drive signer jobs pick 0 (start_execution (1 + min spawned (worker_count - 1)) s) in
        (if first_panic x then Panic else Ok (concat (map worker_results (workers x))), backend x))"

subsection \<open>Validation of the results\<close>

fun expect_jobs ::
    "nat \<Rightarrow> SigningJob list \<Rightarrow> (SigningJobIdentity \<rightharpoonup> nat) \<Rightarrow> (SigningJobIdentity \<rightharpoonup> nat, SigningBatchError) result" where
  "expect_jobs ordinal [] expected = Ok expected"
| "expect_jobs ordinal (job # jobs) expected =
     (if expected (job_identity job) \<noteq> None then Err (batch_error InvalidExecutorResults)
      else expect_jobs (Suc ordinal) jobs (expected(job_identity job \<mapsto> ordinal)))"

fun place_results ::
    "SigningResult list \<Rightarrow> (SigningJobIdentity \<rightharpoonup> nat) \<Rightarrow> SigningOutcome option list
       \<Rightarrow> ((SigningJobIdentity \<rightharpoonup> nat) \<times> SigningOutcome option list, SigningBatchError) result" where
  "place_results [] expected outcomes = Ok (expected, outcomes)"
| "place_results (result # results) expected outcomes =
     rbind (ok_or (expected (result_identity result)) (batch_error InvalidExecutorResults)) (\<lambda>ordinal.
     rbind (index_at outcomes ordinal) (\<lambda>old.
     rbind (ensure (old = None) (batch_error InvalidExecutorResults)) (\<lambda>_.
     place_results results (expected(result_identity result := None)) (outcomes[ordinal := Some (outcome result)]))))"

definition ES256_SIGNATURE_LENGTH :: nat where
  "ES256_SIGNATURE_LENGTH = 64"

primrec position :: "('a \<Rightarrow> bool) \<Rightarrow> nat \<Rightarrow> 'a list \<Rightarrow> nat option" where
  "position P i [] = None"
| "position P i (x # xs) = (if P x then Some i else position P (Suc i) xs)"

fun check_signatures ::
    "(bytes \<Rightarrow> bool) \<Rightarrow> nat \<Rightarrow> SigningOutcome option list \<Rightarrow> (bytes list, SigningBatchError) result" where
  "check_signatures valid ordinal [] = Ok []"
| "check_signatures valid ordinal (Some (Signature signature) # outcomes) =
     rbind (ensure (length signature = ES256_SIGNATURE_LENGTH) (item_error InvalidSignature ordinal)) (\<lambda>_.
     rbind (ensure (valid signature) (item_error InvalidSignature ordinal)) (\<lambda>_.
     rbind (check_signatures valid (Suc ordinal) outcomes) (\<lambda>signatures. Ok (signature # signatures))))"
| "check_signatures valid ordinal (_ # outcomes) = Panic"

text \<open>The maps stay finite, so emptiness of \<open>expected\<close> is that no job of the batch is still expected.\<close>

definition validate_executor_results ::
    "(bytes \<Rightarrow> bool) \<Rightarrow> SigningJob list \<Rightarrow> SigningResult list \<Rightarrow> (bytes list, SigningBatchError) result" where
  "validate_executor_results valid jobs results =
     rbind (ensure (length results = length jobs) (batch_error InvalidExecutorResults)) (\<lambda>_.
     rbind (expect_jobs 0 jobs Map.empty) (\<lambda>expected.
     rbind (place_results results expected (replicate (length jobs) None)) (\<lambda>(expected, outcomes).
     rbind (ensure (\<not> (list_ex (\<lambda>job. expected (job_identity job) \<noteq> None) jobs \<or> None \<in> set outcomes))
              (batch_error InvalidExecutorResults)) (\<lambda>_.
     case position (\<lambda>out. out = Some Failed) 0 outcomes of
       Some ordinal \<Rightarrow> Err (item_error ExecutorFailed ordinal)
     | None \<Rightarrow> check_signatures valid 0 outcomes))))"

subsection \<open>Assembly and the two scopes\<close>

fun canonical_assemble :: "('c, 'w, 'p, 'v) formats \<Rightarrow> 'p PreparedCredential \<Rightarrow> bytes \<Rightarrow> ustr + 'v" where
  "canonical_assemble fmt (PreparedJwtVc p) signature = assemble_jwt_vc fmt p signature"
| "canonical_assemble fmt (PreparedSdJwt p) signature = assemble_sd_jwt fmt p signature"
| "canonical_assemble fmt (PreparedMdoc p) signature = assemble_mdoc fmt p signature"

fun assemble_credentials ::
    "('c, 'w, 'p, 'v) formats \<Rightarrow> nat \<Rightarrow> 'p PreparedSigningItem list \<Rightarrow> bytes list \<Rightarrow> ('v list, SigningBatchError) result" where
  "assemble_credentials fmt ordinal (item # items) (signature # signatures) =
     rbind (lift_err (\<lambda>_. item_error AssemblyFailed ordinal) (canonical_assemble fmt (credential item) signature)) (\<lambda>c.
     rbind (assemble_credentials fmt (Suc ordinal) items signatures) (\<lambda>cs. Ok (c # cs)))"
| "assemble_credentials fmt ordinal _ _ = Ok []"

definition executor_error :: "nat option \<Rightarrow> SigningBatchError" where
  "executor_error e = (case e of Some ordinal \<Rightarrow> item_error ExecutorFailed ordinal | None \<Rightarrow> batch_error ExecutorFailed)"

definition sign_batch_with ::
    "('c, 'w, 'p, 'v) formats \<Rightarrow> 's CredentialSigner \<Rightarrow> (SigningJob list \<Rightarrow> 's \<Rightarrow> (SigningResult list, nat option) result \<times> 's)
       \<Rightarrow> Es256SignerScope \<Rightarrow> uuid_bytes \<Rightarrow> ('c, 'w) Es256SigningBatchInput list \<Rightarrow> 's \<Rightarrow> ('v list, SigningBatchError) result \<times> 's" where
  "sign_batch_with fmt signer execute scope batch_id inputs s =
     op_bind (validate_identity (identity scope), s) (\<lambda>_ s.
     op_bind (validate_unique_routes inputs, s) (\<lambda>_ s.
     op_bind (prepare fmt (identity scope) (scope_id scope) batch_id 0 inputs, s) (\<lambda>prepared s.
     op_bind (ensure (matches (identity scope) signer s) (batch_error SignerMetadataChanged), s) (\<lambda>_ s.
     case execute (jobs_of fmt prepared) s of (results, s) \<Rightarrow>
     op_bind (map_err executor_error results, s) (\<lambda>results s.
     op_bind (validate_executor_results (p256_signature fmt) (jobs_of fmt prepared) results, s) (\<lambda>signatures s.
     (assemble_credentials fmt 0 prepared signatures, s)))))))"

definition sign_batch ::
    "('c, 'w, 'p, 'v) formats \<Rightarrow> 's CredentialSigner \<Rightarrow> Es256SignerScope \<Rightarrow> uuid_bytes \<Rightarrow> ('c, 'w) Es256SigningBatchInput list
       \<Rightarrow> 's \<Rightarrow> ('v list, SigningBatchError) result \<times> 's" where
  "sign_batch fmt signer scope batch_id inputs s =
     sign_batch_with fmt signer (serial_execute signer 0) scope batch_id inputs s"

text \<open>A panic of the executor is resumed before the second look at the metadata.\<close>

definition sign_batch_concurrently ::
    "('c, 'w, 'p, 'v) formats \<Rightarrow> 's CredentialSigner \<Rightarrow> ConcurrentEs256SignerScope \<Rightarrow> nat \<Rightarrow> (nat \<Rightarrow> nat) \<Rightarrow> uuid_bytes
       \<Rightarrow> ('c, 'w) Es256SigningBatchInput list \<Rightarrow> 's \<Rightarrow> ('v list, SigningBatchError) result \<times> 's" where
  "sign_batch_concurrently fmt signer lease spawned pick batch_id inputs s =
     (let scope = concurrent_scope lease in
      op_bind (validate_identity (identity scope), s) (\<lambda>_ s.
      op_bind (validate_unique_routes inputs, s) (\<lambda>_ s.
      op_bind (prepare fmt (identity scope) (scope_id scope) batch_id 0 inputs, s) (\<lambda>prepared s.
      op_bind (ensure (matches (identity scope) signer s) (batch_error SignerMetadataChanged), s) (\<lambda>_ s.
      case concurrent_execute signer (worker_limit lease) spawned pick (jobs_of fmt prepared) s of (execution, s) \<Rightarrow>
      if execution = Panic then (Panic, s)
      else op_bind (ensure (matches (identity scope) signer s) (batch_error SignerMetadataChanged), s) (\<lambda>_ s.
      op_bind (map_err executor_error execution, s) (\<lambda>results s.
      op_bind (validate_executor_results (p256_signature fmt) (jobs_of fmt prepared) results, s) (\<lambda>signatures s.
      (assemble_credentials fmt 0 prepared signatures, s)))))))))"

subsection \<open>Results are matched by identity\<close>

text \<open>The judgement on the outcomes in the order of the jobs.\<close>

definition judge :: "(bytes \<Rightarrow> bool) \<Rightarrow> SigningOutcome list \<Rightarrow> (bytes list, SigningBatchError) result" where
  "judge valid outs =
     (case position (\<lambda>out. out = Failed) 0 outs of
        Some ordinal \<Rightarrow> Err (item_error ExecutorFailed ordinal)
      | None \<Rightarrow> check_signatures valid 0 (map Some outs))"

definition outcomes_for :: "SigningJob list \<Rightarrow> SigningResult list \<Rightarrow> SigningOutcome list" where
  "outcomes_for jobs results =
     map (\<lambda>job. the (map_of (map (\<lambda>r. (result_identity r, outcome r)) results) (job_identity job))) jobs"

lemma map_add_fresh: "k \<notin> dom g \<Longrightarrow> f(k \<mapsto> v) ++ g = f ++ g(k \<mapsto> v)"
  by (auto simp: map_add_def fun_eq_iff split: option.splits)

lemma expect_jobs_eq:
  "expect_jobs n jobs m =
     (if distinct (map job_identity jobs) \<and> set (map job_identity jobs) \<inter> dom m = {}
      then Ok (m ++ map_of (zip (map job_identity jobs) [n..<n + length jobs]))
      else Err (batch_error InvalidExecutorResults))"
proof (induction n jobs m rule: expect_jobs.induct)
  case (2 n job jobs m)
  show ?case
  proof (cases "m (job_identity job)")
    case None
    let ?k = "job_identity job" and ?ids = "map job_identity jobs"
    let ?fresh = "distinct ?ids \<and> set ?ids \<inter> dom (m(?k \<mapsto> n)) = {}"
    have "expect_jobs n (job # jobs) m = expect_jobs (Suc n) jobs (m(?k \<mapsto> n))" using None by simp
    also have "\<dots> = (if ?fresh then Ok (m(?k \<mapsto> n) ++ map_of (zip ?ids [Suc n..<Suc n + length jobs]))
        else Err (batch_error InvalidExecutorResults))" by (rule "2.IH") (simp add: None)
    finally have IH: "expect_jobs n (job # jobs) m = \<dots>" .
    have fresh: "?fresh \<longleftrightarrow> distinct (map job_identity (job # jobs)) \<and> set (map job_identity (job # jobs)) \<inter> dom m = {}"
      using None by auto
    have upt: "[n..<n + length (job # jobs)] = n # [Suc n..<Suc n + length jobs]" by (simp add: upt_conv_Cons del: upt_Suc)
    have "m(?k \<mapsto> n) ++ map_of (zip ?ids [Suc n..<Suc n + length jobs])
        = m ++ map_of (zip (map job_identity (job # jobs)) [n..<n + length (job # jobs)])" if ?fresh
      unfolding upt using that by (subst map_add_fresh) (auto simp: dom_map_of_conv_image_fst dest!: set_zip_leftD)
    then show ?thesis unfolding IH fresh [symmetric] by (cases ?fresh) (simp_all only: if_True if_False)
  qed auto
qed (simp add: map_add_def)

lemma map_update_at:
  "distinct ids \<Longrightarrow> i < length ids \<Longrightarrow> (map f ids)[i := v] = map (f(ids ! i := v)) ids"
  by (rule nth_equalityI) (auto simp: nth_list_update nth_eq_iff_index_eq)

lemma index_of_nth: "distinct ids \<Longrightarrow> i < length ids \<Longrightarrow> map_of (zip ids [0..<length ids]) (ids ! i) = Some i"
  by (simp add: map_of_zip_nth)

lemma index_of_None: "map_of (zip ids [0..<length ids]) k = None \<longleftrightarrow> k \<notin> set ids"
  by (simp add: map_of_zip_is_None)

lemma place_results_eq:
  assumes "distinct ids"
  shows "\<forall>k \<in> set ids. f k = None \<longleftrightarrow> k \<notin> P \<Longrightarrow>
    place_results results (\<lambda>k. if k \<in> P then None else map_of (zip ids [0..<length ids]) k) (map f ids) =
     (if distinct (map result_identity results) \<and> set (map result_identity results) \<subseteq> set ids - P
      then Ok (\<lambda>k. if k \<in> P \<union> set (map result_identity results) then None else map_of (zip ids [0..<length ids]) k,
               map (f ++ map_of (map (\<lambda>r. (result_identity r, outcome r)) results)) ids)
      else Err (batch_error InvalidExecutorResults))"
proof (induction results arbitrary: f P)
  case (Cons r rs)
  let ?k = "result_identity r" and ?ix = "map_of (zip ids [0..<length ids])" and ?rids = "map result_identity rs"
    and ?pairs = "map (\<lambda>r. (result_identity r, outcome r)) rs"
  show ?case
  proof (cases "?k \<in> set ids \<and> ?k \<notin> P")
    case True
    then obtain i where i: "i < length ids" "ids ! i = ?k" by (auto simp: in_set_conv_nth)
    then have ix: "?ix ?k = Some i" using assms index_of_nth by metis
    have maps: "(\<lambda>k. if k \<in> P then None else ?ix k)(?k := None) = (\<lambda>k. if k \<in> insert ?k P then None else ?ix k)" by auto
    have f: "\<forall>k \<in> set ids. (f(?k \<mapsto> outcome r)) k = None \<longleftrightarrow> k \<notin> insert ?k P" using Cons.prems by auto
    have "place_results (r # rs) (\<lambda>k. if k \<in> P then None else ?ix k) (map f ids)
        = place_results rs (\<lambda>k. if k \<in> insert ?k P then None else ?ix k) (map (f(?k \<mapsto> outcome r)) ids)"
      unfolding maps [symmetric] using True i ix Cons.prems map_update_at [OF assms i(1), of f "Some (outcome r)"] by (simp add: index_at_less)
    also have "\<dots> = (if distinct ?rids \<and> set ?rids \<subseteq> set ids - insert ?k P
        then Ok (\<lambda>k. if k \<in> insert ?k P \<union> set ?rids then None else ?ix k, map (f(?k \<mapsto> outcome r) ++ map_of ?pairs) ids)
        else Err (batch_error InvalidExecutorResults))" by (rule Cons.IH [OF f])
    finally have step: "place_results (r # rs) (\<lambda>k. if k \<in> P then None else ?ix k) (map f ids) = \<dots>" .
    have cond: "distinct (map result_identity (r # rs)) \<and> set (map result_identity (r # rs)) \<subseteq> set ids - P
        \<longleftrightarrow> distinct ?rids \<and> set ?rids \<subseteq> set ids - insert ?k P" using True by (auto simp: image_iff)
    have "f(?k \<mapsto> outcome r) ++ map_of ?pairs = f ++ map_of (map (\<lambda>r. (result_identity r, outcome r)) (r # rs))"
      if "set ?rids \<subseteq> set ids - insert ?k P"
      using that by (subst map_add_fresh) (auto simp: dom_map_of_conv_image_fst image_image)
    then show ?thesis unfolding step cond by (auto simp del: fun_upd_apply)
  next
    case False
    then have "(if ?k \<in> P then None else ?ix ?k) = None" using index_of_None by auto
    with False show ?thesis by auto
  qed
qed (simp add: map_add_def)

lemma position_map_Some: "position (\<lambda>out. out = Some Failed) i (map Some outs) = position (\<lambda>out. out = Failed) i outs"
  by (induction outs arbitrary: i) simp_all

lemma mset_eq_distinct: "distinct xs \<Longrightarrow> mset ys = mset xs \<longleftrightarrow> distinct ys \<and> set ys = set xs"
  by (metis mset_eq_setD mset_eq_imp_distinct_iff set_eq_iff_mset_eq_distinct)

lemma validate_exact:
  "validate_executor_results valid jobs results =
     (if distinct (map job_identity jobs) \<and> mset (map result_identity results) = mset (map job_identity jobs)
      then judge valid (outcomes_for jobs results)
      else Err (batch_error InvalidExecutorResults))"
proof (cases "length results = length jobs \<and> distinct (map job_identity jobs)")
  case False
  then have "mset (map result_identity results) = mset (map job_identity jobs) \<Longrightarrow> \<not> distinct (map job_identity jobs)"
    by (metis length_map mset_eq_length)
  with False show ?thesis by (cases "length results = length jobs") (auto simp: validate_executor_results_def expect_jobs_eq)
next
  case True
  define ids where "ids = map job_identity jobs"
  define rids where "rids = map result_identity results"
  define pairs where "pairs = map (\<lambda>r. (result_identity r, outcome r)) results"
  have d: "distinct ids" and len: "length ids = length jobs" "length rids = length ids" using True by (simp_all add: ids_def rids_def)
  have start: "expect_jobs 0 jobs Map.empty = Ok (map_of (zip ids [0..<length ids]))"
    using d by (simp add: expect_jobs_eq ids_def)
  have none: "replicate (length jobs) None = map Map.empty ids" using len by (simp add: map_replicate_const)
  have place: "place_results results (map_of (zip ids [0..<length ids])) (replicate (length jobs) None) =
     (if distinct rids \<and> set rids \<subseteq> set ids
      then Ok (\<lambda>k. if k \<in> set rids then None else map_of (zip ids [0..<length ids]) k, map (map_of pairs) ids)
      else Err (batch_error InvalidExecutorResults))"
    using place_results_eq [OF d, of Map.empty "{}" results] 
    unfolding rids_def [symmetric] pairs_def [symmetric] empty_map_add none by simp
  show ?thesis
  proof (cases "distinct rids \<and> set rids \<subseteq> set ids")
    case sub: True
    then have same: "set rids = set ids" using d len by (metis card_subset_eq distinct_card finite_set)
    have "map_of pairs k \<noteq> None" if "k \<in> set ids" for k
      using that same by (simp add: map_of_eq_None_iff pairs_def rids_def image_image)
    then have outs: "map (map_of pairs) ids = map Some (outcomes_for jobs results)"
      unfolding outcomes_for_def pairs_def [symmetric] by (simp add: ids_def)
    have "job_identity job \<in> set rids" if "job \<in> set jobs" for job using that same by (simp add: ids_def)
    then have "validate_executor_results valid jobs results = judge valid (outcomes_for jobs results)"
      using True sub by (simp add: validate_executor_results_def start place outs judge_def position_map_Some list_ex_iff del: rbind_eq_Ok)
    moreover have "mset rids = mset ids" using sub same d by (simp add: mset_eq_distinct)
    ultimately show ?thesis using d by (simp add: ids_def rids_def)
  next
    case False
    then have "mset rids \<noteq> mset ids" using d by (auto simp: mset_eq_distinct)
    moreover have "place_results results (map_of (zip ids [0..<length ids])) (replicate (length jobs) None)
        = Err (batch_error InvalidExecutorResults)" unfolding place using False by (simp only: if_False)
    then have "validate_executor_results valid jobs results = Err (batch_error InvalidExecutorResults)"
      using True by (simp add: validate_executor_results_def start)
    ultimately show ?thesis by (simp add: ids_def rids_def)
  qed
qed

subsection \<open>Every interleaving calls the signer once for every job\<close>

text \<open>The ordinals with a call in progress, and the results collected so far.\<close>

fun calls_of :: "phase \<Rightarrow> nat list" where
  "calls_of (Calling i) = [i]"
| "calls_of _ = []"

definition in_progress :: "'s execution \<Rightarrow> nat list" where
  "in_progress x = concat (map (\<lambda>v. calls_of (phase v)) (workers x))"

definition collected_results :: "'s execution \<Rightarrow> SigningResult list" where
  "collected_results x = concat (map worker_results (workers x))"

definition result_for :: "SigningJob list \<Rightarrow> nat \<times> (bytes, ustr) result \<Rightarrow> SigningResult" where
  "result_for jobs e = \<lparr>result_identity = job_identity (jobs ! fst e), outcome = outcome_of (snd e)\<rparr>"

text \<open>The answers in a log are those of the signer, called in that order from a state.\<close>

fun answered :: "'s CredentialSigner \<Rightarrow> SigningJob list \<Rightarrow> 's \<Rightarrow> (nat \<times> (bytes, ustr) result) list \<Rightarrow> 's \<Rightarrow> bool" where
  "answered signer jobs s [] t \<longleftrightarrow> t = s"
| "answered signer jobs s ((i, r) # log) t \<longleftrightarrow>
     (case sign signer (payload (jobs ! i)) s of (r', s') \<Rightarrow> r' = r \<and> answered signer jobs s' log t)"

definition execution_inv :: "'s CredentialSigner \<Rightarrow> SigningJob list \<Rightarrow> nat \<Rightarrow> 's \<Rightarrow> 's execution \<Rightarrow> bool" where
  "execution_inv signer jobs k s x \<longleftrightarrow>
     length (workers x) = k \<and> next_ordinal x \<le> length jobs
     \<and> mset (map fst (call_log x)) + mset (in_progress x) = mset [0..<next_ordinal x]
     \<and> answered signer jobs s (call_log x) (backend x)
     \<and> stopped x = first_panic x
     \<and> (first_panic x \<or> list_ex (\<lambda>v. phase v = Unwinding) (workers x) \<longleftrightarrow> Panic \<in> snd ` set (call_log x))
     \<and> (\<not> stopped x \<and> list_ex (\<lambda>v. phase v = Finished) (workers x) \<longrightarrow> next_ordinal x = length jobs)
     \<and> (Panic \<notin> snd ` set (call_log x) \<longrightarrow> mset (collected_results x) = mset (map (result_for jobs) (call_log x)))"

lemma answered_snoc:
  "answered signer jobs s log t \<Longrightarrow> sign signer (payload (jobs ! i)) t = (r, t') \<Longrightarrow> answered signer jobs s (log @ [(i, r)]) t'"
  by (induction signer jobs s log t rule: answered.induct) (auto split: prod.splits)

lemma mset_concat_update:
  "w < length vs \<Longrightarrow> mset (concat (map f (vs[w := v]))) + mset (f (vs ! w)) = mset (concat (map f vs)) + mset (f v)"
proof (induction vs arbitrary: w)
  case (Cons u us)
  then show ?case by (cases w) auto
qed simp

lemma list_ex_update: "w < length vs \<Longrightarrow> list_ex P (vs[w := v]) \<longleftrightarrow> P v \<or> (\<exists>i < length vs. i \<noteq> w \<and> P (vs ! i))"
  by (auto simp: list_ex_length nth_list_update)

lemma list_ex_split: "w < length vs \<Longrightarrow> list_ex P vs \<longleftrightarrow> P (vs ! w) \<or> (\<exists>i < length vs. i \<noteq> w \<and> P (vs ! i))"
  by (auto simp: list_ex_length)

lemma in_progress_update:
  assumes "w < length (workers x)"
  shows "mset (in_progress (set_worker w v x)) + mset (calls_of (phase (workers x ! w))) = mset (in_progress x) + mset (calls_of (phase v))"
  using mset_concat_update [OF assms, of "\<lambda>v. calls_of (phase v)" v] by (simp add: in_progress_def set_worker_def)

lemma collected_results_update:
  assumes "w < length (workers x)"
  shows "mset (collected_results (set_worker w v x)) + mset (worker_results (workers x ! w)) = mset (collected_results x) + mset (worker_results v)"
  using mset_concat_update [OF assms, of worker_results v] by (simp add: collected_results_def set_worker_def)

lemma set_worker_simps [simp]:
  "next_ordinal (set_worker w v x) = next_ordinal x" "stopped (set_worker w v x) = stopped x" "first_panic (set_worker w v x) = first_panic x"
  "backend (set_worker w v x) = backend x" "call_log (set_worker w v x) = call_log x" "workers (set_worker w v x) = (workers x)[w := v]"
  by (simp_all add: set_worker_def)

lemma inv_start: "execution_inv signer jobs k s (start_execution k s)"
  by (auto simp: execution_inv_def start_execution_def in_progress_def collected_results_def list_ex_length)

lemma inv_ready:
  assumes inv: "execution_inv signer jobs k s x" and w: "w < length (workers x)" "phase (workers x ! w) = Ready"
  shows "execution_inv signer jobs k s (worker_step signer jobs w x)"
proof (cases "stopped x \<or> next_ordinal x \<ge> length jobs")
  case True
  then have "worker_step signer jobs w x = set_worker w ((workers x ! w)\<lparr>phase := Finished\<rparr>) x"
    using w(2) by (simp add: worker_step_def claim_def)
  then show ?thesis
    using inv w True in_progress_update [OF w(1), of "(workers x ! w)\<lparr>phase := Finished\<rparr>"]
      collected_results_update [OF w(1), of "(workers x ! w)\<lparr>phase := Finished\<rparr>"]
    by (auto simp: execution_inv_def list_ex_update list_ex_split [OF w(1)])
next
  case False
  define y where "y = x\<lparr>next_ordinal := next_ordinal x + 1\<rparr>"
  have step: "worker_step signer jobs w x = set_worker w ((workers x ! w)\<lparr>phase := Calling (next_ordinal x)\<rparr>) y"
    using w(2) False by (simp add: worker_step_def claim_def y_def)
  have y: "in_progress y = in_progress x" "collected_results y = collected_results x" "workers y = workers x" "next_ordinal y = Suc (next_ordinal x)"
    "stopped y = stopped x" "first_panic y = first_panic x" "backend y = backend x" "call_log y = call_log x"
    by (simp_all add: y_def in_progress_def collected_results_def)
  show ?thesis
    unfolding step
    using inv w False in_progress_update [of w y "(workers x ! w)\<lparr>phase := Calling (next_ordinal x)\<rparr>"]
      collected_results_update [of w y "(workers x ! w)\<lparr>phase := Calling (next_ordinal x)\<rparr>"]
    by (auto simp: y execution_inv_def list_ex_update list_ex_split [OF w(1)])
qed

lemma inv_calling:
  assumes inv: "execution_inv signer jobs k s x" and w: "w < length (workers x)" "phase (workers x ! w) = Calling i"
  shows "execution_inv signer jobs k s (worker_step signer jobs w x)"
proof -
  obtain r t where sign: "sign signer (payload (jobs ! i)) (backend x) = (r, t)" by fastforce
  define y where "y = x\<lparr>backend := t, call_log := call_log x @ [(i, r)]\<rparr>"
  have y: "in_progress y = in_progress x" "collected_results y = collected_results x" "workers y = workers x" "next_ordinal y = next_ordinal x"
    "stopped y = stopped x" "first_panic y = first_panic x" "backend y = t" "call_log y = call_log x @ [(i, r)]"
    by (simp_all add: y_def in_progress_def collected_results_def)
  have ans: "answered signer jobs s (call_log x @ [(i, r)]) t"
    using inv sign by (auto simp: execution_inv_def intro: answered_snoc)
  show ?thesis
  proof (cases "r = Panic")
    case True
    then have "worker_step signer jobs w x = set_worker w ((workers x ! w)\<lparr>phase := Unwinding\<rparr>) y"
      using w(2) sign by (simp add: worker_step_def y_def)
    moreover have "mset (in_progress x) = add_mset i (mset (in_progress (set_worker w ((workers x ! w)\<lparr>phase := Unwinding\<rparr>) y)))"
      using w in_progress_update [of w y "(workers x ! w)\<lparr>phase := Unwinding\<rparr>"] by (simp add: y)
    ultimately show ?thesis
      using inv w True ans by (auto simp: y execution_inv_def list_ex_update list_ex_split [OF w(1)])
  next
    case False
    define v where "v = \<lparr>phase = Ready, worker_results = worker_results (workers x ! w) @ [result_for jobs (i, r)]\<rparr>"
    have "worker_step signer jobs w x = set_worker w v y"
      using w(2) sign False by (simp add: worker_step_def y_def v_def result_for_def)
    moreover have "mset (in_progress x) = add_mset i (mset (in_progress (set_worker w v y)))"
      using w in_progress_update [of w y v] by (simp add: y v_def)
    moreover have "mset (collected_results (set_worker w v y)) = add_mset (result_for jobs (i, r)) (mset (collected_results x))"
      using w collected_results_update [of w y v] by (simp add: y v_def)
    ultimately show ?thesis
      using inv w False ans by (auto simp: y v_def execution_inv_def list_ex_update list_ex_split [OF w(1)])
  qed
qed

lemma inv_unwinding:
  assumes inv: "execution_inv signer jobs k s x" and w: "w < length (workers x)" "phase (workers x ! w) = Unwinding"
  shows "execution_inv signer jobs k s (worker_step signer jobs w x)"
proof -
  define y where "y = record_panic x"
  have y: "in_progress y = in_progress x" "workers y = workers x" "next_ordinal y = next_ordinal x"
    "stopped y" "first_panic y" "backend y = backend x" "call_log y = call_log x"
    by (simp_all add: y_def record_panic_def in_progress_def)
  have "Panic \<in> snd ` set (call_log x)" using inv w by (auto simp: execution_inv_def list_ex_split [OF w(1)])
  moreover have "worker_step signer jobs w x = set_worker w \<lparr>phase = Finished, worker_results = []\<rparr> y"
    using w(2) by (simp add: worker_step_def y_def)
  ultimately show ?thesis
    using inv w in_progress_update [of w y "\<lparr>phase = Finished, worker_results = []\<rparr>"] by (simp add: y execution_inv_def)
qed

lemma reached_inv: "reached signer jobs k s x \<Longrightarrow> execution_inv signer jobs k s x"
proof (induction rule: reached.induct)
  case (reached_step x w)
  then show ?case
    by (cases "phase (workers x ! w)") (simp_all add: inv_ready inv_calling inv_unwinding, simp add: worker_step_def)
qed (rule inv_start)

lemma drive_reached:
  "reached signer jobs k s x \<Longrightarrow> reached signer jobs k s (drive signer jobs pick n x) \<and> running (drive signer jobs pick n x) = []"
proof (induction signer jobs pick n x rule: drive.induct)
  case (1 signer jobs pick n x)
  show ?case
  proof (cases "running x = []")
    case False
    then have "running x ! (pick n mod length (running x)) \<in> set (running x)" by simp
    then have "reached signer jobs k s (worker_step signer jobs (running x ! (pick n mod length (running x))) x)"
      using 1(2) runningD by (blast intro: reached_step)
    with 1(1) False show ?thesis by (subst (1 2) drive.simps) simp
  qed (use 1(2) in \<open>simp add: drive.simps\<close>)
qed

lemma finished_execution:
  assumes r: "reached signer jobs k s x" and "running x = []" "0 < k"
  shows "first_panic x \<longleftrightarrow> Panic \<in> snd ` set (call_log x)"
    and "\<not> first_panic x \<Longrightarrow> mset (map fst (call_log x)) = mset [0..<length jobs]
      \<and> mset (collected_results x) = mset (map (result_for jobs) (call_log x))"
    and "answered signer jobs s (call_log x) (backend x)"
proof -
  have inv: "execution_inv signer jobs k s x" by (rule reached_inv [OF r])
  have fin: "phase v = Finished" if "v \<in> set (workers x)" for v
    using that assms(2) by (auto simp: running_def filter_empty_conv in_set_conv_nth)
  have "in_progress x = []" using fin by (simp add: in_progress_def)
  moreover have "list_ex (\<lambda>v. phase v = Finished) (workers x)"
    using inv assms(3) fin by (cases "workers x") (auto simp: execution_inv_def)
  moreover have "\<not> list_ex (\<lambda>v. phase v = Unwinding) (workers x)" using fin by (auto simp: list_ex_iff)
  ultimately show "first_panic x \<longleftrightarrow> Panic \<in> snd ` set (call_log x)"
    "\<not> first_panic x \<Longrightarrow> mset (map fst (call_log x)) = mset [0..<length jobs]
      \<and> mset (collected_results x) = mset (map (result_for jobs) (call_log x))"
    "answered signer jobs s (call_log x) (backend x)"
    using inv by (auto simp: execution_inv_def)
qed

text \<open>
  The contract of an executor: when it returns results, it has called the signer exactly once for
  every job, and the results are the answers under the identities of their jobs, in any order.
\<close>

locale signing_executor =
  fixes signer :: "'s CredentialSigner"
    and execute :: "SigningJob list \<Rightarrow> 's \<Rightarrow> (SigningResult list, nat option) result \<times> 's"
  assumes executed: "execute jobs s = (Ok results, t) \<Longrightarrow>
    \<exists>log. answered signer jobs s log t \<and> mset (map fst log) = mset [0..<length jobs] \<and> mset results = mset (map (result_for jobs) log)"
begin

lemma executed_ids:
  "execute jobs s = (Ok results, t) \<Longrightarrow> mset (map result_identity results) = mset (map job_identity jobs)"
proof -
  assume "execute jobs s = (Ok results, t)"
  then obtain log where log: "mset (map fst log) = mset [0..<length jobs]" "mset results = mset (map (result_for jobs) log)"
    using executed by blast
  have "mset (map result_identity results) = image_mset result_identity (mset results)" by simp
  also have "\<dots> = image_mset (\<lambda>i. job_identity (jobs ! i)) (mset (map fst log))"
    by (simp add: log(2) image_mset.compositionality comp_def result_for_def)
  also have "\<dots> = mset (map (\<lambda>i. job_identity (jobs ! i)) [0..<length jobs])" unfolding log(1) by (simp only: mset_map)
  also have "map (\<lambda>i. job_identity (jobs ! i)) [0..<length jobs] = map job_identity jobs" by (rule nth_equalityI) simp_all
  finally show ?thesis .
qed

lemma executed_outcomes:
  assumes "execute jobs s = (Ok results, t)" "distinct (map job_identity jobs)"
  shows "\<exists>log. answered signer jobs s log t \<and> mset (map fst log) = mset [0..<length jobs]
     \<and> (\<forall>i < length jobs. \<exists>r. (i, r) \<in> set log \<and> outcomes_for jobs results ! i = outcome_of r)"
proof -
  obtain log where log: "answered signer jobs s log t" "mset (map fst log) = mset [0..<length jobs]"
      "mset results = mset (map (result_for jobs) log)"
    using executed [OF assms(1)] by blast
  have d: "distinct (map result_identity results)" using executed_ids [OF assms(1)] assms(2) mset_eq_imp_distinct_iff by metis
  have "\<exists>r. (i, r) \<in> set log \<and> outcomes_for jobs results ! i = outcome_of r" if i: "i < length jobs" for i
  proof -
    have "i \<in> set (map fst log)" using mset_eq_setD [OF log(2)] i by simp
    then obtain r where r: "(i, r) \<in> set log" by auto
    then have "result_for jobs (i, r) \<in> set results" using mset_eq_setD [OF log(3)] by simp
    then have "(job_identity (jobs ! i), outcome_of r) \<in> set (map (\<lambda>r. (result_identity r, outcome r)) results)"
      by (force simp: result_for_def)
    then have "map_of (map (\<lambda>r. (result_identity r, outcome r)) results) (job_identity (jobs ! i)) = Some (outcome_of r)"
      using d by (intro map_of_is_SomeI) (simp_all add: comp_def)
    with r i show ?thesis by (auto simp: outcomes_for_def)
  qed
  with log show ?thesis by blast
qed

end

lemma serial_executed:
  "serial_execute signer n jobs s = (Ok results, t) \<Longrightarrow>
     \<exists>rs. length rs = length jobs \<and> results = map2 (\<lambda>job r. \<lparr>result_identity = job_identity job, outcome = outcome_of r\<rparr>) jobs rs
       \<and> (\<forall>pre. answered signer (pre @ jobs) s (zip [length pre..<length pre + length jobs] rs) t)"
proof (induction jobs arbitrary: n s results)
  case (Cons job jobs)
  obtain r s1 where step: "sign signer (payload job) s = (r, s1)" by fastforce
  with Cons.prems obtain signature rest where ok: "r = Ok signature" "serial_execute signer (Suc n) jobs s1 = (Ok rest, t)"
      "results = \<lparr>result_identity = job_identity job, outcome = Signature signature\<rparr> # rest"
    by auto
  from Cons.IH [OF ok(2)] obtain rs where rs: "length rs = length jobs"
      "rest = map2 (\<lambda>job r. \<lparr>result_identity = job_identity job, outcome = outcome_of r\<rparr>) jobs rs"
      "\<And>pre. answered signer (pre @ jobs) s1 (zip [length pre..<length pre + length jobs] rs) t" by blast
  have "answered signer (pre @ job # jobs) s (zip [length pre..<length pre + length (job # jobs)] (r # rs)) t" for pre
  proof -
    have "[length pre..<length pre + length (job # jobs)] = length pre # [length (pre @ [job])..<length (pre @ [job]) + length jobs]"
      by (simp add: upt_conv_Cons del: upt_Suc)
    then show ?thesis using rs(3) [of "pre @ [job]"] step by simp
  qed
  with rs ok show ?case by (intro exI [of _ "r # rs"]) (simp add: outcome_of_def)
qed simp

interpretation serial: signing_executor signer "serial_execute signer 0"
proof
  fix jobs s results t
  assume "serial_execute signer 0 jobs s = (Ok results, t)"
  from serial_executed [OF this] obtain rs where rs: "length rs = length jobs"
      "results = map2 (\<lambda>job r. \<lparr>result_identity = job_identity job, outcome = outcome_of r\<rparr>) jobs rs"
      "answered signer jobs s (zip [0..<length jobs] rs) t" by (metis append_Nil list.size(3) add_0)
  moreover from rs(1,2) have "results = map (result_for jobs) (zip [0..<length jobs] rs)"
    by (auto intro!: nth_equalityI simp: result_for_def)
  ultimately show "\<exists>log. answered signer jobs s log t \<and> mset (map fst log) = mset [0..<length jobs]
      \<and> mset results = mset (map (result_for jobs) log)"
    by (intro exI [of _ "zip [0..<length jobs] rs"]) simp
qed

lemma concurrent_execution:
  assumes "jobs \<noteq> []"
  obtains x k where "reached signer jobs k s x" "running x = []" "0 < k" "k \<le> max 1 (min limit (length jobs))"
    "concurrent_execute signer limit spawned pick jobs s = (if first_panic x then Panic else Ok (collected_results x), backend x)"
proof -
  define k where "k = 1 + min spawned (min limit (length jobs) - 1)"
  define x where "x = drive signer jobs pick 0 (start_execution k s)"
  have "reached signer jobs k s x \<and> running x = []" unfolding x_def by (rule drive_reached) (rule reached_start)
  moreover have "concurrent_execute signer limit spawned pick jobs s = (if first_panic x then Panic else Ok (collected_results x), backend x)"
    using assms by (simp add: concurrent_execute_def Let_def x_def k_def collected_results_def)
  ultimately show ?thesis using that [of k x] by (simp add: k_def)
qed

interpretation concurrent: signing_executor signer "concurrent_execute signer limit spawned pick"
proof
  fix jobs s results t
  assume run: "concurrent_execute signer limit spawned pick jobs s = (Ok results, t)"
  show "\<exists>log. answered signer jobs s log t \<and> mset (map fst log) = mset [0..<length jobs]
      \<and> mset results = mset (map (result_for jobs) log)"
  proof (cases "jobs = []")
    case True
    with run have "results = [] \<and> t = s" by (simp add: concurrent_execute_def)
    then show ?thesis using True by (intro exI [of _ "[]"]) simp
  next
    case False
    then obtain x k where x: "reached signer jobs k s x" "running x = []" "0 < k"
      "concurrent_execute signer limit spawned pick jobs s = (if first_panic x then Panic else Ok (collected_results x), backend x)"
      by (rule concurrent_execution)
    with run have "\<not> first_panic x" "results = collected_results x" "t = backend x" by (auto split: if_splits)
    with finished_execution [OF x(1-3)] show ?thesis by blast
  qed
qed

subsection \<open>Batches\<close>

lemma prepare_Ok:
  "prepare fmt i sc b n inputs = Ok items \<Longrightarrow> length items = length inputs \<and>
     (\<forall>j < length inputs. job_id (item_identity (items ! j)) = n + j
        \<and> prepare_credential fmt i (inputs ! j) = Inr (credential (items ! j)))"
proof (induction inputs arbitrary: n items)
  case (Cons input inputs)
  then obtain c rest where c: "prepare_credential fmt i input = Inr c" "prepare fmt i sc b (Suc n) inputs = Ok rest"
    "items = \<lparr>item_identity = \<lparr>job_scope_id = sc, job_batch_id = b, job_route_id = route_id input, job_id = n\<rparr>, credential = c\<rparr> # rest"
    by auto
  have "job_id (item_identity (items ! j)) = n + j \<and> prepare_credential fmt i ((input # inputs) ! j) = Inr (credential (items ! j))"
    if "j < length (input # inputs)" for j
    using that c Cons.IH [OF c(2)] by (cases j) simp_all
  then show ?case using c Cons.IH [OF c(2)] by simp
qed simp

lemma prepare_Err:
  "prepare fmt i sc b n inputs = Err e \<Longrightarrow> \<exists>j < length inputs. e = item_error PreparationFailed (n + j)"
proof (induction inputs arbitrary: n)
  case (Cons input inputs)
  then show ?case
    by (auto simp: rbind_eq_Err lift_err_eq_Err intro: exI [of _ "0 :: nat"]) (metis Suc_less_eq add_Suc_shift)
qed simp

lemma prepared_distinct:
  assumes "prepare fmt i sc b 0 inputs = Ok items"
  shows "distinct (map job_identity (jobs_of fmt items))"
proof -
  have "map job_id (map job_identity (jobs_of fmt items)) = [0..<length items]"
    using prepare_Ok [OF assms] by (intro nth_equalityI) (simp_all add: jobs_of_def)
  then show ?thesis using distinct_map [of job_id "map job_identity (jobs_of fmt items)"] by simp
qed

lemma check_signatures_Ok:
  "check_signatures valid n (map Some outs) = Ok sigs \<Longrightarrow>
     outs = map Signature sigs \<and> (\<forall>sig \<in> set sigs. length sig = ES256_SIGNATURE_LENGTH \<and> valid sig)"
proof (induction outs arbitrary: n sigs)
  case (Cons out outs)
  then show ?case by (cases out) auto
qed simp

lemma assemble_Ok:
  "assemble_credentials fmt n items sigs = Ok cs \<Longrightarrow> length sigs = length items \<Longrightarrow>
     length cs = length items \<and> (\<forall>j < length items. canonical_assemble fmt (credential (items ! j)) (sigs ! j) = Inr (cs ! j))"
proof (induction fmt n items sigs arbitrary: cs rule: assemble_credentials.induct)
  case (1 fmt n item items sig sigs)
  from "1.prems" obtain c rest where c: "canonical_assemble fmt (credential item) sig = Inr c" "assemble_credentials fmt (Suc n) items sigs = Ok rest"
    "cs = c # rest" by auto
  note IH = "1.IH" [OF _ c(2)]
  have "canonical_assemble fmt (credential ((item # items) ! j)) ((sig # sigs) ! j) = Inr (cs ! j)" if "j < length (item # items)" for j
    using that c IH "1.prems"(2) by (cases j) simp_all
  then show ?case using c IH "1.prems"(2) by simp
qed simp_all

lemma judge_Ok:
  "judge valid outs = Ok sigs \<Longrightarrow> outs = map Signature sigs \<and> (\<forall>sig \<in> set sigs. length sig = ES256_SIGNATURE_LENGTH \<and> valid sig)"
  by (auto simp: judge_def split: option.splits dest: check_signatures_Ok)

text \<open>
  What a successful batch is: one credential per input, in the order of the inputs, assembled from
  the input's own preparation and a valid signature the signer gave for its payload; the signer was
  called once per input.
\<close>

definition batch_signed ::
    "('c, 'w, 'p, 'v) formats \<Rightarrow> 's CredentialSigner \<Rightarrow> FrozenSignerIdentity \<Rightarrow> ('c, 'w) Es256SigningBatchInput list \<Rightarrow> 's
       \<Rightarrow> 'v list \<Rightarrow> 's \<Rightarrow> bool" where
  "batch_signed fmt signer i inputs s credentials t \<longleftrightarrow>
     length credentials = length inputs \<and>
     (\<exists>jobs log. mset (map fst log) = mset [0..<length inputs] \<and> answered signer jobs s log t
        \<and> (\<forall>j < length inputs. \<exists>p sig. prepare_credential fmt i (inputs ! j) = Inr p \<and> payload (jobs ! j) = signing_payload fmt p
             \<and> (j, Ok sig) \<in> set log \<and> length sig = ES256_SIGNATURE_LENGTH \<and> p256_signature fmt sig
             \<and> canonical_assemble fmt p sig = Inr (credentials ! j)))"

context signing_executor
begin

lemma batch_signed:
  assumes "prepare fmt i sc b 0 inputs = Ok items" "execute (jobs_of fmt items) s = (Ok results, t)"
    "validate_executor_results (p256_signature fmt) (jobs_of fmt items) results = Ok sigs" "assemble_credentials fmt 0 items sigs = Ok cs"
  shows "batch_signed fmt signer i inputs s cs t"
proof -
  let ?jobs = "jobs_of fmt items"
  note d = prepared_distinct [OF assms(1)] and prep = prepare_Ok [OF assms(1)]
  have len: "length ?jobs = length inputs" using prep by (simp add: jobs_of_def)
  have "judge (p256_signature fmt) (outcomes_for ?jobs results) = Ok sigs"
    using assms(3) executed_ids [OF assms(2)] d by (simp add: validate_exact)
  then have sigs: "outcomes_for ?jobs results = map Signature sigs"
      "\<forall>sig \<in> set sigs. length sig = ES256_SIGNATURE_LENGTH \<and> p256_signature fmt sig"
    using judge_Ok by blast+
  have "length (outcomes_for ?jobs results) = length inputs" by (simp add: outcomes_for_def len)
  then have lsig: "length sigs = length inputs" by (simp add: sigs(1))
  then have asm: "length cs = length inputs" "\<And>j. j < length inputs \<Longrightarrow> canonical_assemble fmt (credential (items ! j)) (sigs ! j) = Inr (cs ! j)"
    using assemble_Ok [OF assms(4)] prep by simp_all
  obtain log where log: "answered signer ?jobs s log t" "mset (map fst log) = mset [0..<length ?jobs]"
      "\<forall>j < length ?jobs. \<exists>r. (j, r) \<in> set log \<and> outcomes_for ?jobs results ! j = outcome_of r"
    using executed_outcomes [OF assms(2) d] by blast
  have "\<exists>p sig. prepare_credential fmt i (inputs ! j) = Inr p \<and> payload (?jobs ! j) = signing_payload fmt p
      \<and> (j, Ok sig) \<in> set log \<and> length sig = ES256_SIGNATURE_LENGTH \<and> p256_signature fmt sig
      \<and> canonical_assemble fmt p sig = Inr (cs ! j)" if j: "j < length inputs" for j
  proof -
    obtain r where r: "(j, r) \<in> set log" "outcome_of r = Signature (sigs ! j)" using log(3) j len lsig sigs(1) by force
    then have "r = Ok (sigs ! j)" by (cases r) (simp_all add: outcome_of_def)
    moreover have "payload (?jobs ! j) = signing_payload fmt (credential (items ! j))" using j prep by (simp add: jobs_of_def)
    ultimately show ?thesis using r j prep asm(2) sigs(2) lsig by (intro exI [of _ "credential (items ! j)"] exI [of _ "sigs ! j"]) simp
  qed
  with log(1,2) asm(1) len show ?thesis unfolding batch_signed_def by fastforce
qed

lemma stateless_judge:
  assumes stateless: "\<And>p s. sign signer p s = (answer p, s)"
    and run: "execute jobs s = (Ok results, t)" and d: "distinct (map job_identity jobs)"
  shows "t = s \<and> validate_executor_results valid jobs results = judge valid (map (\<lambda>job. outcome_of (answer (payload job))) jobs)"
proof -
  have answers: "answered signer jobs s log t \<Longrightarrow> t = s \<and> (\<forall>(i, r) \<in> set log. r = answer (payload (jobs ! i)))" for log
    by (induction log arbitrary: s) (auto simp: stateless, blast)
  obtain log where log: "answered signer jobs s log t"
      "\<forall>i < length jobs. \<exists>r. (i, r) \<in> set log \<and> outcomes_for jobs results ! i = outcome_of r"
    using executed_outcomes [OF run d] by blast
  have "outcomes_for jobs results = map (\<lambda>job. outcome_of (answer (payload job))) jobs"
  proof (rule nth_equalityI)
    fix i assume "i < length (outcomes_for jobs results)"
    then have i: "i < length jobs" by (simp add: outcomes_for_def)
    then obtain r where "(i, r) \<in> set log" "outcomes_for jobs results ! i = outcome_of r" using log(2) by blast
    then show "outcomes_for jobs results ! i = map (\<lambda>job. outcome_of (answer (payload job))) jobs ! i" using answers [OF log(1)] i by auto
  qed (simp add: outcomes_for_def)
  then show ?thesis using answers [OF log(1)] executed_ids [OF run] d by (simp add: validate_exact)
qed

end

lemma position_map: "position P n (map f xs) = position (\<lambda>x. P (f x)) n xs"
  by (induction xs arbitrary: n) simp_all

lemma serial_stateless_Err:
  assumes "\<And>p s. sign signer p s = (answer p, s)" "\<And>p. answer p \<noteq> Panic"
  shows "serial_execute signer n jobs s = (r, t) \<Longrightarrow> t = s \<and> r \<noteq> Panic
    \<and> (\<forall>e. r = Err e \<longrightarrow> (\<exists>i. e = Some i \<and> position (\<lambda>job. outcome_of (answer (payload job)) = Failed) n jobs = Some i))"
proof (induction jobs arbitrary: n r t)
  case (Cons job jobs)
  show ?case
  proof (cases "answer (payload job)")
    case (Ok signature)
    obtain r1 t1 where rest: "serial_execute signer (Suc n) jobs s = (r1, t1)" by fastforce
    with Cons.IH [OF rest] Cons.prems Ok assms(1) show ?thesis by (cases r1) (auto simp: outcome_of_def)
  next
    case (Err e)
    then show ?thesis using Cons.prems assms(1) by (auto simp: outcome_of_def)
  qed (use assms(2) in blast)
qed simp

lemma concurrent_never_Err: "fst (concurrent_execute signer limit spawned pick jobs s) \<noteq> Err e"
  by (simp add: concurrent_execute_def Let_def)

lemma concurrent_stateless:
  assumes "\<And>p s. sign signer p s = (answer p, s)" "\<And>p. answer p \<noteq> Panic"
  shows "fst (concurrent_execute signer limit spawned pick jobs s) \<noteq> Panic"
proof (cases "jobs = []")
  case False
  then obtain x k where x: "reached signer jobs k s x" "running x = []" "0 < k"
    "concurrent_execute signer limit spawned pick jobs s = (if first_panic x then Panic else Ok (collected_results x), backend x)"
    by (rule concurrent_execution)
  have "answered signer jobs s log t \<Longrightarrow> Panic \<notin> snd ` set log" for log t
    using assms by (induction log arbitrary: s) auto
  with finished_execution(1,3) [OF x(1-3)] x(4) show ?thesis by simp
qed (simp add: concurrent_execute_def)

lemma judge_failed: "position (\<lambda>job. outcome_of (answer (payload job)) = Failed) 0 jobs = Some i \<Longrightarrow>
  judge valid (map (\<lambda>job. outcome_of (answer (payload job))) jobs) = Err (item_error ExecutorFailed i)"
  by (simp add: judge_def position_map)

lemma op_bind_cong: "m = m' \<Longrightarrow> (\<And>v s. m' = (Ok v, s) \<Longrightarrow> f v s = g v s) \<Longrightarrow> op_bind m f = op_bind m' g"
  by (cases m'; cases "fst m'") auto

text \<open>
  C6: Concurrency does not show. For a signer whose answer depends only on the payload and who does
  not panic, the concurrent scope returns what the serial scope returns on the same inputs, the
  same credentials or the same error with the same ordinal, for every number of workers that could
  be started and every order in which they take their steps.
\<close>
theorem signing_schedule_irrelevant:
  assumes stateless: "\<And>p s. sign signer p s = (answer p, s)" and no_panic: "\<And>p. answer p \<noteq> Panic"
  shows "sign_batch_concurrently fmt signer lease spawned pick batch_id inputs s
     = sign_batch fmt signer (concurrent_scope lease) batch_id inputs s"
  unfolding sign_batch_concurrently_def sign_batch_def sign_batch_with_def Let_def
proof (intro op_bind_cong refl, goal_cases)
  case (1 u1 s1 u2 s2 prepared s3 u3 s4)
  let ?jobs = "jobs_of fmt prepared" and ?valid = "p256_signature fmt"
  let ?outs = "map (\<lambda>job. outcome_of (answer (payload job))) ?jobs"
  have d: "distinct (map job_identity ?jobs)" using 1 by (auto intro: prepared_distinct)
  have m: "matches (identity (concurrent_scope lease)) signer s4" using 1 by auto
  obtain r t where con: "concurrent_execute signer (worker_limit lease) spawned pick ?jobs s4 = (r, t)" by fastforce
  then obtain results where r: "r = Ok results"
    using concurrent_stateless [OF stateless no_panic, of "worker_limit lease" spawned pick ?jobs s4]
      concurrent_never_Err [of signer "worker_limit lease" spawned pick ?jobs s4] by (cases r) auto
  note cj = concurrent.stateless_judge [OF stateless con [unfolded r] d, of ?valid]
  obtain r' t' where ser: "serial_execute signer 0 ?jobs s4 = (r', t')" by fastforce
  note se = serial_stateless_Err [OF stateless no_panic ser]
  show ?case
  proof (cases r')
    case (Ok results')
    with serial.stateless_judge [OF stateless ser [unfolded Ok] d, of ?valid] cj show ?thesis
      using m by (simp add: con ser r)
  next
    case (Err e)
    with se obtain i where "e = Some i" "position (\<lambda>job. outcome_of (answer (payload job)) = Failed) 0 ?jobs = Some i" by blast
    with judge_failed [of answer ?jobs i ?valid] cj Err se m show ?thesis by (simp add: con ser r executor_error_def)
  qed (use se in simp)
qed

definition sample_formats :: "(nat, unit, nat, nat \<times> bytes) formats" where
  "sample_formats = \<lparr>prepare_jwt_vc = (\<lambda>_ c. Inr c), prepare_sd_jwt_with_holder_public_jwk = (\<lambda>_ c _. Inr c), prepare_mdoc = (\<lambda>_ c. Inr c),
     jwt_vc_payload = (\<lambda>p. [of_nat p]), sd_jwt_payload = (\<lambda>p. [of_nat p]), mdoc_payload = (\<lambda>p. [of_nat p]),
     assemble_jwt_vc = (\<lambda>p sig. Inr (p, sig)), assemble_sd_jwt = (\<lambda>p sig. Inr (p, sig)), assemble_mdoc = (\<lambda>p sig. Inr (p, sig)),
     p256_signature = (\<lambda>_. True)\<rparr>"

definition sample_answer :: "bytes \<Rightarrow> (bytes, ustr) result" where
  "sample_answer p = Ok (replicate 64 (hd p))"

definition sample_signer :: "unit CredentialSigner" where
  "sample_signer = \<lparr>sign = (\<lambda>p s. (sample_answer p, s)), algorithm = (\<lambda>_. ES256), issuer_id = (\<lambda>_. lit ''issuer''),
     kid_url = (\<lambda>_. lit ''key''), public_jwk = (\<lambda>_. Inr (lit ''jwk''))\<rparr>"

definition sample_lease :: ConcurrentEs256SignerScope where
  "sample_lease = \<lparr>concurrent_scope = \<lparr>identity = \<lparr>frozen_algorithm = ES256, frozen_issuer_id = lit ''issuer'', frozen_kid_url = lit ''key'',
     frozen_public_jwk = lit ''jwk''\<rparr>, scope_id = [1]\<rparr>, worker_limit = 2\<rparr>"

definition sample_batch :: "(nat, unit) Es256SigningBatchInput list" where
  "sample_batch = [JwtVcInput 7 1, MdocInput 5 2]"

theorem signing_schedule_irrelevant_witness:
  "sign_batch_concurrently sample_formats sample_signer sample_lease 1 (\<lambda>n. n) [2] sample_batch ()
     = (Ok [(1, replicate 64 1), (2, replicate 64 2)], ())"
proof -
  have "sign_batch_concurrently sample_formats sample_signer sample_lease 1 (\<lambda>n. n) [2] sample_batch ()
      = sign_batch sample_formats sample_signer (concurrent_scope sample_lease) [2] sample_batch ()"
    by (rule signing_schedule_irrelevant [of _ sample_answer]) (simp_all add: sample_signer_def sample_answer_def)
  also have "\<dots> = (Ok [(1, replicate 64 1), (2, replicate 64 2)], ())"
    by code_simp
  finally show ?thesis .
qed

lemma validate_no_Panic: "validate_executor_results valid jobs results \<noteq> Panic"
proof -
  have "check_signatures valid n (map Some outs) \<noteq> Panic" if "position (\<lambda>out. out = Failed) m outs = None" for n m outs
    using that
  proof (induction outs arbitrary: n m)
    case (Cons out outs)
    then show ?case by (cases out) (auto simp: rbind_eq_Panic split: if_splits)
  qed simp
  then show ?thesis by (auto simp: validate_exact judge_def split: option.splits)
qed

lemma check_signatures_Err: "check_signatures valid n outs = Err e \<Longrightarrow> kind e = InvalidSignature"
  by (induction valid n outs rule: check_signatures.induct) (auto simp: rbind_eq_Err item_error_def)

lemma validate_kinds:
  "validate_executor_results valid jobs results = Err e \<Longrightarrow> kind e \<in> {InvalidExecutorResults, ExecutorFailed, InvalidSignature}"
  by (auto simp: validate_exact judge_def item_error_def batch_error_def split: if_splits option.splits dest: check_signatures_Err)

lemma assemble_no_Panic: "assemble_credentials fmt n items sigs \<noteq> Panic"
  by (induction fmt n items sigs rule: assemble_credentials.induct) (auto simp: rbind_eq_Panic)

lemma concurrent_panic:
  assumes "concurrent_execute signer limit spawned pick jobs s = (Panic, t)"
  shows "\<exists>p u. fst (sign signer p u) = Panic"
proof -
  have "jobs \<noteq> []" using assms by (auto simp: concurrent_execute_def)
  then obtain x k where x: "reached signer jobs k s x" "running x = []" "0 < k"
    "concurrent_execute signer limit spawned pick jobs s = (if first_panic x then Panic else Ok (collected_results x), backend x)"
    by (rule concurrent_execution)
  have "answered signer jobs s log t \<Longrightarrow> Panic \<in> snd ` set log \<Longrightarrow> \<exists>p u. fst (sign signer p u) = Panic" for log t
  proof (induction log arbitrary: s)
    case (Cons e log)
    obtain i r where e: "e = (i, r)" by (cases e)
    show ?case
    proof (cases "r = Panic")
      case True
      then have "fst (sign signer (payload (jobs ! i)) s) = Panic" using Cons.prems(1) e by (simp add: split_beta)
      then show ?thesis by blast
    next
      case False
      then show ?thesis using Cons.prems e by (intro Cons.IH [of "snd (sign signer (payload (jobs ! i)) s)"]) (auto simp: split_beta)
    qed
  qed simp
  with finished_execution(1,3) [OF x(1-3)] x(4) assms show ?thesis by (auto split: if_splits)
qed

lemma assemble_kinds: "assemble_credentials fmt n items sigs = Err e \<Longrightarrow> kind e = AssemblyFailed"
  by (induction fmt n items sigs rule: assemble_credentials.induct) (auto simp: rbind_eq_Err lift_err_eq_Err item_error_def)

lemma executor_error_kind [simp]: "kind (executor_error e) = ExecutorFailed"
  by (cases e) (simp_all add: executor_error_def item_error_def batch_error_def)

lemma map_err_eq_Err [simp]: "map_err g m = Err e \<longleftrightarrow> (\<exists>x. m = Err x \<and> e = g x)"
  by (cases m) auto

lemma disjoint_upd: "A \<inter> dom (m(k \<mapsto> n)) = {} \<longleftrightarrow> k \<notin> A \<and> A \<inter> dom m = {}"
  by auto

lemma scan_routes_None: "scan_routes n inputs m l = None \<longleftrightarrow> l = None \<and> distinct (map route_id inputs) \<and> set (map route_id inputs) \<inter> dom m = {}"
proof (induction n inputs m l rule: scan_routes.induct)
  case (2 n input inputs m l)
  show ?case
  proof (cases "m (route_id input)")
    case None
    have "scan_routes n (input # inputs) m l = scan_routes (Suc n) inputs (m(route_id input \<mapsto> n)) l" using None by simp
    also have "\<dots> = None \<longleftrightarrow> l = None \<and> distinct (map route_id inputs) \<and> set (map route_id inputs) \<inter> dom (m(route_id input \<mapsto> n)) = {}"
      by (rule "2.IH"(1)) (rule None)
    finally show ?thesis using None by (auto simp: disjoint_upd simp del: fun_upd_apply)
  next
    case (Some first)
    then show ?thesis using "2.IH"(2) [OF Some] by auto
  qed
qed auto

lemma unique_routes: "validate_unique_routes inputs = Ok () \<longleftrightarrow> distinct (map route_id inputs)"
  using scan_routes_None [of 0 inputs Map.empty None] by (auto simp: validate_unique_routes_def split: option.splits)

lemma op_bind_pure: "op_bind (m, s) (\<lambda>x s. (f x, s)) = (rbind m f, s)"
  by (cases m) simp_all

lemma prepare_no_Panic: "prepare fmt i sc b n inputs \<noteq> Panic"
  by (induction inputs arbitrary: n) (simp_all add: rbind_eq_Panic)

lemma concurrent_batch_cases [consumes 1, case_names early ran]:
  assumes "sign_batch_concurrently fmt signer lease spawned pick batch_id inputs s = (r, t)"
  obtains (early) e where "r = Err e" "t = s" "kind e \<in> {InvalidScope, DuplicateRoute, PreparationFailed, SignerMetadataChanged}"
  | (ran) items execution where "distinct (map route_id inputs)" "matches (identity (concurrent_scope lease)) signer s"
      "prepare fmt (identity (concurrent_scope lease)) (scope_id (concurrent_scope lease)) batch_id 0 inputs = Ok items"
      "concurrent_execute signer (worker_limit lease) spawned pick (jobs_of fmt items) s = (execution, t)"
      "r = (if execution = Panic then Panic
            else rbind (ensure (matches (identity (concurrent_scope lease)) signer t) (batch_error SignerMetadataChanged)) (\<lambda>_.
                 rbind (map_err executor_error execution) (\<lambda>results.
                 rbind (validate_executor_results (p256_signature fmt) (jobs_of fmt items) results) (\<lambda>sigs.
                 assemble_credentials fmt 0 items sigs))))"
proof -
  let ?i = "identity (concurrent_scope lease)" and ?sc = "scope_id (concurrent_scope lease)"
  consider (scope) "validate_identity ?i \<noteq> Ok ()"
    | (routes) "validate_identity ?i = Ok ()" "validate_unique_routes inputs \<noteq> Ok ()"
    | (failed) e where "validate_identity ?i = Ok ()" "validate_unique_routes inputs = Ok ()" "prepare fmt ?i ?sc batch_id 0 inputs = Err e"
    | (prepared) items where "validate_identity ?i = Ok ()" "validate_unique_routes inputs = Ok ()" "prepare fmt ?i ?sc batch_id 0 inputs = Ok items"
    using prepare_no_Panic by (metis (full_types) old.unit.exhaust result.exhaust)
  then show ?thesis
  proof cases
    case scope
    then have "validate_identity ?i = Err (batch_error InvalidScope)" by (simp add: validate_identity_def ensure_def split: if_splits)
    then show ?thesis using assms early by (auto simp: sign_batch_concurrently_def batch_error_def)
  next
    case routes
    then obtain n where "validate_unique_routes inputs = Err (item_error DuplicateRoute n)"
      by (auto simp: validate_unique_routes_def split: option.splits)
    then show ?thesis using assms early routes by (auto simp add: sign_batch_concurrently_def item_error_def)
  next
    case failed
    with prepare_Err [OF failed(3)] show ?thesis using assms early by (auto simp: sign_batch_concurrently_def item_error_def)
  next
    case prepared
    obtain execution t' where run: "concurrent_execute signer (worker_limit lease) spawned pick (jobs_of fmt items) s = (execution, t')" by fastforce
    show ?thesis
    proof (cases "matches ?i signer s")
      case False
      then show ?thesis using assms early prepared by (auto simp add: sign_batch_concurrently_def batch_error_def)
    next
      case True
      then show ?thesis using assms prepared run ran [of items execution] unique_routes
        by (auto simp: sign_batch_concurrently_def op_bind_pure split: if_splits)
    qed
  qed
qed

text \<open>
  C7: A concurrent batch binds every credential to its own input. Whatever the signer answers, how
  many workers could be started and how they interleave: a successful batch has one credential
  per input, in the order of the inputs, assembled from the preparation of that input and a
  64-byte P-256 signature the signer returned for exactly its payload, the signer having been
  called once per input and its identity matching the frozen one before and after. An error of
  the scope, of a repeated route or of a preparation comes before the first call of the signer;
  the results of the workers never fail their own identity check; and only a panic of the signer
  makes the batch panic.
\<close>
theorem signing_batch_binds:
  assumes run: "sign_batch_concurrently fmt signer lease spawned pick batch_id inputs s = (r, t)"
  shows "(\<forall>cs. r = Ok cs \<longrightarrow> batch_signed fmt signer (identity (concurrent_scope lease)) inputs s cs t \<and> distinct (map route_id inputs)
        \<and> matches (identity (concurrent_scope lease)) signer s \<and> matches (identity (concurrent_scope lease)) signer t)
    \<and> (\<forall>e. r = Err e \<longrightarrow> kind e \<noteq> InvalidExecutorResults \<and> (kind e \<in> {InvalidScope, DuplicateRoute, PreparationFailed} \<longrightarrow> t = s))
    \<and> (r = Panic \<longrightarrow> (\<exists>p u. fst (sign signer p u) = Panic))"
  using run
proof (cases rule: concurrent_batch_cases)
  case (ran items execution)
  note d = prepared_distinct [OF ran(3)]
  have ids: "mset (map result_identity results) = mset (map job_identity (jobs_of fmt items))" if "execution = Ok results" for results
    using concurrent.executed_ids [OF ran(4) [unfolded that]] .
  have ok: "batch_signed fmt signer (identity (concurrent_scope lease)) inputs s cs t \<and> matches (identity (concurrent_scope lease)) signer t"
    if "r = Ok cs" for cs
    using that ran(5) concurrent.batch_signed [OF ran(3)] ran(4) by (auto split: if_splits)
  have err: "kind e \<notin> {InvalidExecutorResults, InvalidScope, DuplicateRoute, PreparationFailed}" if "r = Err e" for e
    using that ran(5) d ids
    by (auto simp: rbind_eq_Err batch_error_def validate_exact judge_def item_error_def split: if_splits option.splits
        dest: assemble_kinds check_signatures_Err)
  have "execution = Panic" if "r = Panic"
    using that ran(5) by (auto simp: rbind_eq_Panic validate_no_Panic assemble_no_Panic split: if_splits)
  then have "\<exists>p u. fst (sign signer p u) = Panic" if "r = Panic" using that ran(4) concurrent_panic by metis
  with ok err ran(1,2) show ?thesis by auto
qed (auto simp: sign_batch_concurrently_def)

theorem signing_batch_binds_witness:
  "batch_signed sample_formats sample_signer (identity (concurrent_scope sample_lease)) sample_batch ()
     [(1, replicate 64 1), (2, replicate 64 2)] ()"
proof -
  have "sign_batch_concurrently sample_formats sample_signer sample_lease 1 (\<lambda>n. n) [2] sample_batch ()
      = (Ok [(1, replicate 64 1), (2, replicate 64 2)], ())" by code_simp
  from signing_batch_binds [OF this] show ?thesis by blast
qed

lemma in_progress_length: "length (in_progress x) \<le> length (workers x)"
proof -
  have "length (concat (map (\<lambda>v. calls_of (phase v)) vs)) \<le> length vs" for vs
  proof (induction vs)
    case (Cons v vs)
    have "length (calls_of (phase v)) \<le> 1" by (cases "phase v") simp_all
    with Cons show ?case by simp
  qed simp
  then show ?thesis by (simp add: in_progress_def)
qed

lemma start_work: "work_left jobs (start_execution k s) = 3 * length jobs + k"
  by (simp add: work_left_def start_execution_def sum_list_replicate)

text \<open>
  C8: In every interleaving of the workers, the calls that returned and the calls in progress are
  for distinct jobs, exactly those claimed so far, and at most one per worker is in progress. Each
  step of a running worker uses up work, of which a run of \<open>k\<close> workers on \<open>n\<close> jobs has
  \<open>3 * n + k\<close>, so every run ends; and when all workers have finished without a panic, the signer
  has been called exactly once for every job.
\<close>
theorem signing_calls_once:
  assumes "reached signer jobs k s x"
  shows "distinct (map fst (call_log x) @ in_progress x) \<and> set (map fst (call_log x) @ in_progress x) = {0..<next_ordinal x}
    \<and> next_ordinal x \<le> length jobs \<and> length (in_progress x) \<le> k
    \<and> work_left jobs (start_execution k s) = 3 * length jobs + k
    \<and> (\<forall>w \<in> set (running x). work_left jobs (worker_step signer jobs w x) < work_left jobs x)
    \<and> (0 < k \<and> running x = [] \<and> Panic \<notin> snd ` set (call_log x) \<longrightarrow> mset (map fst (call_log x)) = mset [0..<length jobs])"
proof -
  have inv: "execution_inv signer jobs k s x" by (rule reached_inv [OF assms])
  then have "mset (map fst (call_log x) @ in_progress x) = mset [0..<next_ordinal x]" by (simp add: execution_inv_def)
  then have "distinct (map fst (call_log x) @ in_progress x) \<and> set (map fst (call_log x) @ in_progress x) = set [0..<next_ordinal x]"
    using mset_eq_distinct [OF distinct_upt] by blast
  moreover have "length (in_progress x) \<le> k" "next_ordinal x \<le> length jobs"
    using inv in_progress_length [of x] by (auto simp: execution_inv_def)
  moreover have "\<forall>w \<in> set (running x). work_left jobs (worker_step signer jobs w x) < work_left jobs x"
    using runningD worker_step_decreases by blast
  ultimately show ?thesis using finished_execution [OF assms] start_work by simp
qed

theorem signing_calls_once_witness:
  "\<exists>x. reached sample_signer [\<lparr>job_identity = \<lparr>job_scope_id = [1], job_batch_id = [2], job_route_id = 7, job_id = 0\<rparr>, payload = [1]\<rparr>] 2 () x
     \<and> in_progress x = [0] \<and> length (in_progress x) \<le> 2"
proof -
  let ?jobs = "[\<lparr>job_identity = \<lparr>job_scope_id = [1], job_batch_id = [2], job_route_id = 7, job_id = 0\<rparr>, payload = [1]\<rparr>]"
  let ?x = "worker_step sample_signer ?jobs 1 (start_execution 2 ())"
  have r: "reached sample_signer ?jobs 2 () ?x"
    by (intro reached_step reached_start) (simp add: start_execution_def)
  moreover have "in_progress ?x = [0]" by code_simp
  ultimately show ?thesis using signing_calls_once [OF r] by blast
qed

end
