(* ===== verification/VerificationDecision.thy ===== *)
theory VerificationDecision
  imports RustStr "HOL-Library.Multiset"
begin

text \<open>
  The canonical verification decision, after \<open>verification/decision.rs\<close> (the reduction of check
  outcomes to a decision) and \<open>verification/result.rs\<close> (validation of provenance and assembly of
  the result) of marty-verification. Counters are \<open>u32\<close> with checked increments. RFC 3339
  date-times and UUIDs are arguments.
\<close>

subsection \<open>Checks and decisions\<close>

datatype VerificationProcessingStatus = Completed | StatusUnsupported | StatusUnavailable | StatusError
datatype VerificationDecision = Pass | Fail | Indeterminate
datatype VerificationDecisionCode = AllRequiredChecksPassed | RequiredCheckFailed | RequiredCheckUnresolved | ProcessingNotCompleted
datatype VerificationCheckCategory = Structure | CredentialProof | PresentationProof | DocumentIntegrity | IssuerTrust | Validity
  | CategoryStatus | HolderBinding | TransactionBinding | ClaimConstraints | Biometric | CategoryPolicy
datatype VerificationCheckOutcome = Passed | Failed | NotPerformed | Unsupported | OutcomeError | NotApplicable
datatype VerificationCategoryOutcome = CategoryPassed | CategoryFailed | CategoryIndeterminate | CategoryNotApplicable

definition is_unresolved :: "VerificationCheckOutcome \<Rightarrow> bool" where
  "is_unresolved x \<longleftrightarrow> x \<in> {NotPerformed, Unsupported, OutcomeError, NotApplicable}"

definition requires_evidence :: "VerificationCheckOutcome \<Rightarrow> bool" where
  "requires_evidence x \<longleftrightarrow> x \<in> {Passed, Failed}"

record VerificationCheckResult =
  check_id :: ustr
  category :: VerificationCheckCategory
  required :: bool
  outcome :: VerificationCheckOutcome
  code :: ustr
  check_component_id :: ustr
  check_evaluated_at :: ustr
  evidence_refs :: "ustr list"

record VerificationCategorySummary =
  summary_category :: VerificationCheckCategory
  summary_outcome :: VerificationCategoryOutcome
  required_check_count :: nat
  passed_required_count :: nat
  failed_required_count :: nat
  unresolved_required_count :: nat

record ReducedVerificationDecision =
  processing_status :: VerificationProcessingStatus
  decision :: VerificationDecision
  decision_code :: VerificationDecisionCode
  valid :: bool
  category_summaries :: "VerificationCategorySummary list"

datatype VerificationReductionError = MissingRequiredCheck | DuplicateCheckId ustr | MissingEvidence ustr VerificationCheckOutcome
  | DuplicateEvidenceReference ustr ustr | CategoryCountOverflow VerificationCheckCategory

record CategoryCounts =
  required_n :: nat
  passed_n :: nat
  failed_n :: nat
  unresolved_n :: nat

text \<open>The order of the categories is that of their declaration; a map keyed by category is walked in it.\<close>

fun category_rank :: "VerificationCheckCategory \<Rightarrow> nat" where
  "category_rank Structure = 0" | "category_rank CredentialProof = 1" | "category_rank PresentationProof = 2"
| "category_rank DocumentIntegrity = 3" | "category_rank IssuerTrust = 4" | "category_rank Validity = 5"
| "category_rank CategoryStatus = 6" | "category_rank HolderBinding = 7" | "category_rank TransactionBinding = 8"
| "category_rank ClaimConstraints = 9" | "category_rank Biometric = 10" | "category_rank CategoryPolicy = 11"

lemma category_rank_inj: "category_rank a = category_rank b \<Longrightarrow> a = b"
  by (cases a; cases b) simp_all

instantiation VerificationCheckCategory :: linorder
begin

definition less_eq_VerificationCheckCategory :: "VerificationCheckCategory \<Rightarrow> VerificationCheckCategory \<Rightarrow> bool" where
  "less_eq_VerificationCheckCategory a b \<longleftrightarrow> category_rank a \<le> category_rank b"

definition less_VerificationCheckCategory :: "VerificationCheckCategory \<Rightarrow> VerificationCheckCategory \<Rightarrow> bool" where
  "less_VerificationCheckCategory a b \<longleftrightarrow> category_rank a < category_rank b"

instance
  by standard (auto simp: less_eq_VerificationCheckCategory_def less_VerificationCheckCategory_def dest: category_rank_inj)

end

definition categories :: "VerificationCheckCategory list" where
  "categories = [Structure, CredentialProof, PresentationProof, DocumentIntegrity, IssuerTrust, Validity, CategoryStatus,
     HolderBinding, TransactionBinding, ClaimConstraints, Biometric, CategoryPolicy]"

subsection \<open>The reducer\<close>

definition u32_succ :: "nat \<Rightarrow> nat option" where
  "u32_succ n = (if n < 4294967295 then Some (n + 1) else None)"

primrec check_evidence :: "ustr \<Rightarrow> ustr set \<Rightarrow> ustr list \<Rightarrow> (unit, VerificationReductionError) result" where
  "check_evidence cid seen [] = Ok ()"
| "check_evidence cid seen (r # refs) =
     (if r \<in> seen then Err (DuplicateEvidenceReference cid r) else check_evidence cid (insert r seen) refs)"

definition no_counts :: CategoryCounts where
  "no_counts = \<lparr>required_n = 0, passed_n = 0, failed_n = 0, unresolved_n = 0\<rparr>"

definition count_outcome :: "VerificationCheckResult \<Rightarrow> CategoryCounts \<Rightarrow> (CategoryCounts, VerificationReductionError) result" where
  "count_outcome check counts =
     rbind (ok_or (u32_succ (required_n counts)) (CategoryCountOverflow (category check))) (\<lambda>n.
     let counts = counts\<lparr>required_n := n\<rparr> in
     (case outcome check of
        Passed \<Rightarrow> rbind (ok_or (u32_succ (passed_n counts)) (CategoryCountOverflow (category check))) (\<lambda>n. Ok (counts\<lparr>passed_n := n\<rparr>))
      | Failed \<Rightarrow> rbind (ok_or (u32_succ (failed_n counts)) (CategoryCountOverflow (category check))) (\<lambda>n. Ok (counts\<lparr>failed_n := n\<rparr>))
      | _ \<Rightarrow> rbind (ok_or (u32_succ (unresolved_n counts)) (CategoryCountOverflow (category check))) (\<lambda>n. Ok (counts\<lparr>unresolved_n := n\<rparr>))))"

primrec reduce_loop ::
    "VerificationCheckResult list \<Rightarrow> ustr set \<Rightarrow> (VerificationCheckCategory \<rightharpoonup> CategoryCounts) \<Rightarrow> nat
       \<Rightarrow> ((VerificationCheckCategory \<rightharpoonup> CategoryCounts) \<times> nat, VerificationReductionError) result" where
  "reduce_loop [] check_ids category_counts required_count = Ok (category_counts, required_count)"
| "reduce_loop (check # checks) check_ids category_counts required_count =
     rbind (ensure (check_id check \<notin> check_ids) (DuplicateCheckId (check_id check))) (\<lambda>_.
     rbind (ensure (\<not> (requires_evidence (outcome check) \<and> evidence_refs check = []))
              (MissingEvidence (check_id check) (outcome check))) (\<lambda>_.
     rbind (check_evidence (check_id check) {} (evidence_refs check)) (\<lambda>_.
     let counts = (case category_counts (category check) of None \<Rightarrow> no_counts | Some c \<Rightarrow> c) in
     rbind (if required check
            then rbind (ok_or (u32_succ required_count) (CategoryCountOverflow (category check))) (\<lambda>n.
                 rbind (count_outcome check counts) (\<lambda>counts. Ok (counts, n)))
            else Ok (counts, required_count)) (\<lambda>(counts, n).
     reduce_loop checks (insert (check_id check) check_ids) (category_counts(category check \<mapsto> counts)) n))))"

definition summarize :: "VerificationCheckCategory \<Rightarrow> CategoryCounts \<Rightarrow> VerificationCategorySummary" where
  "summarize c counts = \<lparr>summary_category = c,
     summary_outcome = (if required_n counts = 0 then CategoryNotApplicable
       else if failed_n counts > 0 then CategoryFailed
       else if unresolved_n counts > 0 then CategoryIndeterminate else CategoryPassed),
     required_check_count = required_n counts, passed_required_count = passed_n counts,
     failed_required_count = failed_n counts, unresolved_required_count = unresolved_n counts\<rparr>"

definition decide_checks ::
    "VerificationProcessingStatus \<Rightarrow> VerificationCheckResult list \<Rightarrow> VerificationDecision \<times> VerificationDecisionCode" where
  "decide_checks status checks =
     (if status \<noteq> Completed then (Indeterminate, ProcessingNotCompleted)
      else if list_ex (\<lambda>c. required c \<and> outcome c = Failed) checks then (Fail, RequiredCheckFailed)
      else if list_ex (\<lambda>c. required c \<and> is_unresolved (outcome c)) checks then (Indeterminate, RequiredCheckUnresolved)
      else (Pass, AllRequiredChecksPassed))"

definition reduce_required_checks ::
    "VerificationProcessingStatus \<Rightarrow> VerificationCheckResult list \<Rightarrow> (ReducedVerificationDecision, VerificationReductionError) result" where
  "reduce_required_checks status checks =
     rbind (reduce_loop checks {} Map.empty 0) (\<lambda>(category_counts, required_count).
     rbind (ensure (required_count \<noteq> 0) MissingRequiredCheck) (\<lambda>_.
     let summaries = concat (map (\<lambda>c. case category_counts c of None \<Rightarrow> [] | Some counts \<Rightarrow> [summarize c counts]) categories);
         (d, dc) = decide_checks status checks in
     Ok \<lparr>processing_status = status, decision = d, decision_code = dc, valid = (d = Pass), category_summaries = summaries\<rparr>))"

subsection \<open>Results\<close>

definition MAX_VERIFICATION_COMPONENTS :: nat where "MAX_VERIFICATION_COMPONENTS = 32"
definition MAX_VERIFICATION_CHECKS :: nat where "MAX_VERIFICATION_CHECKS = 1024"
definition MAX_CHECK_EVIDENCE_REFS :: nat where "MAX_CHECK_EVIDENCE_REFS = 16"
definition VERIFICATION_DECISION_SCHEMA_VERSION :: ustr where "VERIFICATION_DECISION_SCHEMA_VERSION = lit ''1.0.0''"
definition REQUIRED_CHECK_REDUCER_ID :: ustr where "REQUIRED_CHECK_REDUCER_ID = lit ''mip.required-check-reducer''"
definition REQUIRED_CHECK_REDUCER_VERSION :: ustr where "REQUIRED_CHECK_REDUCER_VERSION = lit ''1.0.0''"

datatype VerificationContextMode = Online | Offline

record VerificationDecisionContext =
  mode :: VerificationContextMode
  verifier_id :: ustr
  organization_id :: "ustr option"
  transaction_id :: "ustr option"
  audience :: "ustr option"
  offline_profile_id :: "ustr option"

record VerificationProfileReference =
  profile_id :: ustr
  profile_version :: ustr
  content_digest :: ustr

record VerificationComponentVersion =
  component_id :: ustr
  component_version :: ustr
  artifact_digest :: ustr
  adapter_id :: "ustr option"
  adapter_version :: "ustr option"

record VerificationDecisionResultInput =
  verification_id :: ustr
  dr_context :: VerificationDecisionContext
  input_status :: VerificationProcessingStatus
  evaluated_at :: ustr
  input_digest :: ustr
  evidence_digest :: ustr
  policy :: VerificationProfileReference
  trust_profile :: VerificationProfileReference
  components :: "VerificationComponentVersion list"
  checks :: "VerificationCheckResult list"

record VerificationReducerReference =
  reducer_id :: ustr
  reducer_version :: ustr

record VerificationDecisionResult =
  schema_version :: ustr
  result_verification_id :: ustr
  result_context :: VerificationDecisionContext
  result_processing_status :: VerificationProcessingStatus
  result_decision :: VerificationDecision
  result_decision_code :: VerificationDecisionCode
  result_valid :: bool
  result_evaluated_at :: ustr
  result_input_digest :: ustr
  result_evidence_digest :: ustr
  result_policy :: VerificationProfileReference
  result_trust_profile :: VerificationProfileReference
  reducer :: VerificationReducerReference
  result_components :: "VerificationComponentVersion list"
  result_checks :: "VerificationCheckResult list"
  result_category_summaries :: "VerificationCategorySummary list"

datatype VerificationDecisionResultError = InvalidField ustr ustr | InvalidContextShape VerificationContextMode | InvalidComponentCount
  | TooManyChecks | DuplicateComponentId ustr | IncompleteAdapterReference ustr | UndeclaredCheckComponent ustr ustr
  | Reduction VerificationReductionError

text \<open>
  RFC 3339 parsing, the key date-times are compared by, the text of a date-time in UTC, its year in
  UTC (which only hypotheses mention), and UUIDs.
\<close>

record 'd result_env =
  parse_rfc3339 :: "ustr \<Rightarrow> 'd option"
  instant :: "'d \<Rightarrow> int"
  to_rfc3339_utc :: "'d \<Rightarrow> ustr"
  utc_year :: "'d \<Rightarrow> int"
  uuid_parse :: "ustr \<Rightarrow> bytes option"
  uuid_text :: "bytes \<Rightarrow> ustr"

type_synonym 'a checked = "('a, VerificationDecisionResultError) result"

definition validate_ascii_pattern :: "ustr \<Rightarrow> ustr \<Rightarrow> nat \<Rightarrow> nat \<Rightarrow> (nat \<Rightarrow> nat \<Rightarrow> bool) \<Rightarrow> unit checked" where
  "validate_ascii_pattern field v lo hi allowed =
     ensure (\<not> (str_len v < lo \<or> str_len v > hi \<or> \<not> is_ascii v
               \<or> \<not> list_all (\<lambda>(i, b). allowed i (unat b)) (enumerate 0 (as_bytes v))))
       (InvalidField field (lit ''does not match the canonical identifier pattern''))"

definition validate_scoped_id :: "ustr \<Rightarrow> ustr \<Rightarrow> nat \<Rightarrow> unit checked" where
  "validate_scoped_id field v hi =
     validate_ascii_pattern field v 1 hi (\<lambda>i b. is_ascii_alphanumeric b \<or> (i > 0 \<and> b \<in> {46, 95, 58, 47, 45}))"

definition validate_lower_id :: "ustr \<Rightarrow> ustr \<Rightarrow> nat \<Rightarrow> unit checked" where
  "validate_lower_id field v hi =
     validate_ascii_pattern field v 1 hi (\<lambda>i b. if i = 0 then is_ascii_lowercase b
       else is_ascii_lowercase b \<or> is_ascii_digit b \<or> b \<in> {46, 95, 45})"

definition validate_version :: "ustr \<Rightarrow> ustr \<Rightarrow> unit checked" where
  "validate_version field v =
     validate_ascii_pattern field v 1 64 (\<lambda>i b. is_ascii_alphanumeric b \<or> (i > 0 \<and> b \<in> {46, 95, 43, 45}))"

definition validate_code :: "ustr \<Rightarrow> ustr \<Rightarrow> unit checked" where
  "validate_code field v =
     validate_ascii_pattern field v 3 96 (\<lambda>i b. if i = 0 then is_ascii_uppercase b
       else is_ascii_uppercase b \<or> is_ascii_digit b \<or> b = 95)"

definition segment_bad :: "ustr \<Rightarrow> (bool, VerificationDecisionResultError) result" where
  "segment_bad segment =
     (if segment = [] then Ok True
      else rbind (index_at (as_bytes segment) 0) (\<lambda>b.
        Ok (\<not> is_ascii_lowercase (unat b)
          \<or> \<not> list_all (\<lambda>b. is_ascii_lowercase (unat b) \<or> is_ascii_digit (unat b) \<or> unat b = 95) (as_bytes segment))))"

primrec any_bad :: "ustr list \<Rightarrow> (bool, VerificationDecisionResultError) result" where
  "any_bad [] = Ok False"
| "any_bad (s # ss) = rbind (segment_bad s) (\<lambda>b. if b then Ok True else any_bad ss)"

definition validate_check_id :: "ustr \<Rightarrow> ustr \<Rightarrow> unit checked" where
  "validate_check_id field v =
     (let bad = InvalidField field (lit ''must be a bounded dotted lowercase identifier'') in
      rbind (ensure (\<not> (str_len v < 3 \<or> str_len v > 128 \<or> \<not> is_ascii v)) bad) (\<lambda>_.
      let segments = str_split (lit ''.'') v in
      if length segments < 2 then Err bad
      else rbind (any_bad segments) (\<lambda>b. ensure (\<not> b) bad)))"

definition validate_evidence_ref :: "'d result_env \<Rightarrow> ustr \<Rightarrow> ustr \<Rightarrow> unit checked" where
  "validate_evidence_ref env field v =
     (let bad = InvalidField field (lit ''must be an opaque canonical Marty evidence UUID URN'') in
      rbind (ok_or (strip_prefix (lit ''urn:marty:evidence:'') v) bad) (\<lambda>tail.
      rbind (ensure (str_len tail = 36) bad) (\<lambda>_.
      rbind (ok_or (uuid_parse env tail) bad) (\<lambda>uuid.
      if uuid_text env uuid \<noteq> tail then Err bad
      else rbind (index_at (as_bytes tail) 14) (\<lambda>v.
           if \<not> (49 \<le> unat v \<and> unat v \<le> 56) then Err bad
           else rbind (index_at (as_bytes tail) 19) (\<lambda>w. ensure (unat w \<in> {56, 57, 97, 98}) bad))))))"

definition validate_digest :: "ustr \<Rightarrow> ustr \<Rightarrow> unit checked" where
  "validate_digest field v =
     (let bad = InvalidField field (lit ''must be a lowercase SHA-256 digest'') in
      rbind (ok_or (strip_prefix (lit ''sha256:'') v) bad) (\<lambda>hex.
      ensure (\<not> (str_len hex \<noteq> 64
                 \<or> \<not> list_all (\<lambda>b. is_ascii_digit (unat b) \<or> (97 \<le> unat b \<and> unat b \<le> 102)) (as_bytes hex))) bad))"

definition validate_datetime :: "'d result_env \<Rightarrow> ustr \<Rightarrow> ustr \<Rightarrow> 'd checked" where
  "validate_datetime env field v = ok_or (parse_rfc3339 env v) (InvalidField field (lit ''must be an RFC 3339 date-time''))"

definition canonical_datetime :: "'d result_env \<Rightarrow> 'd \<Rightarrow> ustr" where
  "canonical_datetime env d = to_rfc3339_utc env d"

definition validate_bounded_text :: "ustr \<Rightarrow> ustr \<Rightarrow> nat \<Rightarrow> nat \<Rightarrow> unit checked" where
  "validate_bounded_text field v lo hi =
     ensure (\<not> (length v < lo \<or> length v > hi)) (InvalidField field (lit ''text length is outside protocol bounds''))"

definition validate_context :: "'d result_env \<Rightarrow> VerificationDecisionContext \<Rightarrow> unit checked" where
  "validate_context env c =
     rbind (validate_scoped_id (lit ''context.verifier_id'') (verifier_id c) 128) (\<lambda>_.
     case (mode c, organization_id c, transaction_id c, audience c, offline_profile_id c) of
       (Online, Some org, Some tx, Some aud, None) \<Rightarrow>
         (let bad = InvalidField (lit ''context.organization_id'') (lit ''must be a canonical UUID'') in
          rbind (ok_or (uuid_parse env org) bad) (\<lambda>parsed.
          rbind (ensure (uuid_text env parsed = org) bad) (\<lambda>_.
          rbind (validate_scoped_id (lit ''context.transaction_id'') tx 128) (\<lambda>_.
          validate_bounded_text (lit ''context.audience'') aud 1 255))))
     | (Offline, None, None, None, Some off) \<Rightarrow> validate_scoped_id (lit ''context.offline_profile_id'') off 128
     | _ \<Rightarrow> Err (InvalidContextShape (mode c)))"

definition validate_profile :: "ustr \<Rightarrow> VerificationProfileReference \<Rightarrow> unit checked" where
  "validate_profile field p =
     rbind (validate_scoped_id (field @ lit ''.id'') (profile_id p) 128) (\<lambda>_.
     rbind (validate_version (field @ lit ''.version'') (profile_version p)) (\<lambda>_.
     validate_digest (field @ lit ''.content_digest'') (content_digest p)))"

definition indexed :: "string \<Rightarrow> nat \<Rightarrow> ustr" where
  "indexed name i = lit name @ lit ''['' @ dec_text i @ lit '']''"

definition validate_component :: "nat \<Rightarrow> VerificationComponentVersion \<Rightarrow> unit checked" where
  "validate_component i c =
     (let prefix = indexed ''components'' i in
      rbind (validate_lower_id (prefix @ lit ''.component_id'') (component_id c) 64) (\<lambda>_.
      rbind (validate_version (prefix @ lit ''.version'') (component_version c)) (\<lambda>_.
      rbind (validate_digest (prefix @ lit ''.artifact_digest'') (artifact_digest c)) (\<lambda>_.
      case (adapter_id c, adapter_version c) of
        (Some a, Some v) \<Rightarrow>
          rbind (validate_lower_id (prefix @ lit ''.adapter_id'') a 64) (\<lambda>_. validate_version (prefix @ lit ''.adapter_version'') v)
      | (None, None) \<Rightarrow> Ok ()
      | _ \<Rightarrow> Err (IncompleteAdapterReference (component_id c))))))"

primrec validate_refs :: "'d result_env \<Rightarrow> ustr \<Rightarrow> nat \<Rightarrow> ustr list \<Rightarrow> unit checked" where
  "validate_refs env prefix i [] = Ok ()"
| "validate_refs env prefix i (r # rs) =
     rbind (validate_evidence_ref env (prefix @ lit ''.evidence_refs['' @ dec_text i @ lit '']'') r) (\<lambda>_. validate_refs env prefix (Suc i) rs)"

definition validate_check :: "'d result_env \<Rightarrow> nat \<Rightarrow> VerificationCheckResult \<Rightarrow> 'd checked" where
  "validate_check env i c =
     (let prefix = indexed ''checks'' i in
      rbind (validate_check_id (prefix @ lit ''.check_id'') (check_id c)) (\<lambda>_.
      rbind (validate_code (prefix @ lit ''.code'') (code c)) (\<lambda>_.
      rbind (validate_lower_id (prefix @ lit ''.component_id'') (check_component_id c) 64) (\<lambda>_.
      rbind (validate_datetime env (prefix @ lit ''.evaluated_at'') (check_evaluated_at c)) (\<lambda>t.
      rbind (ensure (\<not> length (evidence_refs c) > MAX_CHECK_EVIDENCE_REFS)
               (InvalidField (prefix @ lit ''.evidence_refs'') (lit ''contains more than 16 references''))) (\<lambda>_.
      rbind (validate_refs env prefix 0 (evidence_refs c)) (\<lambda>_. Ok t)))))))"

primrec validate_components :: "nat \<Rightarrow> ustr set \<Rightarrow> VerificationComponentVersion list \<Rightarrow> ustr set checked" where
  "validate_components i ids [] = Ok ids"
| "validate_components i ids (c # cs) =
     rbind (validate_component i c) (\<lambda>_.
     rbind (ensure (component_id c \<notin> ids) (DuplicateComponentId (component_id c))) (\<lambda>_.
     validate_components (Suc i) (insert (component_id c) ids) cs))"

primrec validate_checks ::
    "'d result_env \<Rightarrow> 'd \<Rightarrow> ustr set \<Rightarrow> nat \<Rightarrow> VerificationCheckResult list \<Rightarrow> VerificationCheckResult list checked" where
  "validate_checks env now ids i [] = Ok []"
| "validate_checks env now ids i (c # cs) =
     rbind (validate_check env i c) (\<lambda>t.
     rbind (ensure (\<not> instant env t > instant env now)
              (InvalidField (indexed ''checks'' i @ lit ''.evaluated_at'') (lit ''must not be later than the enclosing result''))) (\<lambda>_.
     let c = c\<lparr>check_evaluated_at := canonical_datetime env t\<rparr> in
     rbind (ensure (check_component_id c \<in> ids) (UndeclaredCheckComponent (check_id c) (check_component_id c))) (\<lambda>_.
     rbind (validate_checks env now ids (Suc i) cs) (\<lambda>cs. Ok (c # cs)))))"

definition build_verification_decision_result ::
    "'d result_env \<Rightarrow> VerificationDecisionResultInput \<Rightarrow> VerificationDecisionResult checked" where
  "build_verification_decision_result env input =
     rbind (validate_scoped_id (lit ''verification_id'') (verification_id input) 128) (\<lambda>_.
     rbind (validate_datetime env (lit ''evaluated_at'') (evaluated_at input)) (\<lambda>now.
     rbind (validate_digest (lit ''input_digest'') (input_digest input)) (\<lambda>_.
     rbind (validate_digest (lit ''evidence_digest'') (evidence_digest input)) (\<lambda>_.
     rbind (validate_context env (dr_context input)) (\<lambda>_.
     rbind (validate_profile (lit ''policy'') (policy input)) (\<lambda>_.
     rbind (validate_profile (lit ''trust_profile'') (trust_profile input)) (\<lambda>_.
     rbind (ensure (\<not> (components input = [] \<or> length (components input) > MAX_VERIFICATION_COMPONENTS)) InvalidComponentCount) (\<lambda>_.
     rbind (ensure (\<not> length (checks input) > MAX_VERIFICATION_CHECKS) TooManyChecks) (\<lambda>_.
     rbind (validate_components 0 {} (components input)) (\<lambda>ids.
     rbind (validate_checks env now ids 0 (checks input)) (\<lambda>checks'.
     rbind (map_err Reduction (reduce_required_checks (input_status input) checks')) (\<lambda>red.
     Ok \<lparr>schema_version = VERIFICATION_DECISION_SCHEMA_VERSION, result_verification_id = verification_id input,
         result_context = dr_context input, result_processing_status = processing_status red,
         result_decision = decision red, result_decision_code = decision_code red, result_valid = valid red,
         result_evaluated_at = canonical_datetime env now, result_input_digest = input_digest input,
         result_evidence_digest = evidence_digest input, result_policy = policy input,
         result_trust_profile = trust_profile input,
         reducer = \<lparr>reducer_id = REQUIRED_CHECK_REDUCER_ID, reducer_version = REQUIRED_CHECK_REDUCER_VERSION\<rparr>,
         result_components = components input, result_checks = checks',
         result_category_summaries = category_summaries red\<rparr>))))))))))))"

subsection \<open>What the reducer promises\<close>

definition required_in :: "VerificationCheckResult list \<Rightarrow> VerificationCheckCategory \<Rightarrow> VerificationCheckResult list" where
  "required_in cs k = filter (\<lambda>c. category c = k \<and> required c) cs"

definition tally :: "VerificationCheckResult list \<Rightarrow> VerificationCheckCategory \<Rightarrow> CategoryCounts" where
  "tally cs k = \<lparr>required_n = length (required_in cs k),
     passed_n = length (filter (\<lambda>c. outcome c = Passed) (required_in cs k)),
     failed_n = length (filter (\<lambda>c. outcome c = Failed) (required_in cs k)),
     unresolved_n = length (filter (\<lambda>c. is_unresolved (outcome c)) (required_in cs k))\<rparr>"

definition tallies :: "VerificationCheckResult list \<Rightarrow> VerificationCheckCategory \<rightharpoonup> CategoryCounts" where
  "tallies cs = (\<lambda>k. if k \<in> category ` set cs then Some (tally cs k) else None)"

definition evidenced :: "VerificationCheckResult \<Rightarrow> bool" where
  "evidenced c \<longleftrightarrow> (requires_evidence (outcome c) \<longrightarrow> evidence_refs c \<noteq> []) \<and> distinct (evidence_refs c)"

definition canonical_checks :: "VerificationCheckResult list \<Rightarrow> bool" where
  "canonical_checks cs \<longleftrightarrow> distinct (map check_id cs) \<and> list_all evidenced cs"

definition category_verdict :: "VerificationCheckResult list \<Rightarrow> VerificationCheckCategory \<Rightarrow> VerificationCategoryOutcome" where
  "category_verdict cs k =
     (let outcomes = outcome ` set (required_in cs k) in
      if outcomes = {} then CategoryNotApplicable else if Failed \<in> outcomes then CategoryFailed
      else if outcomes = {Passed} then CategoryPassed else CategoryIndeterminate)"

definition final_verdict :: "VerificationProcessingStatus \<Rightarrow> VerificationCheckResult list \<Rightarrow> VerificationDecision \<times> VerificationDecisionCode" where
  "final_verdict s cs =
     (let outcomes = outcome ` set (filter required cs) in
      if s \<noteq> Completed then (Indeterminate, ProcessingNotCompleted)
      else if Failed \<in> outcomes then (Fail, RequiredCheckFailed)
      else if outcomes \<subseteq> {Passed} then (Pass, AllRequiredChecksPassed) else (Indeterminate, RequiredCheckUnresolved))"

definition verdict :: "VerificationProcessingStatus \<Rightarrow> VerificationCheckResult list \<Rightarrow> ReducedVerificationDecision" where
  "verdict s cs = \<lparr>processing_status = s, decision = fst (final_verdict s cs), decision_code = snd (final_verdict s cs),
     valid = (s = Completed \<and> (\<forall>c\<in>set cs. required c \<longrightarrow> outcome c = Passed)),
     category_summaries = map (\<lambda>k. \<lparr>summary_category = k, summary_outcome = category_verdict cs k,
         required_check_count = required_n (tally cs k), passed_required_count = passed_n (tally cs k),
         failed_required_count = failed_n (tally cs k), unresolved_required_count = unresolved_n (tally cs k)\<rparr>)
       (sorted_list_of_set (category ` set cs))\<rparr>"

fun reduction_fault :: "VerificationCheckResult list \<Rightarrow> VerificationReductionError \<Rightarrow> bool" where
  "reduction_fault cs MissingRequiredCheck \<longleftrightarrow> canonical_checks cs \<and> list_all (\<lambda>c. \<not> required c) cs"
| "reduction_fault cs (DuplicateCheckId i) \<longleftrightarrow> count_list (map check_id cs) i > 1"
| "reduction_fault cs (MissingEvidence i x) \<longleftrightarrow>
     list_ex (\<lambda>c. check_id c = i \<and> outcome c = x \<and> requires_evidence x \<and> evidence_refs c = []) cs"
| "reduction_fault cs (DuplicateEvidenceReference i r) \<longleftrightarrow>
     list_ex (\<lambda>c. check_id c = i \<and> count_list (evidence_refs c) r > 1) cs"
| "reduction_fault cs (CategoryCountOverflow k) \<longleftrightarrow> False"

subsection \<open>The reducer's loop\<close>

lemma check_evidence_Ok: "check_evidence i seen rs = Ok () \<longleftrightarrow> distinct rs \<and> set rs \<inter> seen = {}"
  by (induction rs arbitrary: seen) auto

lemma check_evidence_not_Panic [simp]: "check_evidence i seen rs \<noteq> Panic"
  by (induction rs arbitrary: seen) auto

lemma check_evidence_Err:
  "check_evidence i seen rs = Err e \<Longrightarrow> \<exists>r. e = DuplicateEvidenceReference i r \<and> r \<in> set rs \<and> (r \<in> seen \<or> count_list rs r > 1)"
proof (induction rs arbitrary: seen)
  case (Cons a rs)
  show ?case
  proof (cases "a \<in> seen")
    case False
    with Cons.prems have "check_evidence i (insert a seen) rs = Err e" by simp
    from Cons.IH [OF this] obtain r where r: "e = DuplicateEvidenceReference i r" "r \<in> set rs"
      "r = a \<or> r \<in> seen \<or> count_list rs r > 1" by auto
    moreover have "count_list rs r > 0" using r(2) by (metis count_list_0_iff gr0I)
    ultimately show ?thesis by auto
  qed (use Cons.prems in auto)
qed simp

lemma u32_succ_less [simp]: "n < 4294967295 \<Longrightarrow> u32_succ n = Some (Suc n)"
  by (simp add: u32_succ_def)

lemma is_unresolved_iff: "is_unresolved x \<longleftrightarrow> x \<noteq> Passed \<and> x \<noteq> Failed"
  by (cases x) (simp_all add: is_unresolved_def)

lemma unresolved_simps [simp]: "\<not> is_unresolved Passed" "\<not> is_unresolved Failed" "is_unresolved NotPerformed"
    "is_unresolved Unsupported" "is_unresolved OutcomeError" "is_unresolved NotApplicable"
  by (simp_all add: is_unresolved_def)

lemma required_in_snoc: "required_in (cs @ [c]) k = required_in cs k @ (if category c = k \<and> required c then [c] else [])"
  by (simp add: required_in_def)

lemma required_in_length: "length (required_in cs k) \<le> length (filter required cs)"
  unfolding required_in_def by (induction cs) auto

lemma filter_required_in_length: "length (filter P (required_in cs k)) \<le> length (filter required cs)"
  by (rule order_trans [OF length_filter_le required_in_length])

lemma count_outcome_tally:
  assumes "required c" "length (filter required cs) < 4294967295"
  shows "count_outcome c (tally cs (category c)) = Ok (tally (cs @ [c]) (category c))"
proof -
  have le: "length (required_in cs (category c)) < 4294967295"
      "length (filter P (required_in cs (category c))) < 4294967295" for P
    using assms(2) required_in_length [of cs "category c"] filter_required_in_length [of P cs "category c"] by linarith+
  show ?thesis
    by (cases "outcome c") (simp_all add: count_outcome_def tally_def required_in_snoc assms(1) le)
qed

lemma tally_optional: "\<not> required c \<Longrightarrow> tally (cs @ [c]) k = tally cs k"
  by (simp add: tally_def required_in_snoc)

lemma tally_other: "category c \<noteq> k \<Longrightarrow> tally (cs @ [c]) k = tally cs k"
  by (simp add: tally_def required_in_snoc)

lemma tally_absent: "k \<notin> category ` set cs \<Longrightarrow> tally cs k = no_counts"
  by (auto simp: tally_def no_counts_def required_in_def filter_empty_conv)

lemma tallies_current: "(case tallies cs k of None \<Rightarrow> no_counts | Some n \<Rightarrow> n) = tally cs k"
  by (simp add: tallies_def tally_absent)

lemma tallies_snoc: "(tallies cs)(category c \<mapsto> tally (cs @ [c]) (category c)) = tallies (cs @ [c])"
  by (rule ext) (auto simp: tallies_def tally_other)

lemma canonical_snoc:
  "canonical_checks (cs @ [c]) \<longleftrightarrow> canonical_checks cs \<and> check_id c \<notin> set (map check_id cs) \<and> evidenced c"
  by (auto simp: canonical_checks_def)

lemma canonical_append: "canonical_checks (cs @ ds) \<Longrightarrow> canonical_checks cs"
  by (simp add: canonical_checks_def)

lemma reduce_loop_step:
  assumes "check_id c \<notin> set (map check_id ds)" "evidenced c" "length ds < 4294967295"
  shows "reduce_loop (c # cs) (set (map check_id ds)) (tallies ds) (length (filter required ds)) =
    reduce_loop cs (set (map check_id (ds @ [c]))) (tallies (ds @ [c])) (length (filter required (ds @ [c])))"
proof -
  have n: "length (filter required ds) < 4294967295"
    using assms(3) length_filter_le [of required ds] by linarith
  have ev: "check_evidence (check_id c) {} (evidence_refs c) = Ok ()" and
      ne: "\<not> (requires_evidence (outcome c) \<and> evidence_refs c = [])"
    using assms(2) by (auto simp: check_evidence_Ok evidenced_def)
  show ?thesis
  proof (cases "required c")
    case True
    then show ?thesis
      using assms(1) ev ne n count_outcome_tally [OF True n] tallies_snoc [of ds c]
      by (simp add: tallies_current)
  next
    case False
    then show ?thesis
      using assms(1) ev ne tallies_snoc [of ds c] tally_optional [OF False, of ds "category c"]
      by (simp add: tallies_current)
  qed
qed

lemma reduce_loop_canonical:
  "canonical_checks (ds @ cs) \<Longrightarrow> length (ds @ cs) < 4294967296 \<Longrightarrow>
   reduce_loop cs (set (map check_id ds)) (tallies ds) (length (filter required ds)) =
     Ok (tallies (ds @ cs), length (filter required (ds @ cs)))"
proof (induction cs arbitrary: ds)
  case (Cons c cs)
  have "canonical_checks (ds @ [c])"
    using Cons.prems(1) canonical_append [of "ds @ [c]" cs] by simp
  then have c: "check_id c \<notin> set (map check_id ds)" "evidenced c" unfolding canonical_snoc by blast+
  have "length ds < 4294967295" using Cons.prems(2) by simp
  note step = reduce_loop_step [OF c this, of cs]
  show ?case using Cons.IH [of "ds @ [c]"] Cons.prems unfolding step by simp
qed simp

lemma reduce_loop_faulty:
  "canonical_checks ds \<Longrightarrow> \<not> canonical_checks (ds @ cs) \<Longrightarrow> length (ds @ cs) < 4294967296 \<Longrightarrow>
   \<exists>e. reduce_loop cs (set (map check_id ds)) (tallies ds) (length (filter required ds)) = Err e
     \<and> e \<noteq> MissingRequiredCheck \<and> reduction_fault (ds @ cs) e"
proof (induction cs arbitrary: ds)
  case (Cons c cs)
  show ?case
  proof (cases "check_id c \<in> set (map check_id ds)")
    case True
    then have "count_list (map check_id ds) (check_id c) > 0" by (metis count_list_0_iff gr0I)
    with True show ?thesis by auto
  next
    case new: False
    show ?thesis
    proof (cases "evidenced c")
      case True
      have "length ds < 4294967295" using Cons.prems(3) by simp
      note step = reduce_loop_step [OF new True this, of cs]
      have "canonical_checks (ds @ [c])" using Cons.prems(1) new True by (simp only: canonical_snoc simp_thms)
      then show ?thesis using Cons.IH [of "ds @ [c]"] Cons.prems unfolding step by simp
    next
      case False
      show ?thesis
      proof (cases "requires_evidence (outcome c) \<and> evidence_refs c = []")
        case True
        then show ?thesis using new by auto
      next
        case ev: False
        with False have "check_evidence (check_id c) {} (evidence_refs c) \<noteq> Ok ()"
          by (auto simp: evidenced_def check_evidence_Ok)
        then obtain e where e: "check_evidence (check_id c) {} (evidence_refs c) = Err e"
          by (cases "check_evidence (check_id c) {} (evidence_refs c)") auto
        from check_evidence_Err [OF e] show ?thesis using new ev e by auto
      qed
    qed
  qed
qed simp

subsection \<open>The reducer's verdict\<close>

lemma categories_all: "set categories = UNIV"
proof -
  have "k \<in> set categories" for k by (cases k) (simp_all add: categories_def)
  then show ?thesis by blast
qed

lemma categories_sorted: "sorted categories" "distinct categories"
  by (simp_all add: categories_def less_eq_VerificationCheckCategory_def)

lemma present_categories:
  assumes "\<And>k. f k = None \<longleftrightarrow> k \<notin> A"
  shows "concat (map (\<lambda>k. case f k of None \<Rightarrow> [] | Some n \<Rightarrow> [g k n]) categories) =
    map (\<lambda>k. g k (the (f k))) (sorted_list_of_set A)"
proof -
  have "concat (map (\<lambda>k. case f k of None \<Rightarrow> [] | Some n \<Rightarrow> [g k n]) ks) = map (\<lambda>k. g k (the (f k))) (filter (\<lambda>k. k \<in> A) ks)" for ks
  proof (induction ks)
    case (Cons k ks)
    then show ?case using assms [of k] by (cases "f k") auto
  qed simp
  moreover have "filter (\<lambda>k. k \<in> A) categories = sorted_list_of_set A"
  proof -
    have "set (filter (\<lambda>k. k \<in> A) categories) = A" by (simp add: categories_all)
    then show ?thesis
      using sorted_list_of_set.idem_if_sorted_distinct [of "filter (\<lambda>k. k \<in> A) categories"]
        sorted_wrt_filter [OF categories_sorted(1)] distinct_filter [OF categories_sorted(2)] by simp
  qed
  ultimately show ?thesis by simp
qed

lemma image_hit: "x \<in> f ` A \<longleftrightarrow> (\<exists>a\<in>A. f a = x)"
  by auto

lemma summarize_tally:
  "summarize k (tally cs k) = \<lparr>summary_category = k, summary_outcome = category_verdict cs k,
     required_check_count = required_n (tally cs k), passed_required_count = passed_n (tally cs k),
     failed_required_count = failed_n (tally cs k), unresolved_required_count = unresolved_n (tally cs k)\<rparr>"
proof -
  have "(if required_n (tally cs k) = 0 then CategoryNotApplicable else if failed_n (tally cs k) > 0 then CategoryFailed
      else if unresolved_n (tally cs k) > 0 then CategoryIndeterminate else CategoryPassed) = category_verdict cs k"
  proof -
    define X where "X = outcome ` set (required_in cs k)"
    have "failed_n (tally cs k) > 0 \<longleftrightarrow> Failed \<in> X"
      unfolding X_def image_hit by (auto simp: tally_def filter_empty_conv)
    moreover have "unresolved_n (tally cs k) > 0 \<longleftrightarrow> \<not> X \<subseteq> {Passed, Failed}"
      by (auto simp: X_def tally_def filter_empty_conv is_unresolved_iff)
    moreover have "required_n (tally cs k) = 0 \<longleftrightarrow> X = {}"
      by (simp add: X_def tally_def)
    ultimately show ?thesis unfolding category_verdict_def Let_def X_def [symmetric] by auto
  qed
  then show ?thesis by (simp add: summarize_def)
qed

lemma decide_checks_final: "decide_checks s cs = final_verdict s cs"
proof -
  define X where "X = outcome ` set (filter required cs)"
  have "list_ex (\<lambda>c. required c \<and> outcome c = Failed) cs \<longleftrightarrow> Failed \<in> X"
    unfolding X_def image_hit by (auto simp: list_ex_iff)
  moreover have "list_ex (\<lambda>c. required c \<and> is_unresolved (outcome c)) cs \<longleftrightarrow> \<not> X \<subseteq> {Passed, Failed}"
    by (auto simp: X_def list_ex_iff is_unresolved_iff)
  ultimately show ?thesis unfolding decide_checks_def final_verdict_def Let_def X_def [symmetric] by auto
qed

lemma final_verdict_pass:
  "fst (final_verdict s cs) = Pass \<longleftrightarrow> s = Completed \<and> (\<forall>c\<in>set cs. required c \<longrightarrow> outcome c = Passed)"
  by (auto simp: final_verdict_def Let_def)

lemma reduce_canonical:
  assumes "canonical_checks cs" "length cs < 4294967296"
  shows "reduce_required_checks s cs = (if \<exists>c\<in>set cs. required c then Ok (verdict s cs) else Err MissingRequiredCheck)"
proof -
  have loop: "reduce_loop cs {} Map.empty 0 = Ok (tallies cs, length (filter required cs))"
    using reduce_loop_canonical [of "[]" cs] assms by (simp add: tallies_def)
  have "concat (map (\<lambda>k. case tallies cs k of None \<Rightarrow> [] | Some n \<Rightarrow> [summarize k n]) categories) =
      map (\<lambda>k. summarize k (the (tallies cs k))) (sorted_list_of_set (category ` set cs))"
    by (rule present_categories) (simp add: tallies_def)
  also have "\<dots> = category_summaries (verdict s cs)"
    by (simp add: verdict_def tallies_def summarize_tally)
  finally show ?thesis
    by (auto simp: reduce_required_checks_def loop decide_checks_final final_verdict_pass verdict_def split_beta filter_empty_conv)
qed

lemma reduce_faulty:
  assumes "\<not> canonical_checks cs" "length cs < 4294967296"
  shows "\<exists>e. reduce_required_checks s cs = Err e \<and> e \<noteq> MissingRequiredCheck \<and> reduction_fault cs e"
proof -
  have "canonical_checks []" by (simp add: canonical_checks_def)
  from reduce_loop_faulty [OF this, of cs] assms obtain e where
    "reduce_loop cs {} Map.empty 0 = Err e" "e \<noteq> MissingRequiredCheck" "reduction_fault cs e"
    by (auto simp: tallies_def)
  then show ?thesis by (auto simp: reduce_required_checks_def)
qed

lemma reduce_Ok_iff:
  assumes "length cs < 4294967296"
  shows "reduce_required_checks s cs = Ok d \<longleftrightarrow> canonical_checks cs \<and> (\<exists>c\<in>set cs. required c) \<and> d = verdict s cs"
  using reduce_canonical [OF _ assms, of s] reduce_faulty [OF _ assms, of s] by (cases "canonical_checks cs") auto

lemma required_in_mset: "mset cs = mset cs' \<Longrightarrow> mset (required_in cs k) = mset (required_in cs' k)"
  by (simp add: required_in_def)

lemma tally_mset:
  assumes "mset cs = mset cs'"
  shows "tally cs k = tally cs' k"
proof -
  note m = required_in_mset [OF assms, of k]
  have "length (filter P (required_in cs k)) = length (filter P (required_in cs' k))" for P
    using m by (metis mset_filter size_mset)
  moreover have "length (required_in cs k) = length (required_in cs' k)" using m by (metis size_mset)
  ultimately show ?thesis by (simp add: tally_def)
qed

lemma verdict_mset:
  assumes "mset cs = mset cs'"
  shows "verdict s cs = verdict s cs'"
proof -
  have "set cs = set cs'" using assms by (metis set_mset_mset)
  moreover have "set (required_in cs k) = set (required_in cs' k)" for k
    using required_in_mset [OF assms] by (metis set_mset_mset)
  ultimately show ?thesis
    by (simp add: verdict_def final_verdict_def category_verdict_def tally_mset [OF assms])
qed

lemma canonical_mset: "mset cs = mset cs' \<Longrightarrow> canonical_checks cs = canonical_checks cs'"
  unfolding canonical_checks_def list_all_iff
  by (metis mset_eq_imp_distinct_iff mset_map set_mset_mset)

lemma canonical_filter: "canonical_checks cs \<Longrightarrow> canonical_checks (filter P cs)"
  by (auto simp: canonical_checks_def list_all_iff distinct_map_filter)

text \<open>
  C9: The reducer is exact on every check set a \<open>u32\<close> can count. It answers precisely when the check
  ids are pairwise different, every passed or failed check cites evidence, no check cites a reference
  twice, and some check is required. Its answer is then the verdict of the specification: PASS (and
  valid) exactly when processing completed and every required check passed, FAIL exactly when it
  completed and a required check failed, and one summary per occurring category, in category order,
  whose counts are those of the checks. It never panics, and an error names a real fault of the input.
\<close>
theorem reducer_exact:
  assumes "length cs < 2 ^ 32"
  shows "(reduce_required_checks s cs = Ok d \<longleftrightarrow> canonical_checks cs \<and> (\<exists>c\<in>set cs. required c) \<and> d = verdict s cs)
    \<and> reduce_required_checks s cs \<noteq> Panic
    \<and> (\<forall>e. reduce_required_checks s cs = Err e \<longrightarrow> reduction_fault cs e)"
proof -
  have n: "length cs < 4294967296" using assms by simp
  show ?thesis
    using reduce_Ok_iff [OF n, of s d] reduce_canonical [OF _ n, of s] reduce_faulty [OF _ n, of s]
    by (cases "canonical_checks cs") (auto simp: list_all_iff split: if_splits)
qed

definition sample_check :: "string \<Rightarrow> VerificationCheckCategory \<Rightarrow> bool \<Rightarrow> VerificationCheckOutcome \<Rightarrow> VerificationCheckResult" where
  "sample_check i k r x = \<lparr>check_id = lit i, category = k, required = r, outcome = x, code = lit ''CHECK_EVALUATED'',
     check_component_id = lit ''test-adapter'', check_evaluated_at = lit ''2026-08-08T00:00:00Z'',
     evidence_refs = (if requires_evidence x then [lit ''urn:marty:evidence:123e4567-e89b-42d3-a456-426614174000''] else [])\<rparr>"

definition sample_checks :: "VerificationCheckResult list" where
  "sample_checks = [sample_check ''credential.status.revocation'' CategoryStatus True Passed,
     sample_check ''credential.status.suspension'' CategoryStatus True OutcomeError,
     sample_check ''credential.biometric'' Biometric False Failed]"

lemma sample_checks_required: "\<exists>c\<in>set sample_checks. required c"
  by (simp add: sample_checks_def sample_check_def)

lemma sample_checks_canonical: "canonical_checks sample_checks"
  by (simp add: canonical_checks_def sample_checks_def sample_check_def evidenced_def requires_evidence_def lit_def)

theorem reducer_exact_witness:
  "reduce_required_checks Completed sample_checks = Ok (verdict Completed sample_checks)
   \<and> decision (verdict Completed sample_checks) = Indeterminate
   \<and> reduction_fault (sample_checks @ sample_checks) (DuplicateCheckId (lit ''credential.status.revocation''))"
proof (intro conjI)
  have l: "length sample_checks < 2 ^ 32" "length (sample_checks @ sample_checks) < 2 ^ 32"
    by (simp_all add: sample_checks_def)
  show "reduce_required_checks Completed sample_checks = Ok (verdict Completed sample_checks)"
    using reducer_exact [OF l(1), of Completed] sample_checks_canonical sample_checks_required by blast
  show "decision (verdict Completed sample_checks) = Indeterminate"
    by (simp add: verdict_def final_verdict_def sample_checks_def sample_check_def)
  have "reduce_required_checks Completed (sample_checks @ sample_checks) = Err (DuplicateCheckId (lit ''credential.status.revocation''))"
    by code_simp
  then show "reduction_fault (sample_checks @ sample_checks) (DuplicateCheckId (lit ''credential.status.revocation''))"
    using reducer_exact [OF l(2), of Completed] by blast
qed

text \<open>
  The decision does not depend on the order in which adapters report, nor on optional checks: two
  check sets with the same checks, in any order, give the same answer, and two accepted sets that
  agree on the required checks alone give the same decision, decision code and validity.
\<close>
theorem reducer_order_irrelevant:
  assumes "length cs < 2 ^ 32" "length cs' < 2 ^ 32"
  shows "(mset cs = mset cs' \<longrightarrow> reduce_required_checks s cs = Ok d \<longleftrightarrow> reduce_required_checks s cs' = Ok d)
    \<and> (mset (filter required cs) = mset (filter required cs') \<and> reduce_required_checks s cs = Ok d
        \<and> reduce_required_checks s cs' = Ok d'
       \<longrightarrow> decision d' = decision d \<and> decision_code d' = decision_code d \<and> valid d' = valid d)"
proof (intro conjI impI)
  have n: "length cs < 4294967296" "length cs' < 4294967296" using assms by simp_all
  note iff = reduce_Ok_iff [OF n(1)] reduce_Ok_iff [OF n(2)]
  show "reduce_required_checks s cs = Ok d \<longleftrightarrow> reduce_required_checks s cs' = Ok d" if m: "mset cs = mset cs'"
    using canonical_mset [OF m] verdict_mset [OF m] mset_eq_setD [OF m] by (simp add: iff)
  assume a: "mset (filter required cs) = mset (filter required cs') \<and> reduce_required_checks s cs = Ok d
      \<and> reduce_required_checks s cs' = Ok d'"
  then have "set (filter required cs) = set (filter required cs')" using mset_eq_setD by blast
  then have f: "final_verdict s cs = final_verdict s cs'" by (simp add: final_verdict_def)
  have v: "d = verdict s cs" "d' = verdict s cs'" using a by (simp_all add: iff)
  show "decision d' = decision d" "decision_code d' = decision_code d" "valid d' = valid d"
    unfolding v using f final_verdict_pass [of s cs] final_verdict_pass [of s cs'] by (simp_all add: verdict_def)
qed

theorem reducer_order_irrelevant_witness:
  "decision (verdict Completed (take 2 sample_checks)) = decision (verdict Completed sample_checks)
   \<and> reduce_required_checks Completed (rev sample_checks) = Ok (verdict Completed sample_checks)"
proof -
  have s: "reduce_required_checks Completed sample_checks = Ok (verdict Completed sample_checks)"
    using sample_checks_canonical sample_checks_required by (simp add: reduce_Ok_iff sample_checks_def)
  have t: "reduce_required_checks Completed (take 2 sample_checks) = Ok (verdict Completed (take 2 sample_checks))"
    using sample_checks_canonical by (simp add: reduce_Ok_iff sample_checks_def canonical_checks_def sample_check_def)
  have l: "length sample_checks < 2 ^ 32" "length (take 2 sample_checks) < 2 ^ 32" "length (rev sample_checks) < 2 ^ 32"
    by (simp_all add: sample_checks_def)
  have f: "filter required sample_checks = filter required (take 2 sample_checks)"
    by (simp add: sample_checks_def sample_check_def)
  show ?thesis
    using reducer_order_irrelevant [OF l(1,2), of Completed "verdict Completed sample_checks" "verdict Completed (take 2 sample_checks)"]
      reducer_order_irrelevant [OF l(3,1), of Completed "verdict Completed sample_checks" undefined] s t f
    by simp
qed

subsection \<open>Validation never panics\<close>

named_theorems result_total \<open>validators that never panic\<close>

lemma ascii_pattern_total [result_total]: "validate_ascii_pattern f v lo hi p \<noteq> Panic"
  by (simp add: validate_ascii_pattern_def)

lemma identifiers_total [result_total]:
  "validate_scoped_id f v n \<noteq> Panic" "validate_lower_id f v n \<noteq> Panic" "validate_version f v \<noteq> Panic" "validate_code f v \<noteq> Panic"
  by (simp_all add: validate_scoped_id_def validate_lower_id_def validate_version_def validate_code_def result_total)

lemma segment_bad_total: "segment_bad s \<noteq> Panic"
proof (cases s)
  case (Cons c cs)
  then have "0 < length (as_bytes s)" by (simp add: as_bytes_length str_len_def)
  then show ?thesis by (simp add: segment_bad_def index_at_less)
qed (simp add: segment_bad_def)

lemma any_bad_total: "any_bad ss \<noteq> Panic"
  by (induction ss) (auto simp: rbind_eq_Panic segment_bad_total)

lemma check_id_total [result_total]: "validate_check_id f v \<noteq> Panic"
  by (auto simp: validate_check_id_def Let_def rbind_eq_Panic any_bad_total)

lemma evidence_ref_total [result_total]: "validate_evidence_ref env f v \<noteq> Panic"
  by (auto simp: validate_evidence_ref_def Let_def rbind_eq_Panic as_bytes_length index_at_less)

lemma leaf_validators_total [result_total]:
  "validate_digest f v \<noteq> Panic" "validate_datetime env f v \<noteq> Panic" "validate_bounded_text f v lo hi \<noteq> Panic"
  by (simp_all add: validate_digest_def validate_datetime_def validate_bounded_text_def rbind_eq_Panic Let_def)

lemma context_total [result_total]: "validate_context env c \<noteq> Panic"
  by (auto simp: validate_context_def rbind_eq_Panic result_total Let_def
      split: VerificationContextMode.splits option.splits)

lemma profile_total [result_total]: "validate_profile f p \<noteq> Panic"
  by (simp add: validate_profile_def rbind_eq_Panic result_total)

lemma component_total [result_total]: "validate_component i c \<noteq> Panic"
  by (auto simp: validate_component_def rbind_eq_Panic result_total Let_def split: option.splits)

lemma refs_total [result_total]: "validate_refs env p i rs \<noteq> Panic"
  by (induction rs arbitrary: i) (auto simp: rbind_eq_Panic result_total)

lemma check_total [result_total]: "validate_check env i c \<noteq> Panic"
  by (simp add: validate_check_def rbind_eq_Panic result_total Let_def)

lemma components_total [result_total]: "validate_components i ids cs \<noteq> Panic"
  by (induction cs arbitrary: i ids) (auto simp: rbind_eq_Panic result_total)

lemma checks_total [result_total]: "validate_checks env now ids i cs \<noteq> Panic"
  by (induction cs arbitrary: i) (auto simp: rbind_eq_Panic result_total Let_def)

lemma validate_checks_length: "validate_checks env now ids i cs = Ok cs' \<Longrightarrow> length cs' = length cs"
  by (induction cs arbitrary: i cs') (auto simp: Let_def)

subsection \<open>What an accepted input satisfies\<close>

definition opaque_reference :: "'d result_env \<Rightarrow> ustr \<Rightarrow> bool" where
  "opaque_reference env r \<longleftrightarrow>
     (\<exists>u. r = lit ''urn:marty:evidence:'' @ uuid_text env u \<and> uuid_parse env (uuid_text env u) = Some u)"

definition check_recorded :: "'d result_env \<Rightarrow> 'd \<Rightarrow> VerificationCheckResult \<Rightarrow> VerificationCheckResult \<Rightarrow> bool" where
  "check_recorded env now c c' \<longleftrightarrow>
     (\<exists>t. parse_rfc3339 env (check_evaluated_at c) = Some t \<and> instant env t \<le> instant env now
        \<and> c' = c\<lparr>check_evaluated_at := canonical_datetime env t\<rparr>)
     \<and> length (evidence_refs c) \<le> 16 \<and> (\<forall>r\<in>set (evidence_refs c). opaque_reference env r)"

lemma strip_prefix_Some: "strip_prefix p s = Some t \<longleftrightarrow> s = p @ t"
proof -
  have "take (length p) s = p \<Longrightarrow> p @ drop (length p) s = s" by (metis append_take_drop_id)
  then show ?thesis by (auto simp: strip_prefix_def)
qed

lemma validate_evidence_ref_Ok: "validate_evidence_ref env f r = Ok () \<Longrightarrow> opaque_reference env r"
  by (auto simp: validate_evidence_ref_def opaque_reference_def Let_def strip_prefix_Some split: if_splits)

lemma validate_refs_Ok: "validate_refs env p i rs = Ok () \<Longrightarrow> r \<in> set rs \<Longrightarrow> opaque_reference env r"
  by (induction rs arbitrary: i) (auto dest: validate_evidence_ref_Ok)

lemma validate_check_Ok:
  assumes "validate_check env i c = Ok t"
  shows "parse_rfc3339 env (check_evaluated_at c) = Some t" "length (evidence_refs c) \<le> 16"
    "\<forall>r\<in>set (evidence_refs c). opaque_reference env r"
  using assms by (auto simp: validate_check_def validate_datetime_def MAX_CHECK_EVIDENCE_REFS_def Let_def dest: validate_refs_Ok)

lemma validate_checks_Ok:
  "validate_checks env now ids i cs = Ok cs' \<Longrightarrow>
   list_all2 (check_recorded env now) cs cs' \<and> (\<forall>c\<in>set cs'. check_component_id c \<in> ids)"
proof (induction cs arbitrary: i cs')
  case (Cons c cs)
  from Cons.prems obtain t ds where t: "validate_check env i c = Ok t" "\<not> instant env t > instant env now"
      "check_component_id c \<in> ids" "validate_checks env now ids (Suc i) cs = Ok ds"
      "cs' = c\<lparr>check_evaluated_at := canonical_datetime env t\<rparr> # ds"
    by (auto simp: Let_def)
  then show ?case using Cons.IH [OF t(4)] validate_check_Ok [OF t(1)] by (auto simp: check_recorded_def)
qed simp

lemma validate_components_Ok:
  "validate_components i ids cs = Ok ids' \<Longrightarrow>
   distinct (map component_id cs) \<and> set (map component_id cs) \<inter> ids = {} \<and> ids' = ids \<union> set (map component_id cs)"
proof (induction cs arbitrary: i ids)
  case (Cons c cs)
  then have "validate_components (Suc i) (insert (component_id c) ids) cs = Ok ids'" "component_id c \<notin> ids" by auto
  with Cons.IH show ?case by force
qed simp

lemma recorded_fields:
  assumes "list_all2 (check_recorded env now) cs cs'"
  shows "map check_id cs' = map check_id cs" "map required cs' = map required cs" "map outcome cs' = map outcome cs"
  using assms by (induction rule: list_all2_induct) (auto simp: check_recorded_def)

lemma final_verdict_fields:
  assumes "map required cs' = map required cs" "map outcome cs' = map outcome cs"
  shows "final_verdict s cs' = final_verdict s cs"
proof -
  have len: "length cs' = length cs" using assms(1) by (metis length_map)
  have "outcome ` set (filter required cs') = outcome ` set (filter required cs)"
    using len assms by (induction cs' cs rule: list_induct2) auto
  then show ?thesis by (simp add: final_verdict_def)
qed

lemma build_OkE:
  assumes "build_verification_decision_result env input = Ok r"
  obtains now ids where "parse_rfc3339 env (evaluated_at input) = Some now"
    "components input \<noteq> []" "length (components input) \<le> 32" "length (checks input) \<le> 1024"
    "validate_context env (dr_context input) = Ok ()"
    "validate_components 0 {} (components input) = Ok ids"
    "validate_checks env now ids 0 (checks input) = Ok (result_checks r)"
    "reduce_required_checks (input_status input) (result_checks r) =
       Ok \<lparr>processing_status = result_processing_status r, decision = result_decision r, decision_code = result_decision_code r,
           valid = result_valid r, category_summaries = result_category_summaries r\<rparr>"
    "result_evaluated_at r = canonical_datetime env now" "result_components r = components input"
  using assms
  by (fastforce simp: build_verification_decision_result_def validate_datetime_def MAX_VERIFICATION_COMPONENTS_def
      MAX_VERIFICATION_CHECKS_def)

lemma build_total: "build_verification_decision_result env input \<noteq> Panic"
proof -
  have "reduce_required_checks s cs \<noteq> Panic" if "length cs \<le> 1024" for s cs
    using reduce_canonical [of cs s] reduce_faulty [of cs s] that by (cases "canonical_checks cs") auto
  then show ?thesis
    by (auto simp: build_verification_decision_result_def rbind_eq_Panic result_total MAX_VERIFICATION_CHECKS_def
        dest!: validate_checks_length)
qed

text \<open>
  C10: Assembly of a decision result is total and sound: it never panics, and a result it returns names
  between 1 and 32 distinct components; records exactly the input's checks in order, only their times
  rewritten to canonical UTC; attributes each check to a declared component, at a time not after the
  result's; cites only opaque canonical evidence references; and is valid exactly when processing
  completed and every required check of the input passed, with the decision and code the
  specification gives for the input.
\<close>
theorem decision_result_sound:
  "build_verification_decision_result env input \<noteq> Panic
   \<and> (\<forall>r. build_verification_decision_result env input = Ok r \<longrightarrow>
       (\<exists>now. parse_rfc3339 env (evaluated_at input) = Some now \<and> result_evaluated_at r = canonical_datetime env now
          \<and> list_all2 (check_recorded env now) (checks input) (result_checks r))
     \<and> result_components r = components input \<and> distinct (map component_id (components input))
     \<and> 1 \<le> length (components input) \<and> length (components input) \<le> 32
     \<and> (\<forall>c\<in>set (result_checks r). check_component_id c \<in> component_id ` set (components input))
     \<and> canonical_checks (result_checks r)
     \<and> (result_decision r, result_decision_code r) = final_verdict (input_status input) (checks input)
     \<and> (result_valid r \<longleftrightarrow> input_status input = Completed \<and> (\<forall>c\<in>set (checks input). required c \<longrightarrow> outcome c = Passed)))"
proof (intro conjI build_total allI impI)
  fix r assume "build_verification_decision_result env input = Ok r"
  then obtain now ids where b: "parse_rfc3339 env (evaluated_at input) = Some now"
    "components input \<noteq> []" "length (components input) \<le> 32" "length (checks input) \<le> 1024"
    "validate_components 0 {} (components input) = Ok ids"
    "validate_checks env now ids 0 (checks input) = Ok (result_checks r)"
    "reduce_required_checks (input_status input) (result_checks r) =
       Ok \<lparr>processing_status = result_processing_status r, decision = result_decision r, decision_code = result_decision_code r,
           valid = result_valid r, category_summaries = result_category_summaries r\<rparr>"
    "result_evaluated_at r = canonical_datetime env now" "result_components r = components input"
    by (rule build_OkE)
  note checks = validate_checks_Ok [OF b(6)]
  note comps = validate_components_Ok [OF b(5)]
  have "length (result_checks r) < 4294967296" using validate_checks_length [OF b(6)] b(4) by simp
  note red = b(7) [unfolded reduce_Ok_iff [OF this]]
  have same: "final_verdict (input_status input) (result_checks r) = final_verdict (input_status input) (checks input)"
    using recorded_fields [OF conjunct1 [OF checks]] by (intro final_verdict_fields)
  show "\<exists>now. parse_rfc3339 env (evaluated_at input) = Some now \<and> result_evaluated_at r = canonical_datetime env now
      \<and> list_all2 (check_recorded env now) (checks input) (result_checks r)"
    using b checks by blast
  show "result_components r = components input" "length (components input) \<le> 32" by fact+
  show "distinct (map component_id (components input))" using comps by simp
  show "1 \<le> length (components input)" using b(2) by (cases "components input") simp_all
  show "\<forall>c\<in>set (result_checks r). check_component_id c \<in> component_id ` set (components input)"
    using checks comps by simp
  show "canonical_checks (result_checks r)" using red by simp
  have v: "result_decision r = fst (final_verdict (input_status input) (checks input))"
      "result_decision_code r = snd (final_verdict (input_status input) (checks input))"
      "result_valid r = (fst (final_verdict (input_status input) (result_checks r)) = Pass)"
    using red unfolding final_verdict_pass by (simp_all add: verdict_def same)
  then show "(result_decision r, result_decision_code r) = final_verdict (input_status input) (checks input)" by simp
  show "result_valid r \<longleftrightarrow> input_status input = Completed \<and> (\<forall>c\<in>set (checks input). required c \<longrightarrow> outcome c = Passed)"
    unfolding v(3) same by (rule final_verdict_pass)
qed

subsection \<open>Canonical results are fixed points\<close>

definition facts_of :: "VerificationDecisionResult \<Rightarrow> VerificationDecisionResultInput" where
  "facts_of r = \<lparr>verification_id = result_verification_id r, dr_context = result_context r,
     input_status = result_processing_status r, evaluated_at = result_evaluated_at r, input_digest = result_input_digest r,
     evidence_digest = result_evidence_digest r, policy = result_policy r, trust_profile = result_trust_profile r,
     components = result_components r, checks = result_checks r\<rparr>"

text \<open>
  Documented behaviour of the date-time library: the UTC text depends on the instant alone, and the
  text of an instant in the years 0 to 9999 is read back as that instant.
\<close>

definition rfc3339_laws :: "'d result_env \<Rightarrow> bool" where
  "rfc3339_laws env \<longleftrightarrow>
     (\<forall>d d'. instant env d = instant env d' \<longrightarrow> to_rfc3339_utc env d = to_rfc3339_utc env d')
     \<and> (\<forall>d. 0 \<le> utc_year env d \<and> utc_year env d \<le> 9999 \<longrightarrow>
          (\<exists>d'. parse_rfc3339 env (to_rfc3339_utc env d) = Some d' \<and> instant env d' = instant env d))"

definition four_digit_year :: "'d result_env \<Rightarrow> ustr \<Rightarrow> bool" where
  "four_digit_year env t \<longleftrightarrow>
     (\<forall>d. parse_rfc3339 env t = Some d \<longrightarrow> 0 \<le> utc_year env d \<and> utc_year env d \<le> 9999)"

lemma canonical_reparses:
  assumes "rfc3339_laws env" "four_digit_year env t" "parse_rfc3339 env t = Some d"
  obtains d' where "parse_rfc3339 env (canonical_datetime env d) = Some d'" "instant env d' = instant env d"
    "canonical_datetime env d' = canonical_datetime env d"
  using assms unfolding rfc3339_laws_def four_digit_year_def canonical_datetime_def by metis

lemma validate_check_again:
  assumes "rfc3339_laws env" "four_digit_year env (check_evaluated_at c)" "validate_check env i c = Ok t"
  obtains t' where "validate_check env i (c\<lparr>check_evaluated_at := canonical_datetime env t\<rparr>) = Ok t'"
    "instant env t' = instant env t" "canonical_datetime env t' = canonical_datetime env t"
  using canonical_reparses [OF assms(1,2) validate_check_Ok(1) [OF assms(3)]] assms(3)
  by (auto simp: validate_check_def validate_datetime_def Let_def)

lemma validate_checks_again:
  "rfc3339_laws env \<Longrightarrow> \<forall>c\<in>set cs. four_digit_year env (check_evaluated_at c) \<Longrightarrow> instant env now' = instant env now \<Longrightarrow>
   validate_checks env now ids i cs = Ok cs' \<Longrightarrow> validate_checks env now' ids i cs' = Ok cs'"
proof (induction cs arbitrary: i cs')
  case (Cons c cs)
  from Cons.prems(4) obtain t ds where t: "validate_check env i c = Ok t" "\<not> instant env t > instant env now"
      "check_component_id c \<in> ids" "validate_checks env now ids (Suc i) cs = Ok ds"
      "cs' = c\<lparr>check_evaluated_at := canonical_datetime env t\<rparr> # ds"
    by (auto simp: Let_def)
  have y: "four_digit_year env (check_evaluated_at c)" using Cons.prems(2) by simp
  obtain t' where t': "validate_check env i (c\<lparr>check_evaluated_at := canonical_datetime env t\<rparr>) = Ok t'"
    "instant env t' = instant env t" "canonical_datetime env t' = canonical_datetime env t"
    using validate_check_again [OF Cons.prems(1) y t(1)] .
  have "validate_checks env now' ids (Suc i) ds = Ok ds" using Cons.IH Cons.prems(1-3) t(4) by simp
  then show ?case using t t' Cons.prems(3) by (simp add: Let_def)
qed simp

lemma facts_of_build:
  assumes "build_verification_decision_result env input = Ok r" "result_processing_status r = input_status input"
  shows "facts_of r = input\<lparr>evaluated_at := result_evaluated_at r, checks := result_checks r\<rparr>"
  using assms by (auto simp: build_verification_decision_result_def facts_of_def)

text \<open>
  C11: A canonical result is a fixed point: rebuilding a result from the facts it records accepts them
  and gives the same result, decision, summaries and provenance included. The date-time library
  reads back what it writes for the years 0 to 9999, and the input's date-times fall in them.
\<close>
theorem decision_result_stable:
  assumes "rfc3339_laws env"
    and "four_digit_year env (evaluated_at input)"
    and "\<forall>c\<in>set (checks input). four_digit_year env (check_evaluated_at c)"
    and "build_verification_decision_result env input = Ok r"
  shows "build_verification_decision_result env (facts_of r) = Ok r"
proof -
  from assms(4) obtain now ids where b: "parse_rfc3339 env (evaluated_at input) = Some now"
    "components input \<noteq> []" "length (components input) \<le> 32" "length (checks input) \<le> 1024"
    "validate_components 0 {} (components input) = Ok ids"
    "validate_checks env now ids 0 (checks input) = Ok (result_checks r)"
    "reduce_required_checks (input_status input) (result_checks r) =
       Ok \<lparr>processing_status = result_processing_status r, decision = result_decision r, decision_code = result_decision_code r,
           valid = result_valid r, category_summaries = result_category_summaries r\<rparr>"
    "result_evaluated_at r = canonical_datetime env now"
    by (rule build_OkE)
  obtain now' where n: "parse_rfc3339 env (canonical_datetime env now) = Some now'" "instant env now' = instant env now"
    "canonical_datetime env now' = canonical_datetime env now"
    using canonical_reparses [OF assms(1,2) b(1)] .
  have c: "validate_checks env now' ids 0 (result_checks r) = Ok (result_checks r)"
    using validate_checks_again [OF assms(1,3) n(2) b(6)] .
  have s: "result_processing_status r = input_status input"
    using b(7) by (auto simp: reduce_required_checks_def split_beta Let_def)
  show ?thesis
    unfolding facts_of_build [OF assms(4) s]
    using assms(4) b n c s validate_checks_length [OF b(6)]
    by (auto simp: build_verification_decision_result_def validate_datetime_def)
qed

definition sample_result_env :: "bool result_env" where
  "sample_result_env = \<lparr>
     parse_rfc3339 = (\<lambda>t. if t = lit ''2026-08-08T00:00:00Z'' then Some False
        else if t = lit ''2026-08-08T02:00:00+02:00'' then Some True else None),
     instant = (\<lambda>_. 1786147200), to_rfc3339_utc = (\<lambda>_. lit ''2026-08-08T00:00:00Z''), utc_year = (\<lambda>_. 2026),
     uuid_parse = (\<lambda>t. if t = lit ''123e4567-e89b-42d3-a456-426614174000''
        then Some [0x12, 0x3e, 0x45, 0x67, 0xe8, 0x9b, 0x42, 0xd3, 0xa4, 0x56, 0x42, 0x66, 0x14, 0x17, 0x40, 0] else None),
     uuid_text = (\<lambda>_. lit ''123e4567-e89b-42d3-a456-426614174000'')\<rparr>"

definition sample_sha256 :: ustr where
  "sample_sha256 = lit ''sha256:'' @ replicate 64 97"

definition sample_profile :: VerificationProfileReference where
  "sample_profile = \<lparr>profile_id = lit ''profile:1'', profile_version = lit ''1.0.0'', content_digest = sample_sha256\<rparr>"

definition sample_result_input :: VerificationDecisionResultInput where
  "sample_result_input = \<lparr>verification_id = lit ''verification-1'',
     dr_context = \<lparr>mode = Offline, verifier_id = lit ''verifier-1'', organization_id = None, transaction_id = None,
       audience = None, offline_profile_id = Some (lit ''offline-1'')\<rparr>,
     input_status = Completed, evaluated_at = lit ''2026-08-08T02:00:00+02:00'', input_digest = sample_sha256,
     evidence_digest = sample_sha256, policy = sample_profile, trust_profile = sample_profile,
     components = [\<lparr>component_id = lit ''test-adapter'', component_version = lit ''1.0.0'', artifact_digest = sample_sha256,
       adapter_id = None, adapter_version = None\<rparr>],
     checks = sample_checks\<rparr>"

lemma sample_result_env_laws: "rfc3339_laws sample_result_env" "four_digit_year sample_result_env t"
  by (auto simp: rfc3339_laws_def four_digit_year_def sample_result_env_def)

lemma sample_result_built: "is_ok (build_verification_decision_result sample_result_env sample_result_input)"
  by code_simp

theorem decision_result_sound_witness:
  "\<exists>r. build_verification_decision_result sample_result_env sample_result_input = Ok r \<and> \<not> result_valid r"
proof -
  obtain r where r: "build_verification_decision_result sample_result_env sample_result_input = Ok r"
    using sample_result_built unfolding is_ok_iff by blast
  moreover have "\<not> (\<forall>c\<in>set (checks sample_result_input). required c \<longrightarrow> outcome c = Passed)"
    by (simp add: sample_result_input_def sample_checks_def sample_check_def)
  ultimately show ?thesis
    using decision_result_sound [of sample_result_env sample_result_input] by blast
qed

theorem decision_result_stable_witness:
  "\<exists>r. build_verification_decision_result sample_result_env sample_result_input = Ok r
     \<and> build_verification_decision_result sample_result_env (facts_of r) = Ok r"
proof -
  obtain r where r: "build_verification_decision_result sample_result_env sample_result_input = Ok r"
    using sample_result_built unfolding is_ok_iff by blast
  show ?thesis
    using decision_result_stable [OF sample_result_env_laws _ r] sample_result_env_laws(2) r by blast
qed

end
