(* ===== verification/Spec2Isabelle.thy ===== *)
theory Spec2Isabelle
  imports StatusList ChipSession Flow Governance ServicePolicy MdlTransport SelectiveDisclosure
    SigningBatch VerificationDecision
begin

text \<open>
  \<^bold>\<open>A verification library for marty-core.\<close>

  marty-core is a set of Rust crates for digital identity documents: status lists
  (\<open>marty-status\<close>), the verification of travel documents and credentials
  (\<open>marty-verification\<close>), mobile driving licences (\<open>marty-iso18013\<close>), credential issuance
  (\<open>marty-oid4vci\<close>) and the cryptographic wrappers they share (\<open>marty-crypto\<close>). The theories follow
  the crates; each definition carries the name of the Rust item it translates where Isabelle allows.

  \<^bold>\<open>Conventions.\<close> \<open>Prelude\<close> has the outcome of a Rust call, \<open>Ok\<close>, \<open>Err\<close> or \<open>Panic\<close>: an index out of
  range, a failed \<open>expect\<close> or an arithmetic fault of the source is the value \<open>Panic\<close> of the model, so
  that not panicking is a theorem. A call that changes a state returns outcome and state. Machine
  integers are words or bounded naturals with the checked, saturating or wrapping operation the
  source uses. \<open>RustStr\<close> has strings as lists of scalar values with lengths in UTF-8 bytes. Code
  outside the repository (ciphers, hashes, curves, CBOR, compressors, calendars, UUIDs, serde) is an
  argument, collected in environment records; what the theorems need of it is a named hypothesis,
  and each theorem with hypotheses has a witness in which they hold.

  \<^bold>\<open>Parts.\<close>
  \<^item> \<open>IndexedStore\<close>, \<open>StatusList\<close>: \<open>marty-status/src/lib.rs\<close>. The locale \<open>indexed_store\<close> states what a
    status list promises of reads and writes; token lists and bitstring lists are interpretations.
    Writes survive encoding, decoding is bounded, and the packed words refine a plain update.
  \<^item> \<open>Mrz\<close>: \<open>mrz/checksum.rs\<close>, \<open>mrz/parser.rs\<close>. The parser accepts exactly the zones with valid check
    digits; the check digit detects errors; the BAC string is the printed zone.
  \<^item> \<open>Apdu\<close>, \<open>FrameCodec\<close>, \<open>BerTlv\<close>, \<open>Tdes\<close>, \<open>SecureMessaging\<close>, \<open>ChipSession\<close>: \<open>chip_io/mod.rs\<close> and
    \<open>marty-crypto/src/des.rs\<close>. The locale \<open>frame_codec\<close> is the contract of a self-delimiting format,
    interpreted by the BER-TLV codec. Authentication with the chip agrees on the keys, commands and
    responses are protected as specified, and no send sequence counter is used twice.
  \<^item> \<open>Flow\<close>: \<open>flow.rs\<close>. Lifecycle of flow instances, validation of flow graphs, selection of a step.
  \<^item> \<open>Json\<close>, \<open>Governance\<close>: \<open>governance.rs\<close>. Canonical text of JSON values; authorization of API keys,
    snapshots and their resumption.
  \<^item> \<open>ServicePolicy\<close>: \<open>policy/service.rs\<close>. When a presentation is allowed and which claims it releases.
  \<^item> \<open>VerificationDecision\<close>: \<open>verification/decision.rs\<close>, \<open>verification/result.rs\<close>. The reducer of check
    outcomes to a decision and the assembly of a canonical result, which is a fixed point.
  \<^item> \<open>MdlEngagement\<close>, \<open>MdlSession\<close>, \<open>MdlTransport\<close>, \<open>SelectiveDisclosure\<close>: \<open>marty-iso18013\<close>. Engagement
    codecs, sessions with their key schedule and counters, transports behind the locales
    \<open>transport_contract\<close> and \<open>fifo_transport\<close>, the channel that couples both, and the filter of
    disclosed elements.
  \<^item> \<open>SigningBatch\<close>: \<open>marty-oid4vci/src/signing_batch.rs\<close>. Batches of signatures by a serial and by a
    concurrent executor, both interpretations of the locale \<open>signing_executor\<close>; the concurrent one is
    a step relation on workers, and no schedule changes the result.

  \<^bold>\<open>Interaction.\<close> \<open>SecureMessaging\<close> composes the command codec, BER-TLV, triple DES and the BAC string of
  \<open>Mrz\<close>; \<open>MdlTransport\<close> composes sessions with transports and reads NFC commands with the parser of
  \<open>Apdu\<close>; \<open>Governance\<close> and \<open>ServicePolicy\<close> share the JSON values of \<open>Json\<close>.

  \<^bold>\<open>Recursion and bounds.\<close> Loops of the source are structural or well-founded recursion with a
  termination proof, so there is no fuel. The concurrent executor runs a schedule to its end: every
  step of a worker lowers a measure that is \<open>3 * n + k\<close> for \<open>n\<close> jobs and \<open>k\<close> workers. The limits of
  the source (sizes, counts, counters) are definitions with the source's values.

  \<^bold>\<open>Not modelled.\<close> X.509, CMS and COSE processing, JOSE, the credential formats, DIDComm, the OID4VCI
  engines, Open Badges and key directories work on types of third-party crates throughout. Storage,
  HTTP, biometrics and the zero-knowledge library are input and output or foreign code. The language
  bindings convert values and forward calls. Serialization by serde, \<open>Debug\<close> output, logging and the
  erasure of memory are left out of the modelled parts. Pure modules that are not modelled are
  \<open>evidence_policy.rs\<close>, \<open>evidence_reconciliation.rs\<close>, the policy modules beside \<open>policy/service.rs\<close>,
  \<open>trust_sync.rs\<close>, \<open>passport_integrity.rs\<close>, the parsers of \<open>emrtd_data\<close>, and the browser fallback of
  \<open>secret_hash.rs\<close>. A signer call of \<open>SigningBatch\<close> takes effect on its backend at its return, and the
  preparation and assembly of the formats are arguments there.
\<close>

end
